(* ===== verification/Prelude.thy ===== *)
theory Prelude
  imports Main "HOL-Library.Word"
begin

text \<open>
  The library the device theories share: names for the C integer types, facts on single
  bits of machine words, the arithmetic of C division on \<open>int\<close>, reachability of a device
  under its operations and the locale that lifts an invariant from operations to runs.
\<close>

unbundle bit_operations_syntax

section \<open>Names for C types\<close>

type_synonym u8 = "8 word"
type_synonym u16 = "16 word"
type_synonym u32 = "32 word"
type_synonym u64 = "64 word"

text \<open>The C constant expression \<open>1 << n\<close>, at the width it is used at.\<close>

abbreviation shl1 :: "nat \<Rightarrow> 'a::len word" where
  "shl1 n \<equiv> push_bit n 1"

text \<open>
  C integer division and remainder truncate towards zero; HOL's \<open>div\<close> and \<open>mod\<close> round
  towards minus infinity.
\<close>

definition c_div :: "int \<Rightarrow> int \<Rightarrow> int" where
  "c_div a b = sgn a * sgn b * (\<bar>a\<bar> div \<bar>b\<bar>)"

definition c_mod :: "int \<Rightarrow> int \<Rightarrow> int" where
  "c_mod a b = a - c_div a b * b"

text \<open>The C value of a comparison.\<close>

abbreviation c_bool :: "bool \<Rightarrow> 'a::zero_neq_one" where
  "c_bool b \<equiv> of_bool b"

named_theorems bits \<open>facts that decide single bits of masked and shifted words\<close>
named_theorems inv_intros \<open>preservation lemmas of the device invariants\<close>

section \<open>Reachable states of a device\<close>

text \<open>
  A device starts in one of its initial states and performs operations one after the
  other; \<open>step s e t\<close> says that operation \<open>e\<close> takes state \<open>s\<close> to state \<open>t\<close>.
\<close>

inductive reachable :: "('s \<Rightarrow> bool) \<Rightarrow> ('s \<Rightarrow> 'e \<Rightarrow> 's \<Rightarrow> bool) \<Rightarrow> 's \<Rightarrow> bool"
  for init :: "'s \<Rightarrow> bool" and step :: "'s \<Rightarrow> 'e \<Rightarrow> 's \<Rightarrow> bool"
  where
    start: "init s \<Longrightarrow> reachable init step s"
  | next_state: "reachable init step s \<Longrightarrow> step s e t \<Longrightarrow> reachable init step t"

inductive_cases reachableE: "reachable init step s"

locale device =
  fixes init :: "'s \<Rightarrow> bool"
    and step :: "'s \<Rightarrow> 'e \<Rightarrow> 's \<Rightarrow> bool"
    and wf :: "'s \<Rightarrow> bool"
  assumes init_wf: "init s \<Longrightarrow> wf s"
    and step_wf: "step s e t \<Longrightarrow> wf s \<Longrightarrow> wf t"
begin

lemma reachable_wf: "reachable init step s \<Longrightarrow> wf s"
  by (induction rule: reachable.induct) (auto intro: init_wf step_wf)

end

section \<open>Lists\<close>

lemma nth_list_update_if: "xs[i := v] ! j = (if i = j \<and> j < length xs then v else xs ! j)"
  by (cases "i = j") (auto simp: list_update_beyond)

section \<open>Single bits\<close>

text \<open>
  The simplifier writes \<open>1 << n\<close> as \<open>2 ^ n\<close>, and as a numeral where \<open>n\<close> is one; the
  tests and updates of single bits are decided in both forms.
\<close>

lemma and_exp_eq_0 [bits]: "(x::'a::len word) AND 2 ^ n = 0 \<longleftrightarrow> \<not> bit x n"
  by (simp add: and_exp_eq_0_iff_not_bit)

lemma exp_and_eq_0 [bits]: "2 ^ n AND (x::'a::len word) = 0 \<longleftrightarrow> \<not> bit x n"
  by (simp add: and_exp_eq_0 and.commute [of "2 ^ n"])

lemma bit_exp_word [bits]: "bit (2 ^ n :: 'a::len word) m \<longleftrightarrow> n = m \<and> m < LENGTH('a)"
  by (auto simp: bit_simps)

lemma bit_or_exp [bits]:
  "bit ((x::'a::len word) OR 2 ^ n) m \<longleftrightarrow> bit x m \<or> (n = m \<and> m < LENGTH('a))"
  by (auto simp: bit_simps)

lemma bit_and_not_exp [bits]:
  "bit ((x::'a::len word) AND NOT (2 ^ n)) m \<longleftrightarrow> bit x m \<and> n \<noteq> m"
  using bit_imp_le_length [of x m] by (auto simp: bit_simps)

lemma and_numeral_eq_0:
  fixes x :: "'a::len word"
  shows "x AND 1 = 0 \<longleftrightarrow> \<not> bit x 0"
    and "x AND 2 = 0 \<longleftrightarrow> \<not> bit x 1"
    and "x AND 4 = 0 \<longleftrightarrow> \<not> bit x 2"
    and "x AND 8 = 0 \<longleftrightarrow> \<not> bit x 3"
    and "x AND 16 = 0 \<longleftrightarrow> \<not> bit x 4"
    and "x AND 32 = 0 \<longleftrightarrow> \<not> bit x 5"
    and "x AND 64 = 0 \<longleftrightarrow> \<not> bit x 6"
    and "x AND 128 = 0 \<longleftrightarrow> \<not> bit x 7"
  using and_exp_eq_0 [of x 0] and_exp_eq_0 [of x 1] and_exp_eq_0 [of x 2] and_exp_eq_0 [of x 3]
    and_exp_eq_0 [of x 4] and_exp_eq_0 [of x 5] and_exp_eq_0 [of x 6] and_exp_eq_0 [of x 7]
  by simp_all

lemma word8_eq_0_iff: "(x::u8) = 0 \<longleftrightarrow> (\<forall>n<8. \<not> bit x n)"
proof
  assume "\<forall>n<8. \<not> bit x n"
  then show "x = 0" by (intro bit_word_eqI) auto
qed simp

lemma word8_bit_less: "bit (x::u8) n \<Longrightarrow> n < 8"
  using bit_imp_le_length [of x n] by simp

section \<open>Masks\<close>

lemma unat_and_mask: "unat ((x::'a::len word) AND mask n) = unat x mod 2 ^ n"
proof -
  have "x AND mask n = take_bit n x" by (simp add: take_bit_eq_mask)
  then show ?thesis by (simp only: unsigned_take_bit_eq take_bit_eq_mod [where ?'a = nat])
qed

lemma unat_and_numeral:
  fixes x :: "'a::len word"
  shows "unat (x AND 1) = unat x mod 2"
    and "unat (x AND 3) = unat x mod 4"
    and "unat (x AND 7) = unat x mod 8"
    and "unat (x AND 15) = unat x mod 16"
    and "unat (x AND 127) = unat x mod 128"
    and "unat (x AND 255) = unat x mod 256"
  using unat_and_mask [of x 1] unat_and_mask [of x 2] unat_and_mask [of x 3] unat_and_mask [of x 4]
    unat_and_mask [of x 7] unat_and_mask [of x 8]
  by (simp_all add: mask_eq_exp_minus_1)

lemma unat_drop_bit: "unat (drop_bit n (x::'a::len word)) = unat x div 2 ^ n"
  by (metis drop_bit_eq_div unat_drop_bit_eq)

lemma unat_ucast_8: "unat (ucast (x::'a::len word) :: u8) = unat x mod 256"
  by (simp add: unsigned_ucast_eq take_bit_eq_mod)

lemma ucast_8_32_8 [simp]: "ucast (ucast (x::u8) :: u32) = x"
  by (rule bit_word_eqI) (simp add: bit_simps)

lemma unat_exp: "j < LENGTH('a::len) \<Longrightarrow> unat (2 ^ j :: 'a word) = 2 ^ j"
proof -
  assume "j < LENGTH('a)"
  then have "(2::nat) ^ j < 2 ^ LENGTH('a)" by simp
  then have "unat (of_nat (2 ^ j) :: 'a word) = 2 ^ j" by (simp only: unat_of_nat mod_less)
  then show ?thesis by simp
qed

text \<open>On non-negative numbers C's division is the mathematical one.\<close>

lemma c_div_nonneg [simp]: "0 \<le> a \<Longrightarrow> 0 < b \<Longrightarrow> c_div a b = a div b"
  by (cases "a = 0") (simp_all add: c_div_def)

lemma c_mod_nonneg [simp]: "0 \<le> a \<Longrightarrow> 0 < b \<Longrightarrow> c_mod a b = a mod b"
  by (simp add: c_mod_def minus_div_mult_eq_mod)

text \<open>A value below \<open>2^31\<close> reads the same as a C \<open>int\<close>.\<close>

lemma signed_take_bit_small: "0 \<le> k \<Longrightarrow> k < 2 ^ 31 \<Longrightarrow> signed_take_bit 31 k = (k :: int)"
  by (intro signed_take_bit_int_eq_self) simp_all

lemma sint_small:
  assumes "unat (w :: u32) < 2 ^ 31"
  shows "sint w = int (unat w)"
proof -
  have "int (unat w) < int (2 ^ 31)" using assms by (simp only: of_nat_less_iff)
  then have "uint w < 2 ^ 31" by simp
  then show ?thesis using signed_take_bit_small [of "uint w"] by (simp add: sint_uint)
qed

lemma sint_ucast_small:
  fixes w :: u64
  assumes "uint w < 2 ^ 31"
  shows "sint (ucast w :: u32) = uint w"
  using assms signed_take_bit_small [of "uint w"] by (simp add: signed_ucast_eq)

text \<open>Two bytes put together.\<close>

lemma unat_two_bytes:
  fixes l :: u8 and v :: u32
  assumes "unat v < 256"
  shows "unat (ucast l OR push_bit 8 v) = unat l + 256 * unat v"
proof -
  have "(ucast l :: u32) AND push_bit 8 v = 0"
    by (rule bit_word_eqI) (auto simp: bit_simps dest: bit_imp_le_length)
  then have "ucast l OR push_bit 8 v = ucast l + push_bit 8 v"
    by (rule disjunctive_add_eq_or [symmetric])
  moreover have "unat (push_bit 8 v) = 256 * unat v"
    using assms by (simp add: push_bit_eq_mult unat_word_ariths(2))
  moreover have "unat l < 256" using unsigned_less [of l, where ?'a = nat] by simp
  moreover from this have "unat (ucast l :: u32) = unat l"
    by (simp add: unsigned_ucast_eq take_bit_eq_mod)
  ultimately show ?thesis using assms by (simp add: unat_word_ariths(1))
qed

lemma sint_two_bytes:
  fixes l :: u8 and v :: u32
  assumes "unat v < 256"
  shows "sint (ucast l OR push_bit 8 v) = int (unat l + 256 * unat v)"
proof -
  have "unat l < 256" using unsigned_less [of l, where ?'a = nat] by simp
  then have "unat (ucast l OR push_bit 8 v) < 2 ^ 31"
    using unat_two_bytes [OF assms, of l] assms by simp
  from sint_small [OF this] show ?thesis by (simp only: unat_two_bytes [OF assms])
qed

end
