(* ===== verification/Byte_Queue.thy ===== *)
theory Byte_Queue
  imports Prelude
begin

text \<open>
  Ring buffers and what they promise. Two devices keep bytes in an array with a read
  index, a write index and a count (the PS/2 queue and the UART FIFO); the facts about
  such a ring are proved here once. The locale \<open>fifo\<close> is the interface a client of a
  bounded queue relies on, and \<open>dropping_fifo\<close> extends it with the law that a full
  queue ignores new elements.
\<close>

section \<open>The ring\<close>

definition ring_elems :: "'a list \<Rightarrow> nat \<Rightarrow> nat \<Rightarrow> 'a list" where
  "ring_elems buf r c = map (\<lambda>i. buf ! ((r + i) mod length buf)) [0..<c]"

definition ring_ok :: "'a list \<Rightarrow> nat \<Rightarrow> nat \<Rightarrow> nat \<Rightarrow> bool" where
  "ring_ok buf r w c \<longleftrightarrow>
     r < length buf \<and> w < length buf \<and> c \<le> length buf \<and> w = (r + c) mod length buf"

text \<open>Taking \<open>n\<close> elements one after the other.\<close>

primrec drain :: "('q \<Rightarrow> 'a \<times> 'q) \<Rightarrow> nat \<Rightarrow> 'q \<Rightarrow> 'a list \<times> 'q" where
  "drain get 0 q = ([], q)"
| "drain get (Suc n) q =
     (let (x, q1) = get q; (xs, q2) = drain get n q1 in (x # xs, q2))"

lemma length_ring_elems [simp]: "length (ring_elems buf r c) = c"
  by (simp add: ring_elems_def)

lemma ring_elems_0 [simp]: "ring_elems buf r 0 = []"
  by (simp add: ring_elems_def)

lemma ring_index_inj:
  assumes "i < c" "c < n" "r < (n::nat)"
  shows "(r + i) mod n \<noteq> (r + c) mod n"
proof
  assume "(r + i) mod n = (r + c) mod n"
  then have "n dvd (r + c) - (r + i)"
    using assms by (metis add_le_cancel_left less_imp_le mod_eq_dvd_iff_nat)
  then show False using assms by (auto dest: dvd_imp_le)
qed

lemma wrap_index: "w < n \<Longrightarrow> (if Suc w = n then 0 else Suc w) = Suc w mod n"
  by (auto simp: mod_Suc)

lemma ring_put:
  assumes "ring_ok buf r w c" "c < length buf"
  shows "ring_elems (buf[w := x]) r (Suc c) = ring_elems buf r c @ [x]"
    and "ring_ok (buf[w := x]) r (Suc w mod length buf) (Suc c)"
proof -
  have "buf[w := x] ! ((r + i) mod length buf) = buf ! ((r + i) mod length buf)" if "i < c" for i
    using that assms ring_index_inj [of i c "length buf" r]
    by (simp add: ring_ok_def)
  moreover have "buf[w := x] ! ((r + c) mod length buf) = x"
    using assms by (simp add: ring_ok_def)
  ultimately show "ring_elems (buf[w := x]) r (Suc c) = ring_elems buf r c @ [x]"
    by (simp add: ring_elems_def)
  show "ring_ok (buf[w := x]) r (Suc w mod length buf) (Suc c)"
    using assms by (auto simp: ring_ok_def mod_Suc_eq intro: mod_less_divisor)
qed

lemma ring_get:
  assumes "ring_ok buf r w (Suc c)"
  shows "ring_elems buf r (Suc c) = buf ! r # ring_elems buf (Suc r mod length buf) c"
    and "ring_ok buf (Suc r mod length buf) w c"
proof -
  have "(r + Suc i) mod length buf = (Suc r mod length buf + i) mod length buf" for i
    by (simp add: mod_add_left_eq)
  then show "ring_elems buf r (Suc c) = buf ! r # ring_elems buf (Suc r mod length buf) c"
    using assms unfolding ring_elems_def ring_ok_def map_upt_Suc by simp
  show "ring_ok buf (Suc r mod length buf) w c"
    using assms by (auto simp: ring_ok_def mod_add_left_eq intro: mod_less_divisor)
qed

section \<open>What a bounded queue promises\<close>

locale fifo =
  fixes cap :: nat
    and put :: "'a \<Rightarrow> 'q \<Rightarrow> 'q"
    and get :: "'q \<Rightarrow> 'a \<times> 'q"
    and elems :: "'q \<Rightarrow> 'a list"
    and invar :: "'q \<Rightarrow> bool"
  assumes invar_put: "invar q \<Longrightarrow> length (elems q) < cap \<Longrightarrow> invar (put x q)"
    and elems_put: "invar q \<Longrightarrow> length (elems q) < cap \<Longrightarrow> elems (put x q) = elems q @ [x]"
    and invar_get: "invar q \<Longrightarrow> invar (snd (get q))"
    and get_first: "invar q \<Longrightarrow> elems q = x # xs \<Longrightarrow> fst (get q) = x"
    and get_rest: "invar q \<Longrightarrow> elems q = x # xs \<Longrightarrow> elems (snd (get q)) = xs"
    and elems_bound: "invar q \<Longrightarrow> length (elems q) \<le> cap"
begin

lemma put_all:
  assumes "invar q" "length (elems q) + length xs \<le> cap"
  shows "invar (fold put xs q) \<and> elems (fold put xs q) = elems q @ xs"
  using assms
proof (induction xs arbitrary: q)
  case (Cons x xs)
  then have "length (elems q) < cap" by simp
  with Cons show ?case by (simp add: invar_put elems_put)
qed simp

lemma drain_take:
  assumes "invar q" "n \<le> length (elems q)"
  shows "fst (drain get n q) = take n (elems q)"
    and "elems (snd (drain get n q)) = drop n (elems q)"
    and "invar (snd (drain get n q))"
proof -
  have "fst (drain get n q) = take n (elems q) \<and> elems (snd (drain get n q)) = drop n (elems q)
      \<and> invar (snd (drain get n q))"
    using assms
  proof (induction n arbitrary: q)
    case (Suc n)
    then obtain x xs where q: "elems q = x # xs" by (cases "elems q") auto
    from Suc.prems q have "invar (snd (get q))" "elems (snd (get q)) = xs" "fst (get q) = x"
      by (auto simp: invar_get get_first get_rest)
    with Suc.IH [of "snd (get q)"] Suc.prems q show ?case
      by (simp add: split_beta)
  qed simp
  then show "fst (drain get n q) = take n (elems q)"
    and "elems (snd (drain get n q)) = drop n (elems q)"
    and "invar (snd (drain get n q))" by auto
qed

lemma first_in_first_out:
  assumes "invar q" "elems q = []" "length xs \<le> cap"
  shows "fst (drain get (length xs) (fold put xs q)) = xs"
  using put_all [of q xs] drain_take(1) [of "fold put xs q" "length xs"] assms by simp

end

locale dropping_fifo = fifo +
  assumes put_full: "invar q \<Longrightarrow> length (elems q) = cap \<Longrightarrow> put x q = q"
begin

lemma invar_put_any: "invar q \<Longrightarrow> invar (put x q)"
  using invar_put put_full elems_bound by (metis le_neq_implies_less)

lemma put_take:
  "invar q \<Longrightarrow> invar (fold put xs q) \<and> elems (fold put xs q) = take cap (elems q @ xs)"
proof (induction xs arbitrary: q)
  case Nil
  then show ?case by (simp add: elems_bound)
next
  case (Cons x xs)
  show ?case
  proof (cases "length (elems q) < cap")
    case True
    then have "cap - length (elems q) = Suc (cap - Suc (length (elems q)))" by simp
    with True Cons show ?thesis by (simp add: invar_put elems_put)
  next
    case False
    with Cons.prems have "length (elems q) = cap" using elems_bound by (simp add: le_antisym)
    with Cons show ?thesis by (simp add: put_full)
  qed
qed

end

end
