(* ===== verification/Qemu_Common.thy ===== *)
theory Qemu_Common
  imports Prelude
begin

text \<open>
  What the devices take from the emulator core: the 96-bit multiply-and-divide of
  \<open>qemu-common.h\<close> with its exactness, the nanosecond time base, and the state of a
  \<open>QEMUTimer\<close> as a device sees it. A timer is absent (the pointer is NULL), stopped, or
  armed for an expiry time.
\<close>

section \<open>muldiv64\<close>

definition muldiv64 :: "u64 \<Rightarrow> u32 \<Rightarrow> u32 \<Rightarrow> u64" where
  "muldiv64 a b c =
     (let low = (ucast a :: u32);
          high = (ucast (drop_bit 32 a) :: u32);
          rl = (ucast low :: u64) * ucast b;
          rh = (ucast high :: u64) * ucast b;
          rh' = rh + drop_bit 32 rl;
          res_high = (ucast (rh' div ucast c) :: u32);
          res_low = (ucast ((push_bit 32 (rh' mod ucast c) + (rl AND 0xffffffff)) div ucast c) :: u32)
      in push_bit 32 (ucast res_high) OR ucast res_low)"

section \<open>Timers\<close>

definition get_ticks_per_sec :: "'a::len word" where
  "get_ticks_per_sec = 1000000000"

datatype qemu_timer = NoTimer | Timer "u64 option"

primrec qemu_mod_timer :: "qemu_timer \<Rightarrow> u64 \<Rightarrow> qemu_timer" where
  "qemu_mod_timer NoTimer t = NoTimer"
| "qemu_mod_timer (Timer _) t = Timer (Some t)"

primrec qemu_del_timer :: "qemu_timer \<Rightarrow> qemu_timer" where
  "qemu_del_timer NoTimer = NoTimer"
| "qemu_del_timer (Timer _) = Timer None"

section \<open>Exactness of muldiv64\<close>

lemma unat_u32_u64: "unat (ucast (x::u32) :: u64) = unat x"
proof -
  have "unat x < 2 ^ 64" using unsigned_less [of x, where ?'a = nat] by simp
  then show ?thesis by (simp add: unsigned_ucast_eq take_bit_nat_eq_self_iff)
qed

lemma unat_u64_u32: "unat (ucast (x::u64) :: u32) = unat x mod 2 ^ 32"
  by (simp add: unsigned_ucast_eq take_bit_eq_mod)

lemma unat_push32_or:
  "unat (push_bit 32 (ucast (h::u32)) OR ucast (l::u32) :: u64) = unat h * 2 ^ 32 + unat l"
proof -
  have "push_bit 32 (ucast h) AND (ucast l :: u64) = 0"
    by (rule bit_word_eqI) (auto simp: bit_simps dest: bit_imp_le_length)
  then have eq: "push_bit 32 (ucast h) OR (ucast l :: u64) = push_bit 32 (ucast h) + ucast l"
    by (simp add: disjunctive_add_eq_or)
  have "unat h * 2 ^ 32 + unat l < 2 ^ 64"
    using unsigned_less [of h, where ?'a = nat] unsigned_less [of l, where ?'a = nat] by simp
  then show ?thesis
    unfolding eq by (simp add: unat_word_ariths push_bit_eq_mult unat_u32_u64)
qed

lemma unat_and_low32: "unat ((x::u64) AND 0xffffffff) = unat x mod 2 ^ 32"
proof -
  have "x AND 0xffffffff = take_bit 32 x" by (simp add: take_bit_eq_mask mask_eq_exp_minus_1)
  then show ?thesis by (simp add: take_bit_eq_mod unat_mod_distrib)
qed

text \<open>Long multiplication and long division in base \<open>K\<close>, on numbers.\<close>

lemma mul_split:
  fixes A B K :: nat
  defines "rl \<equiv> A mod K * B"
  shows "A * B = (A div K * B + rl div K) * K + rl mod K"
proof -
  have "A * B = (A div K * K + A mod K) * B" by simp
  also have "\<dots> = A div K * B * K + rl" unfolding rl_def by (simp only: algebra_simps)
  also have "\<dots> = A div K * B * K + (rl div K * K + rl mod K)" by simp
  finally show ?thesis by (simp add: algebra_simps)
qed

lemma div_split:
  fixes r l C K :: nat
  assumes "C > 0"
  shows "(r * K + l) div C = r div C * K + (r mod C * K + l) div C"
proof -
  have "r * K + l = (C * (r div C) + r mod C) * K + l" by simp
  also have "\<dots> = C * (r div C * K) + (r mod C * K + l)" by (simp only: algebra_simps)
  finally have "(r * K + l) div C = (C * (r div C * K) + (r mod C * K + l)) div C"
    by (rule arg_cong)
  then show ?thesis using assms by (simp only: div_mult_self1 div_mult_self4)
qed

lemma small_quotient:
  fixes r l C K :: nat
  assumes "r < C" "l < K"
  shows "(r * K + l) div C < K"
proof -
  have "r * K + l < Suc r * K" using assms by simp
  also have "\<dots> \<le> C * K" using assms by (intro mult_right_mono) simp_all
  finally show ?thesis by (simp add: less_mult_imp_div_less mult.commute)
qed

lemma digits_mod:
  fixes h l K :: nat
  assumes "l < K"
  shows "h mod K * K + l = (h * K + l) mod (K * K)"
proof -
  have "(h * K + l) mod (K * K) = K * ((h * K + l) div K mod K) + (h * K + l) mod K"
    by (simp only: mod_mult2_eq)
  then show ?thesis using assms by simp
qed

lemma mul_bound32:
  fixes h b r :: nat
  assumes "h < 2 ^ 32" "b < 2 ^ 32" "r < 2 ^ 32"
  shows "h * b + r < 2 ^ 64"
proof -
  have "h * b \<le> (2 ^ 32 - 1) * (2 ^ 32 - 1)" using assms by (intro mult_mono) simp_all
  with assms show ?thesis by simp
qed

text \<open>
  The union trick computes the full product and quotient: no intermediate value of the C
  code overflows, and only the top half of the quotient is cut to 32 bits.
\<close>

lemma muldiv64_exact:
  assumes "c \<noteq> 0"
  shows "unat (muldiv64 a b c) = unat a * unat b div unat c mod 2 ^ 64"
proof -
  define A B C where "A = unat a" and "B = unat b" and "C = unat c"
  define rl rh where "rl = A mod 2 ^ 32 * B" and "rh = A div 2 ^ 32 * B + rl div 2 ^ 32"
  define x where "x = rh mod C * 2 ^ 32 + rl mod 2 ^ 32"
  have C: "0 < C" using assms by (simp add: C_def unat_gt_0)
  have bounds: "A < 2 ^ 64" "B < 2 ^ 32" "C < 2 ^ 32"
    using unsigned_less [of a, where ?'a = nat] unsigned_less [of b, where ?'a = nat]
      unsigned_less [of c, where ?'a = nat] by (simp_all add: A_def B_def C_def)
  have Ad: "A div 2 ^ 32 < 2 ^ 32" using bounds by (simp add: div_less_iff_less_mult)
  have rl: "rl < 2 ^ 64" using mul_bound32 [of "A mod 2 ^ 32" B 0] bounds by (simp add: rl_def)
  have "rl div 2 ^ 32 < 2 ^ 32" using rl by (simp add: div_less_iff_less_mult)
  then have rh: "rh < 2 ^ 64" using mul_bound32 [OF Ad] bounds by (simp add: rh_def)
  have "rh mod C < 2 ^ 32" using C bounds by (meson mod_less_divisor order.strict_trans)
  then have x: "x < 2 ^ 64" by (simp add: x_def)
  have xC: "x div C < 2 ^ 32" unfolding x_def by (rule small_quotient) (use C in simp_all)
  define rlw rhw where "rlw = (ucast (ucast a :: u32) :: u64) * ucast b"
    and "rhw = (ucast (ucast (drop_bit 32 a) :: u32) :: u64) * ucast b + drop_bit 32 rlw"
  have rlw: "unat rlw = rl"
    using rl by (simp add: rlw_def rl_def unat_word_ariths unat_u32_u64 unat_u64_u32 A_def B_def)
  have rhw: "unat rhw = rh"
    using rh Ad
    by (simp add: rhw_def rh_def unat_word_ariths unat_u32_u64 unat_u64_u32 unsigned_drop_bit_eq
        drop_bit_eq_div rlw A_def B_def mod_add_left_eq take_bit_eq_mod)
  have "unat (push_bit 32 (rhw mod ucast c) + (rlw AND 0xffffffff)) = x"
    using x by (simp add: x_def unat_word_ariths push_bit_eq_mult unat_mod_distrib unat_u32_u64
        unat_and_low32 rlw rhw C_def mod_add_left_eq)
  then have low: "unat (ucast ((push_bit 32 (rhw mod ucast c) + (rlw AND 0xffffffff)) div ucast c) :: u32)
      = x div C"
    using xC by (simp add: unat_u64_u32 unat_div_distrib unat_u32_u64 C_def)
  have "unat (muldiv64 a b c) = rh div C mod 2 ^ 32 * 2 ^ 32 + x div C"
    unfolding muldiv64_def Let_def rlw_def [symmetric] rhw_def [symmetric] unat_push32_or low
    by (simp add: unat_u64_u32 unat_div_distrib unat_u32_u64 rhw C_def)
  also have "\<dots> = (rh div C * 2 ^ 32 + x div C) mod 2 ^ 64"
    using digits_mod [OF xC, of "rh div C"] by simp
  also have "rh div C * 2 ^ 32 + x div C = A * B div C"
    using C mul_split [of A B "2 ^ 32"] div_split [of C rh "2 ^ 32" "rl mod 2 ^ 32"]
    by (simp add: rl_def rh_def x_def)
  finally show ?thesis by (simp add: A_def B_def C_def)
qed

section \<open>Clock ticks and nanoseconds\<close>

text \<open>
  Devices convert between nanoseconds and ticks of their own clock with \<open>muldiv64\<close>, rounding
  down both ways. \<open>to_ticks f g x\<close> is the number of ticks of an \<open>f\<close> Hz clock in \<open>x\<close> units
  of a \<open>g\<close> Hz time base, \<open>to_time f g n\<close> the time programmed for tick \<open>n\<close>.
\<close>

definition to_ticks :: "nat \<Rightarrow> nat \<Rightarrow> nat \<Rightarrow> nat" where
  "to_ticks f g x = x * f div g"

definition to_time :: "nat \<Rightarrow> nat \<Rightarrow> nat \<Rightarrow> nat" where
  "to_time f g n = n * g div f"

locale tick_clock =
  fixes f g :: nat
  assumes f_pos: "0 < f" and f_le: "f \<le> g"
begin

lemma g_pos: "0 < g"
  using f_pos f_le by simp

lemma to_ticks_mono: "x \<le> y \<Longrightarrow> to_ticks f g x \<le> to_ticks f g y"
  by (simp add: to_ticks_def div_le_mono)

lemma to_time_mono: "m \<le> n \<Longrightarrow> to_time f g m \<le> to_time f g n"
  by (simp add: to_time_def div_le_mono)

lemma to_ticks_le: "to_ticks f g x \<le> x"
proof -
  have "x * f div g \<le> x * g div g" using f_le by (intro div_le_mono) simp
  then show ?thesis using g_pos by (simp add: to_ticks_def)
qed

text \<open>Before the programmed time the tick has not come; after it, it has.\<close>

lemma ticks_before:
  assumes "x < to_time f g n"
  shows "to_ticks f g x < n"
proof -
  have "Suc x * f \<le> n * g"
    using assms f_pos by (simp add: to_time_def less_eq_div_iff_mult_less_eq Suc_le_eq [symmetric])
  then have "x * f < n * g" using f_pos by simp
  then show ?thesis by (simp add: to_ticks_def less_mult_imp_div_less)
qed

lemma ticks_after:
  assumes "to_time f g n < x"
  shows "n \<le> to_ticks f g x"
proof -
  have "n * g < x * f"
    using assms f_pos by (simp add: to_time_def div_less_iff_less_mult)
  then show ?thesis using g_pos by (simp add: to_ticks_def less_eq_div_iff_mult_less_eq)
qed

text \<open>
  At the programmed time itself the tick has come only if the division was exact;
  otherwise the clock still shows the tick before.
\<close>

lemma ticks_at:
  assumes "0 < n"
  shows "to_ticks f g (to_time f g n) = (if f dvd n * g then n else n - 1)"
proof (cases "f dvd n * g")
  case True
  then show ?thesis using g_pos by (simp add: to_ticks_def to_time_def)
next
  case False
  define r where "r = n * g mod f"
  have r: "0 < r" "r < f" using False f_pos by (auto simp: r_def dvd_eq_mod_eq_0)
  obtain m where m: "n = Suc m" using assms by (cases n) auto
  have "n * g div f * f + r = n * g" by (simp add: r_def)
  then have eq: "n * g div f * f = m * g + (g - r)" using r f_le m by simp
  have "g - r < g" using r g_pos by simp
  then have "n * g div f * f div g = m" unfolding eq by simp
  with False m show ?thesis by (simp add: to_ticks_def to_time_def)
qed

lemma to_ticks_Suc: "to_ticks f g (Suc x) \<le> Suc (to_ticks f g x)"
proof -
  have "(f + x * f) div g \<le> (x * f + g) div g" using f_le by (intro div_le_mono) simp
  also have "\<dots> = Suc (x * f div g)" using g_pos by (subst div_add_self2) simp_all
  finally show ?thesis by (simp add: to_ticks_def)
qed

text \<open>One unit after the programmed time the clock shows the tick exactly.\<close>

lemma ticks_Suc_time:
  assumes "f < g"
  shows "to_ticks f g (Suc (to_time f g n)) = n"
proof -
  have "to_time f g n * f \<le> n * g" by (simp add: to_time_def)
  then have "Suc (to_time f g n) * f < Suc n * g" using assms by simp
  then have "to_ticks f g (Suc (to_time f g n)) < Suc n"
    unfolding to_ticks_def by (rule less_mult_imp_div_less)
  with ticks_after [of n "Suc (to_time f g n)"] show ?thesis by simp
qed

text \<open>How far ahead the time of a tick can lie.\<close>

lemma to_time_bound:
  assumes "n \<le> to_ticks f g x + c"
  shows "to_time f g n \<le> x + c * g div f"
proof -
  have "to_ticks f g x * g \<le> x * f" by (simp add: to_ticks_def)
  moreover have "n * g \<le> to_ticks f g x * g + c * g"
    using assms by (simp add: add_mult_distrib [symmetric])
  ultimately have "n * g \<le> c * g + x * f" by simp
  then have "to_time f g n \<le> (c * g + x * f) div f" unfolding to_time_def by (rule div_le_mono)
  also have "\<dots> = x + c * g div f" using f_pos by simp
  finally show ?thesis .
qed

text \<open>So a timer that fires at the programmed time, or one unit later, sees the tick.\<close>

lemma ticks_reached:
  assumes "0 < n"
  shows "to_ticks f g (to_time f g n) = n \<or> to_ticks f g (Suc (to_time f g n)) = n"
  using ticks_at [OF assms] ticks_after [of n "Suc (to_time f g n)"] to_ticks_Suc [of "to_time f g n"] assms
  by (auto split: if_splits)

end

end
