(* ===== verification/Host_Utils.thy ===== *)
theory Host_Utils
  imports Prelude
begin

text \<open>
  The integer helpers of \<open>host-utils.c\<close> and \<open>host-utils.h\<close>: the 64 by 64 to 128 bit
  multiplications used where the host has no such instruction, and the portable versions of
  the leading and trailing zero counts. A pair of 64 bit words stands for the two results
  written through \<open>plow\<close> and \<open>phigh\<close>.
\<close>
definition add128 :: "u64 \<Rightarrow> u64 \<Rightarrow> u64 \<Rightarrow> u64 \<Rightarrow> u64 \<times> u64" where
  "add128 plow phigh a b =
     (let plow = plow + a;
          phigh = (if plow < a then phigh + 1 else phigh)
      in (plow, phigh + b))"

definition neg128 :: "u64 \<Rightarrow> u64 \<Rightarrow> u64 \<times> u64" where
  "neg128 plow phigh = add128 (NOT plow) (NOT phigh) 1 0"

definition mul64 :: "u64 \<Rightarrow> u64 \<Rightarrow> u64 \<times> u64" where
  "mul64 a b =
     (let a0 = (ucast a :: u32); a1 = (ucast (drop_bit 32 a) :: u32);
          b0 = (ucast b :: u32); b1 = (ucast (drop_bit 32 b) :: u32);
          v = (ucast a0 :: u64) * ucast b0;
          (plow, phigh) = (v, 0);
          v = (ucast a0 :: u64) * ucast b1;
          (plow, phigh) = add128 plow phigh (push_bit 32 v) (drop_bit 32 v);
          v = (ucast a1 :: u64) * ucast b0;
          (plow, phigh) = add128 plow phigh (push_bit 32 v) (drop_bit 32 v);
          v = (ucast a1 :: u64) * ucast b1
      in (plow, phigh + v))"

definition mulu64 :: "u64 \<Rightarrow> u64 \<Rightarrow> u64 \<times> u64" where
  "mulu64 a b = mul64 a b"

definition muls64 :: "u64 \<Rightarrow> u64 \<Rightarrow> u64 \<times> u64" where
  "muls64 a b =
     (let sa = a <s 0; a = (if sa then - a else a);
          sb = b <s 0; b = (if sb then - b else b);
          (plow, phigh) = mul64 a b
      in if sa \<noteq> sb then neg128 plow phigh else (plow, phigh))"

definition val128 :: "u64 \<times> u64 \<Rightarrow> int" where
  "val128 p = uint (fst p) + 2 ^ 64 * uint (snd p)"

lemma uint_u64_less: "uint (w :: u64) < 2 ^ 64"
  using uint_lt2p [of w] by simp

lemma add128_value:
  "val128 (add128 l h a b) mod 2 ^ 128 = (val128 (l, h) + val128 (a, b)) mod 2 ^ 128"
proof -
  have la: "0 \<le> uint l" "uint l < 2 ^ 64" "0 \<le> uint a" "uint a < 2 ^ 64"
    by (rule uint_ge_0 uint_u64_less)+
  define c :: int where "c = (if uint l + uint a < 2 ^ 64 then 0 else 1)"
  have lo: "uint (l + a) = uint l + uint a - 2 ^ 64 * c"
    using uint_plus_if' [of l a] by (simp add: c_def)
  have carry: "l + a < a \<longleftrightarrow> c = 1"
    using lo la by (auto simp: word_less_def c_def split: if_splits)
  have "snd (add128 l h a b) = h + word_of_int c + b"
    using carry by (auto simp: add128_def Let_def c_def split: if_splits)
  then have "uint (snd (add128 l h a b)) = (uint h + c + uint b) mod 2 ^ 64"
    by (simp add: c_def uint_word_ariths mod_simps uint_word_of_int)
  moreover have "fst (add128 l h a b) = l + a" by (simp add: add128_def Let_def)
  moreover have "(2 ^ 64 * ((uint h + c + uint b) mod 2 ^ 64)) = (2 ^ 64 * (uint h + c + uint b)) mod (2 ^ 128 :: int)"
    by (simp add: mult_mod_right)
  ultimately have "val128 (add128 l h a b) mod 2 ^ 128
      = (uint (l + a) + (2 ^ 64 * (uint h + c + uint b)) mod 2 ^ 128) mod 2 ^ 128"
    by (simp add: val128_def)
  also have "\<dots> = (uint (l + a) + 2 ^ 64 * (uint h + c + uint b)) mod 2 ^ 128"
    by (rule mod_add_right_eq)
  also have "uint (l + a) + 2 ^ 64 * (uint h + c + uint b) = val128 (l, h) + val128 (a, b)"
    using lo by (simp add: val128_def algebra_simps)
  finally show ?thesis .
qed

lemma val128_bounds: "0 \<le> val128 p" "val128 p < 2 ^ 128"
  using uint_u64_less [of "fst p"] uint_u64_less [of "snd p"] by (simp_all add: val128_def)

lemma val128_mod: "val128 p mod 2 ^ 128 = val128 p"
  using val128_bounds [of p] by (rule mod_pos_pos_trivial)

lemma neg128_value: "val128 (neg128 l h) = (- val128 (l, h)) mod 2 ^ 128"
proof -
  have n: "uint (NOT w) = 2 ^ 64 - 1 - uint w" for w :: u64
  proof -
    have "uint (NOT w) = (- uint w - 1) mod 2 ^ 64"
      by (simp add: unsigned_not_eq take_bit_eq_mod not_int_def)
    also have "\<dots> = (2 ^ 64 - 1 - uint w) mod 2 ^ 64"
      using mod_add_self2 [of "- uint w - 1" "2 ^ 64"] by (simp add: algebra_simps)
    also have "\<dots> = 2 ^ 64 - 1 - uint w"
      using uint_u64_less [of w] uint_ge_0 [of w] by (intro mod_pos_pos_trivial) linarith+
    finally show ?thesis .
  qed
  have "val128 (neg128 l h) = (val128 (NOT l, NOT h) + val128 (1, 0)) mod 2 ^ 128"
    using add128_value [of "NOT l" "NOT h" 1 0] val128_mod [of "neg128 l h"]
    by (simp only: neg128_def)
  also have "val128 (NOT l, NOT h) + val128 (1, 0) = - val128 (l, h) + 2 ^ 128"
    by (simp add: val128_def n algebra_simps)
  finally show ?thesis by simp
qed

lemma uint_u32_u64: "uint (ucast (w :: u32) :: u64) = uint w"
  by (simp add: unsigned_ucast_eq take_bit_int_eq_self uint_lt2p [THEN less_le_trans])

lemma uint_drop_32: "uint (drop_bit 32 (v :: u64)) = uint v div 2 ^ 32"
  by (simp add: drop_bit_eq_div uint_div)

lemma limb_product:
  fixes a b :: u32
  shows "uint ((ucast a :: u64) * ucast b) = uint a * uint b"
proof -
  have "uint a < 2 ^ 32" "uint b < 2 ^ 32" using uint_lt2p [of a] uint_lt2p [of b] by simp_all
  then have "uint a * uint b < 2 ^ 32 * 2 ^ 32" by (intro mult_strict_mono) simp_all
  then show ?thesis
    by (simp add: uint_word_ariths uint_u32_u64)
qed

lemma shifted_limbs:
  "val128 (push_bit 32 v, drop_bit 32 v) = 2 ^ 32 * uint v"
proof -
  have "uint (push_bit 32 v) = (2 ^ 32 * uint v) mod 2 ^ 64"
    unfolding unsigned_push_bit_eq by (simp add: take_bit_eq_mod push_bit_eq_mult ac_simps)
  moreover have "uint (drop_bit 32 v) = (2 ^ 32 * uint v) div 2 ^ 64"
    unfolding uint_drop_32 by simp
  moreover have "x mod m + m * (x div m) = x" for x m :: int by simp
  ultimately show ?thesis by (simp only: val128_def fst_conv snd_conv)
qed

lemma u64_halves:
  "uint (a :: u64) = uint (ucast a :: u32) + 2 ^ 32 * uint (ucast (drop_bit 32 a) :: u32)"
proof -
  have "uint (ucast a :: u32) = uint a mod 2 ^ 32"
    by (simp add: unsigned_ucast_eq take_bit_eq_mod)
  moreover have "uint (ucast (drop_bit 32 a) :: u32) = uint a div 2 ^ 32"
  proof -
    have "uint a div 2 ^ 32 < 2 ^ 32" using uint_u64_less [of a] by simp
    moreover have "0 \<le> uint a div 2 ^ 32" by (simp add: pos_imp_zdiv_nonneg_iff)
    ultimately show ?thesis unfolding unsigned_ucast_eq uint_drop_32 by (simp add: take_bit_eq_mod)
  qed
  ultimately show ?thesis by simp
qed

lemma mul64_value: "val128 (mul64 a b) = uint a * uint b"
proof -
  define a0 a1 b0 b1 :: u32
    where "a0 = ucast a" and "a1 = ucast (drop_bit 32 a)"
      and "b0 = ucast b" and "b1 = ucast (drop_bit 32 b)"
  define add where "add = (\<lambda>p (q :: u64 \<times> u64). add128 (fst p) (snd p) (fst q) (snd q))"
  define sh where "sh = (\<lambda>v :: u64. (push_bit 32 v, drop_bit 32 v))"
  define p1 where "p1 = add (ucast a0 * ucast b0, 0) (sh (ucast a0 * ucast b1))"
  define p2 where "p2 = add p1 (sh (ucast a1 * ucast b0))"
  have m: "mul64 a b = add p2 (0, ucast a1 * ucast b1)"
    unfolding mul64_def Let_def
    by (simp add: p2_def p1_def add_def sh_def a0_def a1_def b0_def b1_def split: prod.split)
       (simp add: add128_def)
  have v: "val128 (add p q) = (val128 p + val128 q) mod 2 ^ 128" for p q
    using add128_value [of "fst p" "snd p" "fst q" "snd q"] val128_mod [of "add p q"]
    by (simp only: add_def prod.collapse)
  have sh: "val128 (sh v) = 2 ^ 32 * uint v" for v by (simp only: sh_def shifted_limbs)
  have hi: "val128 (0, w) = 2 ^ 64 * uint w" and lo: "val128 (w, 0) = uint w" for w
    by (simp_all add: val128_def)
  have "val128 (mul64 a b) = (uint a0 * uint b0 + 2 ^ 32 * (uint a0 * uint b1)
      + 2 ^ 32 * (uint a1 * uint b0) + 2 ^ 64 * (uint a1 * uint b1)) mod 2 ^ 128"
    by (simp only: m p2_def p1_def v sh hi lo limb_product mod_simps)
  also have "\<dots> = (uint a * uint b) mod 2 ^ 128"
    unfolding u64_halves [of a] u64_halves [of b] a0_def a1_def b0_def b1_def
    by (simp add: algebra_simps)
  also have "\<dots> = uint a * uint b"
  proof (rule mod_pos_pos_trivial)
    have "uint a * uint b < 2 ^ 64 * 2 ^ 64"
      by (intro mult_strict_mono uint_u64_less) simp_all
    then show "uint a * uint b < 2 ^ 128" by simp
  qed simp
  finally show ?thesis .
qed

lemma uint_magnitude: "uint (if w <s 0 then - w else w) = \<bar>sint (w :: u64)\<bar>"
proof -
  have s: "sint w = uint w - (if sint w < 0 then 2 ^ 64 else 0)"
  proof -
    have "uint w = sint w mod 2 ^ 64" using uint_sint [of w] by (simp add: take_bit_eq_mod)
    moreover have "- (2 ^ 63) \<le> sint w" "sint w < 2 ^ 63"
      using sint_ge [of w] sint_lt [of w] by simp_all
    ultimately show ?thesis
      using mod_add_self2 [of "sint w" "2 ^ 64"] mod_pos_pos_trivial [of "sint w + 2 ^ 64" "2 ^ 64"]
        mod_pos_pos_trivial [of "sint w" "2 ^ 64"] by (auto split: if_splits)
  qed
  show ?thesis
  proof (cases "sint w < 0")
    case True
    then have "uint (- w) = 2 ^ 64 - uint w"
      using s uint_word_ariths(4) [of w] uint_u64_less [of w] mod_add_self2 [of "- uint w" "2 ^ 64"]
        mod_pos_pos_trivial [of "2 ^ 64 - uint w" "2 ^ 64"] sint_ge [of w]
      by simp
    then show ?thesis using True s by (simp add: word_sless_alt)
  next
    case False
    then show ?thesis using s by (simp add: word_sless_alt)
  qed
qed

lemma muls64_value: "val128 (muls64 a b) = (sint a * sint b) mod 2 ^ 128"
proof -
  have neg: "val128 (neg128 (fst p) (snd p)) = (- val128 p) mod 2 ^ 128" for p
    using neg128_value [of "fst p" "snd p"] by simp
  let ?a = "if a <s 0 then - a else a" and ?b = "if b <s 0 then - b else b"
  have "val128 (muls64 a b) =
      (if (a <s 0) \<noteq> (b <s 0) then - val128 (mul64 ?a ?b) else val128 (mul64 ?a ?b)) mod 2 ^ 128"
  proof (cases "(a <s 0) = (b <s 0)")
    case True
    then show ?thesis using val128_mod [of "mul64 ?a ?b"]
      by (simp add: muls64_def Let_def case_prod_beta split: if_splits)
  next
    case False
    then show ?thesis by (simp add: muls64_def Let_def case_prod_beta neg)
  qed
  also have "\<dots> = (if (a <s 0) \<noteq> (b <s 0) then - (\<bar>sint a\<bar> * \<bar>sint b\<bar>)
      else \<bar>sint a\<bar> * \<bar>sint b\<bar>) mod 2 ^ 128"
    by (simp only: mul64_value uint_magnitude)
  also have "\<dots> = (sint a * sint b) mod 2 ^ 128"
    by (auto simp: word_sless_alt)
  finally show ?thesis .
qed
section \<open>Leading and trailing zeros\<close>

definition clz32 :: "u32 \<Rightarrow> int" where
  "clz32 val =
     (let cnt = 0;
          (cnt, val) = (if val AND 0xFFFF0000 = 0 then (cnt + 16, push_bit 16 val) else (cnt, val));
          (cnt, val) = (if val AND 0xFF000000 = 0 then (cnt + 8, push_bit 8 val) else (cnt, val));
          (cnt, val) = (if val AND 0xF0000000 = 0 then (cnt + 4, push_bit 4 val) else (cnt, val));
          (cnt, val) = (if val AND 0xC0000000 = 0 then (cnt + 2, push_bit 2 val) else (cnt, val));
          (cnt, val) = (if val AND 0x80000000 = 0 then (cnt + 1, push_bit 1 val) else (cnt, val));
          cnt = (if val AND 0x80000000 = 0 then cnt + 1 else cnt)
      in cnt)"

definition clz64 :: "u64 \<Rightarrow> int" where
  "clz64 val =
     (let cnt = 0;
          (cnt, val) = (if drop_bit 32 val = 0 then (cnt + 32, val) else (cnt, drop_bit 32 val))
      in cnt + clz32 (ucast val))"

definition clo32 :: "u32 \<Rightarrow> int" where
  "clo32 val = clz32 (NOT val)"

definition clo64 :: "u64 \<Rightarrow> int" where
  "clo64 val = clz64 (NOT val)"

definition ctz32 :: "u32 \<Rightarrow> int" where
  "ctz32 val =
     (let cnt = 0;
          (cnt, val) = (if val AND 0x0000FFFF = 0 then (cnt + 16, drop_bit 16 val) else (cnt, val));
          (cnt, val) = (if val AND 0x000000FF = 0 then (cnt + 8, drop_bit 8 val) else (cnt, val));
          (cnt, val) = (if val AND 0x0000000F = 0 then (cnt + 4, drop_bit 4 val) else (cnt, val));
          (cnt, val) = (if val AND 0x00000003 = 0 then (cnt + 2, drop_bit 2 val) else (cnt, val));
          (cnt, val) = (if val AND 0x00000001 = 0 then (cnt + 1, drop_bit 1 val) else (cnt, val));
          cnt = (if val AND 0x00000001 = 0 then cnt + 1 else cnt)
      in cnt)"

definition ctz64 :: "u64 \<Rightarrow> int" where
  "ctz64 val =
     (let cnt = 0;
          (cnt, val) = (if (ucast val :: u32) = 0 then (cnt + 32, drop_bit 32 val) else (cnt, val))
      in cnt + ctz32 (ucast val))"

definition cto32 :: "u32 \<Rightarrow> int" where
  "cto32 val = ctz32 (NOT val)"

definition cto64 :: "u64 \<Rightarrow> int" where
  "cto64 val = ctz64 (NOT val)"

text \<open>
  What the two searches compute, without reference to the search: the number of zero bits
  above the most, and below the least significant one bit.
\<close>

definition leading_zeros :: "'a::len word \<Rightarrow> nat" where
  "leading_zeros w = length (takeWhile (\<lambda>i. \<not> bit w i) (rev [0..<LENGTH('a)]))"

definition trailing_zeros :: "'a::len word \<Rightarrow> nat" where
  "trailing_zeros w = length (takeWhile (\<lambda>i. \<not> bit w i) [0..<LENGTH('a)])"

lemma takeWhile_length_eq:
  assumes "n < length xs" "\<not> P (xs ! n)" "\<And>i. i < n \<Longrightarrow> P (xs ! i)"
  shows "length (takeWhile P xs) = n"
  using assms
proof (induction xs arbitrary: n)
  case (Cons x xs)
  show ?case
  proof (cases n)
    case 0
    then show ?thesis using Cons.prems by simp
  next
    case (Suc m)
    have "length (takeWhile P xs) = m"
    proof (rule Cons.IH)
      show "P (xs ! i)" if "i < m" for i using Cons.prems(3) [of "Suc i"] Suc that by simp
    qed (use Cons.prems Suc in simp_all)
    then show ?thesis using Cons.prems(3) [of 0] Suc by simp
  qed
qed simp

lemma leading_zeros_eq:
  assumes "n < LENGTH('a)" "bit (w :: 'a::len word) (LENGTH('a) - 1 - n)"
    and "\<And>i. LENGTH('a) - 1 - n < i \<Longrightarrow> \<not> bit w i"
  shows "leading_zeros w = n"
  unfolding leading_zeros_def
  by (rule takeWhile_length_eq) (use assms in \<open>auto simp: rev_nth\<close>)

lemma trailing_zeros_eq:
  assumes "bit (w :: 'a::len word) n" "\<And>i. i < n \<Longrightarrow> \<not> bit w i"
  shows "trailing_zeros w = n"
  unfolding trailing_zeros_def
  by (rule takeWhile_length_eq) (use assms bit_imp_le_length [of w n] in auto)

lemma zeros_of_0 [simp]: "leading_zeros (0 :: 'a::len word) = LENGTH('a)"
  "trailing_zeros (0 :: 'a::len word) = LENGTH('a)"
  by (simp_all add: leading_zeros_def trailing_zeros_def takeWhile_eq_all_conv [THEN iffD2])

text \<open>
  One step of either search: where the tested bits are all clear the word is shifted past
  them, and the count of zeros is what the step adds to the count of the shifted word.
\<close>

lemma bit_push: "bit (push_bit k (w :: 'a::len word)) i \<longleftrightarrow> k \<le> i \<and> i < LENGTH('a) \<and> bit w (i - k)"
  by (auto simp: bit_simps)

lemma leading_zeros_iff:
  assumes "(w :: 'a::len word) \<noteq> 0"
  shows "leading_zeros w < LENGTH('a)" "bit w (LENGTH('a) - 1 - leading_zeros w)"
    "k \<le> LENGTH('a) \<Longrightarrow> k \<le> leading_zeros w \<longleftrightarrow> (\<forall>i\<ge>LENGTH('a) - k. \<not> bit w i)"
proof -
  define m where "m = Max {i. bit w i}"
  have fin: "finite {i. bit w i}"
    by (rule finite_subset [of _ "{..<LENGTH('a)}"]) (auto dest: bit_imp_le_length)
  have ne: "{i. bit w i} \<noteq> {}" using assms by (auto simp: bit_eq_iff)
  have m: "bit w m" "m < LENGTH('a)"
    using Max_in [OF fin ne] by (auto simp: m_def dest: bit_imp_le_length)
  have hi: "i \<le> m" if "bit w i" for i using Max_ge [OF fin] that by (simp add: m_def)
  have "leading_zeros w = LENGTH('a) - 1 - m"
    by (rule leading_zeros_eq) (use m hi in \<open>auto simp: not_le [symmetric]\<close>)
  then have lz: "m + leading_zeros w + 1 = LENGTH('a)" using m by simp
  then show "leading_zeros w < LENGTH('a)" by simp
  have "LENGTH('a) - 1 - leading_zeros w = m" using lz by simp
  with m show "bit w (LENGTH('a) - 1 - leading_zeros w)" by simp
  show "k \<le> leading_zeros w \<longleftrightarrow> (\<forall>i\<ge>LENGTH('a) - k. \<not> bit w i)" if "k \<le> LENGTH('a)"
  proof
    assume k: "k \<le> leading_zeros w"
    show "\<forall>i\<ge>LENGTH('a) - k. \<not> bit w i"
    proof (intro allI impI notI)
      fix i assume "LENGTH('a) - k \<le> i" "bit w i"
      with hi [of i] lz k show False by linarith
    qed
  next
    assume "\<forall>i\<ge>LENGTH('a) - k. \<not> bit w i"
    then have "m < LENGTH('a) - k" using m by (meson not_le)
    then show "k \<le> leading_zeros w" using lz by linarith
  qed
qed

lemma trailing_zeros_iff:
  assumes "(w :: 'a::len word) \<noteq> 0"
  shows "trailing_zeros w < LENGTH('a)" "bit w (trailing_zeros w)"
    "k \<le> trailing_zeros w \<longleftrightarrow> (\<forall>i<k. \<not> bit w i)"
proof -
  define m where "m = (LEAST i. bit w i)"
  obtain i where "bit w i" using assms by (auto simp: bit_eq_iff)
  then have m: "bit w m" unfolding m_def by (rule LeastI)
  have lo: "\<not> bit w i" if "i < m" for i using that unfolding m_def by (rule not_less_Least)
  have tz: "trailing_zeros w = m" by (rule trailing_zeros_eq) (use m lo in auto)
  show "trailing_zeros w < LENGTH('a)" "bit w (trailing_zeros w)"
    using m tz bit_imp_le_length by auto
  show "k \<le> trailing_zeros w \<longleftrightarrow> (\<forall>i<k. \<not> bit w i)"
    using m lo tz by (metis leI order.strict_trans2)
qed

text \<open>Shifting past zeros takes them off the count.\<close>

lemma leading_zeros_push:
  assumes "(w :: 'a::len word) \<noteq> 0" "k \<le> leading_zeros w"
  shows "leading_zeros (push_bit k w) = leading_zeros w - k" "push_bit k w \<noteq> 0"
proof -
  let ?n = "leading_zeros w"
  note w = leading_zeros_iff [OF assms(1)]
  have b: "bit (push_bit k w) (LENGTH('a) - 1 - (?n - k))"
  proof -
    have i: "LENGTH('a) - 1 - (?n - k) = LENGTH('a) - 1 - ?n + k" using w(1) assms(2) by linarith
    have "LENGTH('a) - 1 - ?n + k < LENGTH('a)" using w(1) assms(2) by linarith
    then show ?thesis unfolding i using w(2) by (simp add: bit_push)
  qed
  have hi: "\<not> bit w i" if "LENGTH('a) - 1 - ?n < i" for i
    using w(3) [of ?n] w(1) that by simp
  show "leading_zeros (push_bit k w) = ?n - k"
    by (rule leading_zeros_eq) (use w b hi assms in \<open>auto simp: bit_push\<close>)
  show "push_bit k w \<noteq> 0" using b by (metis bit_0_eq bot_apply bot_bool_def)
qed

lemma trailing_zeros_drop:
  assumes "(w :: 'a::len word) \<noteq> 0" "k \<le> trailing_zeros w"
  shows "trailing_zeros (drop_bit k w) = trailing_zeros w - k" "drop_bit k w \<noteq> 0"
proof -
  let ?n = "trailing_zeros w"
  note w = trailing_zeros_iff [OF assms(1)]
  have b: "bit (drop_bit k w) (?n - k)" using w assms(2) by (simp add: bit_drop_bit_eq)
  show "trailing_zeros (drop_bit k w) = ?n - k"
    by (rule trailing_zeros_eq) (use w(3) [of ?n] b assms in \<open>auto simp: bit_drop_bit_eq\<close>)
  show "drop_bit k w \<noteq> 0" using b by (metis bit_0_eq bot_apply bot_bool_def)
qed

lemma and_high_eq_0:
  assumes "m = push_bit (32 - k) (mask k)" "k \<le> 32" "(w :: u32) \<noteq> 0"
  shows "w AND m = 0 \<longleftrightarrow> k \<le> leading_zeros w"
proof -
  have "bit (w AND m) i \<longleftrightarrow> 32 - k \<le> i \<and> bit w i" for i
    using assms bit_imp_le_length [of w i] by (auto simp: bit_simps)
  then have "w AND m = 0 \<longleftrightarrow> (\<forall>i\<ge>32 - k. \<not> bit w i)"
    by (metis bit_0_eq bit_eqI bot_apply bot_bool_def)
  then show ?thesis using leading_zeros_iff(3) [OF assms(3), of k] assms(2) by simp
qed

lemma and_low_eq_0:
  assumes "m = mask k" "(w :: u32) \<noteq> 0"
  shows "w AND m = 0 \<longleftrightarrow> k \<le> trailing_zeros w"
proof -
  have "bit (w AND m) i \<longleftrightarrow> i < k \<and> bit w i" for i
    using assms bit_imp_le_length [of w i] by (auto simp: bit_simps)
  then have "w AND m = 0 \<longleftrightarrow> (\<forall>i<k. \<not> bit w i)"
    by (metis bit_0_eq bit_eqI bot_apply bot_bool_def)
  then show ?thesis using trailing_zeros_iff(3) [OF assms(2), of k] by simp
qed

lemma high_masks:
  fixes w :: u32
  assumes "w \<noteq> 0"
  shows "w AND 0xFFFF0000 = 0 \<longleftrightarrow> 16 \<le> leading_zeros w"
    and "w AND 0xFF000000 = 0 \<longleftrightarrow> 8 \<le> leading_zeros w"
    and "w AND 0xF0000000 = 0 \<longleftrightarrow> 4 \<le> leading_zeros w"
    and "w AND 0xC0000000 = 0 \<longleftrightarrow> 2 \<le> leading_zeros w"
    and "w AND 0x80000000 = 0 \<longleftrightarrow> 1 \<le> leading_zeros w"
  by (rule and_high_eq_0; simp add: mask_eq_exp_minus_1 push_bit_eq_mult assms)+

lemma low_masks:
  fixes w :: u32
  assumes "w \<noteq> 0"
  shows "w AND 0x0000FFFF = 0 \<longleftrightarrow> 16 \<le> trailing_zeros w"
    and "w AND 0x000000FF = 0 \<longleftrightarrow> 8 \<le> trailing_zeros w"
    and "w AND 0x0000000F = 0 \<longleftrightarrow> 4 \<le> trailing_zeros w"
    and "w AND 0x00000003 = 0 \<longleftrightarrow> 2 \<le> trailing_zeros w"
    and "w AND 0x00000001 = 0 \<longleftrightarrow> 1 \<le> trailing_zeros w"
  by (rule and_low_eq_0; simp add: mask_eq_exp_minus_1 assms)+

text \<open>
  Halving the window: one step of the search, with a window of \<open>2 * k\<close> candidate counts
  before it and of \<open>k\<close> after it.
\<close>

lemma clz_step:
  assumes "(c', v') = (if v AND m = 0 then (c + int k, push_bit k v) else (c, v))"
    and "(v :: u32) \<noteq> 0" "leading_zeros v < 2 * k" "v AND m = 0 \<longleftrightarrow> k \<le> leading_zeros v"
  shows "v' \<noteq> 0" "leading_zeros v' < k" "c' + int (leading_zeros v') = c + int (leading_zeros v)"
  using assms leading_zeros_push [of v k] by (auto split: if_splits)

lemma clz32_leading_zeros: "clz32 val = int (leading_zeros val)"
proof (cases "val = 0")
  case True
  then show ?thesis by (simp add: clz32_def)
next
  case False
  obtain c1 v1 where 1: "(c1, v1) = (if val AND 0xFFFF0000 = 0 then (0 + 16, push_bit 16 val) else (0 :: int, val))"
    by (metis surj_pair)
  obtain c2 v2 where 2: "(c2, v2) = (if v1 AND 0xFF000000 = 0 then (c1 + 8, push_bit 8 v1) else (c1 :: int, v1))"
    by (metis surj_pair)
  obtain c3 v3 where 3: "(c3, v3) = (if v2 AND 0xF0000000 = 0 then (c2 + 4, push_bit 4 v2) else (c2 :: int, v2))"
    by (metis surj_pair)
  obtain c4 v4 where 4: "(c4, v4) = (if v3 AND 0xC0000000 = 0 then (c3 + 2, push_bit 2 v3) else (c3 :: int, v3))"
    by (metis surj_pair)
  obtain c5 v5 where 5: "(c5, v5) = (if v4 AND 0x80000000 = 0 then (c4 + 1, push_bit 1 v4) else (c4 :: int, v4))"
    by (metis surj_pair)
  have e: "clz32 val = (if v5 AND 0x80000000 = 0 then c5 + 1 else c5)"
    unfolding clz32_def Let_def by (simp only: 1 [symmetric] 2 [symmetric] 3 [symmetric] 4 [symmetric] 5 [symmetric] case_prod_conv)
  note s1 = clz_step [where k = 16, simplified of_nat_numeral of_nat_1, OF 1 False _ high_masks(1) [OF False]]
  note s2 = clz_step [where k = 8, simplified of_nat_numeral of_nat_1, OF 2 s1(1) _ high_masks(2) [OF s1(1)]]
  note s3 = clz_step [where k = 4, simplified of_nat_numeral of_nat_1, OF 3 s2(1) _ high_masks(3) [OF s2(1)]]
  note s4 = clz_step [where k = 2, simplified of_nat_numeral of_nat_1, OF 4 s3(1) _ high_masks(4) [OF s3(1)]]
  note s5 = clz_step [where k = 1, simplified of_nat_numeral of_nat_1, OF 5 s4(1) _ high_masks(5) [OF s4(1)]]
  show ?thesis using e leading_zeros_iff(1) [OF False] s1 s2 s3 s4 s5 high_masks(5) [OF s5(1)] by simp
qed

lemma ctz_step:
  assumes "(c', v') = (if v AND m = 0 then (c + int k, drop_bit k v) else (c, v))"
    and "(v :: u32) \<noteq> 0" "trailing_zeros v < 2 * k" "v AND m = 0 \<longleftrightarrow> k \<le> trailing_zeros v"
  shows "v' \<noteq> 0" "trailing_zeros v' < k" "c' + int (trailing_zeros v') = c + int (trailing_zeros v)"
  using assms trailing_zeros_drop [of v k] by (auto split: if_splits)

lemma ctz32_trailing_zeros: "ctz32 val = int (trailing_zeros val)"
proof (cases "val = 0")
  case True
  then show ?thesis by (simp add: ctz32_def)
next
  case False
  obtain c1 v1 where 1: "(c1, v1) = (if val AND 0x0000FFFF = 0 then (0 + 16, drop_bit 16 val) else (0 :: int, val))"
    by (metis surj_pair)
  obtain c2 v2 where 2: "(c2, v2) = (if v1 AND 0x000000FF = 0 then (c1 + 8, drop_bit 8 v1) else (c1 :: int, v1))"
    by (metis surj_pair)
  obtain c3 v3 where 3: "(c3, v3) = (if v2 AND 0x0000000F = 0 then (c2 + 4, drop_bit 4 v2) else (c2 :: int, v2))"
    by (metis surj_pair)
  obtain c4 v4 where 4: "(c4, v4) = (if v3 AND 0x00000003 = 0 then (c3 + 2, drop_bit 2 v3) else (c3 :: int, v3))"
    by (metis surj_pair)
  obtain c5 v5 where 5: "(c5, v5) = (if v4 AND 0x00000001 = 0 then (c4 + 1, drop_bit 1 v4) else (c4 :: int, v4))"
    by (metis surj_pair)
  have e: "ctz32 val = (if v5 AND 0x00000001 = 0 then c5 + 1 else c5)"
    unfolding ctz32_def Let_def by (simp only: 1 [symmetric] 2 [symmetric] 3 [symmetric] 4 [symmetric] 5 [symmetric] case_prod_conv)
  note s1 = ctz_step [where k = 16, simplified of_nat_numeral of_nat_1, OF 1 False _ low_masks(1) [OF False]]
  note s2 = ctz_step [where k = 8, simplified of_nat_numeral of_nat_1, OF 2 s1(1) _ low_masks(2) [OF s1(1)]]
  note s3 = ctz_step [where k = 4, simplified of_nat_numeral of_nat_1, OF 3 s2(1) _ low_masks(3) [OF s2(1)]]
  note s4 = ctz_step [where k = 2, simplified of_nat_numeral of_nat_1, OF 4 s3(1) _ low_masks(4) [OF s3(1)]]
  note s5 = ctz_step [where k = 1, simplified of_nat_numeral of_nat_1, OF 5 s4(1) _ low_masks(5) [OF s4(1)]]
  show ?thesis using e trailing_zeros_iff(1) [OF False] s1 s2 s3 s4 s5 low_masks(5) [OF s5(1)] by simp
qed

lemma word_eq_0_iff_bits: "(w :: 'a::len word) = 0 \<longleftrightarrow> (\<forall>i. \<not> bit w i)"
  by (auto simp: bit_eq_iff dest: bit_imp_le_length)

lemma bit_low_half: "bit (ucast (v :: u64) :: u32) i \<longleftrightarrow> i < 32 \<and> bit v i"
  by (auto simp: bit_simps)

lemma bit_high_half: "bit (ucast (drop_bit 32 (v :: u64)) :: u32) i \<longleftrightarrow> bit v (i + 32)"
  using bit_imp_le_length [of v "i + 32"] by (auto simp: bit_ucast_iff bit_drop_bit_eq ac_simps)

lemma drop_32_eq_0: "drop_bit 32 (v :: u64) = 0 \<longleftrightarrow> (\<forall>i\<ge>32. \<not> bit v i)"
  unfolding word_eq_0_iff_bits bit_drop_bit_eq comp_def by (metis le_add1 le_add_diff_inverse)

lemma clz64_leading_zeros: "clz64 val = int (leading_zeros val)"
proof (cases "drop_bit 32 val = 0")
  case True
  let ?l = "ucast val :: u32"
  have b: "bit ?l i \<longleftrightarrow> bit val i" for i using True bit_low_half [of val i] by (auto simp: drop_32_eq_0)
  show ?thesis
  proof (cases "?l = 0")
    case True
    then have "val = 0" using b by (simp only: word_eq_0_iff_bits) simp
    then show ?thesis by (simp add: clz64_def clz32_def)
  next
    case False
    note l = leading_zeros_iff [OF False]
    have "leading_zeros val = 32 + leading_zeros ?l"
    proof (rule leading_zeros_eq)
      show "\<not> bit val i" if "LENGTH(64) - 1 - (32 + leading_zeros ?l) < i" for i
        using l(1) l(3) [of "leading_zeros ?l"] that by (auto simp: b)
    qed (use l(1,2) b in auto)
    then show ?thesis using True by (simp add: clz64_def clz32_leading_zeros)
  qed
next
  case False
  let ?h = "ucast (drop_bit 32 val) :: u32"
  have "\<exists>i. bit val (i + 32)" using False unfolding drop_32_eq_0 by (metis le_add_diff_inverse2)
  then have nz: "?h \<noteq> 0" unfolding word_eq_0_iff_bits bit_high_half by simp
  note h = leading_zeros_iff [OF nz]
  have "leading_zeros val = leading_zeros ?h"
  proof (rule leading_zeros_eq)
    show "\<not> bit val i" if "LENGTH(64) - 1 - leading_zeros ?h < i" for i
      using h(1) h(3) [of "leading_zeros ?h"] bit_high_half [of val "i - 32"] that by auto
    show "bit val (LENGTH(64) - 1 - leading_zeros ?h)"
      using h(1,2) by (simp add: bit_high_half)
  qed (use h(1) in auto)
  then show ?thesis using False by (simp add: clz64_def clz32_leading_zeros)
qed

lemma ctz64_trailing_zeros: "ctz64 val = int (trailing_zeros val)"
proof (cases "(ucast val :: u32) = 0")
  case True
  let ?h = "ucast (drop_bit 32 val) :: u32"
  have lo: "\<not> bit val i" if "i < 32" for i
    using True that by (simp only: word_eq_0_iff_bits bit_low_half) simp
  show ?thesis
  proof (cases "?h = 0")
    case True
    then have "\<not> bit val (i + 32)" for i by (simp only: word_eq_0_iff_bits bit_high_half) simp
    then have "\<not> bit val i" for i using lo [of i] by (metis le_add_diff_inverse2 not_less)
    then have "val = 0" by (simp add: word_eq_0_iff_bits)
    then show ?thesis by (simp add: ctz64_def ctz32_def)
  next
    case False
    note h = trailing_zeros_iff [OF False]
    have "trailing_zeros val = trailing_zeros ?h + 32"
    proof (rule trailing_zeros_eq)
      show "bit val (trailing_zeros ?h + 32)" using h(2) by (simp only: bit_high_half)
      show "\<not> bit val i" if "i < trailing_zeros ?h + 32" for i
        using that lo [of i] h(3) [of "trailing_zeros ?h"] bit_high_half [of val "i - 32"]
        by (cases "i < 32") auto
    qed
    then show ?thesis using True by (simp add: ctz64_def ctz32_trailing_zeros)
  qed
next
  case False
  let ?l = "ucast val :: u32"
  note l = trailing_zeros_iff [OF False]
  have "trailing_zeros val = trailing_zeros ?l"
  proof (rule trailing_zeros_eq)
    show "bit val (trailing_zeros ?l)" using l(2) by (simp only: bit_low_half)
    show "\<not> bit val i" if "i < trailing_zeros ?l" for i
      using that l(1) l(3) [of "trailing_zeros ?l"] by (simp add: bit_low_half)
  qed
  then show ?thesis using False by (simp add: ctz64_def ctz32_trailing_zeros)
qed

text \<open>
  C29: the 128 bit products put together from 32 bit limbs are exact: the unsigned product as it
  stands, the signed one as a two's complement number, for all operands (the most negative one
  included, whose negation wraps).
\<close>

theorem host_multiplications_exact:
  "val128 (mulu64 a b) = uint a * uint b \<and> val128 (muls64 a b) = (sint a * sint b) mod 2 ^ 128"
  by (simp only: mulu64_def mul64_value muls64_value)

text \<open>
  the four bit searches compute the number of zeros above the most and below the least
  significant one bit; for zero, the width of the operand.
\<close>

theorem bit_scans_match_reference:
  "clz32 v = int (leading_zeros v) \<and> clz64 w = int (leading_zeros w)
    \<and> ctz32 v = int (trailing_zeros v) \<and> ctz64 w = int (trailing_zeros w)"
  by (simp only: clz32_leading_zeros clz64_leading_zeros ctz32_trailing_zeros ctz64_trailing_zeros)

end
