(* ===== verification/Irq.thy ===== *)
theory Irq
  imports Prelude
begin

text \<open>
  Interrupt lines (\<open>hw/irq.c\<close>). A \<open>qemu_irq\<close> is a pointer to a handler together with
  the line number the handler is called with; the NULL pointer is an unconnected line.
  What the handler changes is the world \<open>'w\<close>, which the model passes explicitly; the
  closed-over \<open>opaque\<close> pointer is part of the handler. Devices report the levels they
  drive on a line as the list of calls in the order they make them, and \<open>drive\<close> delivers
  such a list.
\<close>

section \<open>Definitions\<close>

record 'w irq_state =
  handler :: "nat \<Rightarrow> int \<Rightarrow> 'w \<Rightarrow> 'w"
  irq_n :: nat

type_synonym 'w qemu_irq = "'w irq_state option"

definition qemu_set_irq :: "'w qemu_irq \<Rightarrow> int \<Rightarrow> 'w \<Rightarrow> 'w" where
  "qemu_set_irq irq level w =
     (case irq of None \<Rightarrow> w | Some p \<Rightarrow> handler p (irq_n p) level w)"

definition qemu_irq_raise :: "'w qemu_irq \<Rightarrow> 'w \<Rightarrow> 'w" where
  "qemu_irq_raise irq = qemu_set_irq irq 1"

definition qemu_irq_lower :: "'w qemu_irq \<Rightarrow> 'w \<Rightarrow> 'w" where
  "qemu_irq_lower irq = qemu_set_irq irq 0"

definition qemu_irq_pulse :: "'w qemu_irq \<Rightarrow> 'w \<Rightarrow> 'w" where
  "qemu_irq_pulse irq w = qemu_set_irq irq 0 (qemu_set_irq irq 1 w)"

definition qemu_allocate_irqs :: "(nat \<Rightarrow> int \<Rightarrow> 'w \<Rightarrow> 'w) \<Rightarrow> nat \<Rightarrow> 'w qemu_irq list" where
  "qemu_allocate_irqs h n = map (\<lambda>i. Some \<lparr>handler = h, irq_n = i\<rparr>) [0..<n]"

definition qemu_notirq :: "'w irq_state \<Rightarrow> nat \<Rightarrow> int \<Rightarrow> 'w \<Rightarrow> 'w" where
  "qemu_notirq irq line level w = handler irq (irq_n irq) (c_bool (level = 0)) w"

text \<open>
  \<open>qemu_irq_invert\<close> raises the given line at once and returns the inverted one. The
  source does not test for NULL before the inverter dereferences its line.
\<close>

definition qemu_irq_invert :: "'w irq_state \<Rightarrow> 'w \<Rightarrow> 'w qemu_irq \<times> 'w" where
  "qemu_irq_invert irq w =
     (hd (qemu_allocate_irqs (qemu_notirq irq) 1), qemu_irq_raise (Some irq) w)"

definition qemu_splitirq :: "'w irq_state \<times> 'w irq_state \<Rightarrow> nat \<Rightarrow> int \<Rightarrow> 'w \<Rightarrow> 'w" where
  "qemu_splitirq irqs line level w =
     (let w1 = handler (fst irqs) (irq_n (fst irqs)) level w
      in handler (snd irqs) (irq_n (snd irqs)) level w1)"

definition qemu_irq_split :: "'w irq_state \<Rightarrow> 'w irq_state \<Rightarrow> 'w qemu_irq" where
  "qemu_irq_split irq1 irq2 = hd (qemu_allocate_irqs (qemu_splitirq (irq1, irq2)) 1)"

text \<open>Delivery of the calls a device made on one line.\<close>

definition drive :: "'w qemu_irq \<Rightarrow> int list \<Rightarrow> 'w \<Rightarrow> 'w" where
  "drive irq levels = fold (qemu_set_irq irq) levels"

section \<open>Properties\<close>

lemma drive_simps [simp]:
  "drive irq [] w = w"
  "drive irq (l # ls) w = drive irq ls (qemu_set_irq irq l w)"
  "drive irq (ls @ ms) w = drive irq ms (drive irq ls w)"
  by (simp_all add: drive_def)

lemma allocate_irqs_call:
  "i < n \<Longrightarrow> qemu_set_irq (qemu_allocate_irqs h n ! i) level w = h i level w"
  by (simp add: qemu_allocate_irqs_def qemu_set_irq_def)

lemma irq_invert_call:
  "qemu_set_irq (fst (qemu_irq_invert irq w)) level v
   = qemu_set_irq (Some irq) (c_bool (level = 0)) v"
  by (simp add: qemu_irq_invert_def qemu_allocate_irqs_def qemu_set_irq_def qemu_notirq_def)

lemma irq_split_call:
  "qemu_set_irq (qemu_irq_split irq1 irq2) level w
   = qemu_set_irq (Some irq2) level (qemu_set_irq (Some irq1) level w)"
  by (simp add: qemu_irq_split_def qemu_allocate_irqs_def qemu_set_irq_def qemu_splitirq_def)

lemma irq_unconnected: "qemu_set_irq None level w = w"
  by (simp add: qemu_set_irq_def)

end
