(* ===== verification/I8259.thy ===== *)
theory I8259
  imports Prelude
begin

text \<open>
  The pair of 8259 interrupt controllers (\<open>hw/i8259.c\<close>). \<open>pic_state\<close> is
  \<open>struct PicState\<close> and \<open>pic_state2\<close> is \<open>struct PicState2\<close>, whose array
  \<open>pics[2]\<close> is the two fields \<open>pic0\<close> (master) and \<open>pic1\<close> (slave) read by \<open>pics\<close>.
  The calls on \<open>parent_irq\<close>, the line to the CPU, are the list of levels an operation
  returns beside the new state. An 8259 number is the index \<open>i\<close> into \<open>pics\<close>.
\<close>

section \<open>State\<close>

record pic_state =
  last_irr :: u8
  irr :: u8
  imr :: u8
  isr :: u8
  priority_add :: u8
  irq_base :: u8
  read_reg_select :: u8
  poll :: u8
  special_mask :: u8
  init_state :: u8
  auto_eoi :: u8
  rotate_on_auto_eoi :: u8
  special_fully_nested_mode :: u8
  init4 :: u8
  single_mode :: u8
  elcr :: u8
  elcr_mask :: u8

record pic_state2 =
  pic0 :: pic_state
  pic1 :: pic_state

definition pics :: "pic_state2 \<Rightarrow> nat \<Rightarrow> pic_state" where
  "pics s i = (if i = 0 then pic0 s else pic1 s)"

definition upd_pics :: "nat \<Rightarrow> (pic_state \<Rightarrow> pic_state) \<Rightarrow> pic_state2 \<Rightarrow> pic_state2" where
  "upd_pics i f s = (if i = 0 then s\<lparr>pic0 := f (pic0 s)\<rparr> else s\<lparr>pic1 := f (pic1 s)\<rparr>)"

text \<open>\<open>hw_error\<close> prints a message and aborts the emulator.\<close>

datatype pic_error = HwError string

section \<open>Request latch and priority\<close>

definition pic_set_irq1 :: "pic_state \<Rightarrow> nat \<Rightarrow> int \<Rightarrow> pic_state" where
  "pic_set_irq1 s irq level =
     (let mask = (shl1 irq :: u8)
      in if elcr s AND mask \<noteq> 0 then
           (if level \<noteq> 0 then s\<lparr>irr := irr s OR mask, last_irr := last_irr s OR mask\<rparr>
            else s\<lparr>irr := irr s AND NOT mask, last_irr := last_irr s AND NOT mask\<rparr>)
         else
           (if level \<noteq> 0 then
              (let s' = (if last_irr s AND mask = 0 then s\<lparr>irr := irr s OR mask\<rparr> else s)
               in s'\<lparr>last_irr := last_irr s' OR mask\<rparr>)
            else s\<lparr>last_irr := last_irr s AND NOT mask\<rparr>))"

text \<open>
  The search loop of \<open>get_priority\<close>. The source enters it with a non-zero mask only,
  which is what makes it stop.
\<close>

lemma word8_search:
  assumes "(m::u8) \<noteq> 0"
  shows "\<exists>k. bit m ((p + k + add) mod 8)"
proof -
  from assms obtain n where n: "n < 8" "bit m n" by (auto simp: word8_eq_0_iff)
  define b where "b = (p + add) mod 8"
  define a where "a = (p + add) div 8"
  have "p + add = a * 8 + b" "b < 8" by (simp_all add: a_def b_def)
  then have "p + (8 + n - b) + add = n + 8 * (a + 1)" by arith
  then have "(p + (8 + n - b) + add) mod 8 = n" using n by (metis mod_less mod_mult_self2)
  with n show ?thesis by metis
qed

function priority_loop :: "nat \<Rightarrow> u8 \<Rightarrow> nat \<Rightarrow> nat" where
  "priority_loop add m p =
     (if m = 0 then 8
      else if m AND shl1 ((p + add) mod 8) = 0 then priority_loop add m (Suc p)
      else p)"
  by pat_completeness auto
termination
proof (relation "measure (\<lambda>(add, m, p). LEAST k. bit (m::u8) ((p + k + add) mod 8))")
  fix add m p
  assume nz: "\<not> (m::u8) = 0" and z: "m AND shl1 ((p + add) mod 8) = 0"
  let ?P = "\<lambda>k. bit m ((p + k + add) mod 8)"
  obtain k where k: "?P k" using word8_search [OF nz] by metis
  have "\<not> ?P 0" using z by (simp add: bits)
  then have "Least ?P = Suc (LEAST k. ?P (Suc k))" using k by (rule Least_Suc [rotated])
  then show "((add, m, Suc p), add, m, p) \<in>
      measure (\<lambda>(add, m, p). LEAST k. bit m ((p + k + add) mod 8))"
    by simp
qed simp

declare priority_loop.simps [simp del]

definition get_priority :: "pic_state \<Rightarrow> u8 \<Rightarrow> nat" where
  "get_priority s m =
     (if m = 0 then 8 else priority_loop (unat (priority_add s)) m 0)"

text \<open>
  The interrupt an 8259 wants to deliver; \<open>None\<close> is the source's \<open>-1\<close>. The test
  \<open>s == &s->pics_state->pics[0]\<close> is the argument \<open>i = 0\<close>.
\<close>

definition pic_get_irq :: "nat \<Rightarrow> pic_state \<Rightarrow> nat option" where
  "pic_get_irq i s =
     (let priority = get_priority s (irr s AND NOT (imr s))
      in if priority = 8 then None
         else
           (let mask = isr s;
                mask = (if special_mask s \<noteq> 0 then mask AND NOT (imr s) else mask);
                mask = (if special_fully_nested_mode s \<noteq> 0 \<and> i = 0
                        then mask AND NOT (shl1 2) else mask);
                cur_priority = get_priority s mask
            in if priority < cur_priority
               then Some ((priority + unat (priority_add s)) mod 8)
               else None))"

definition pic_update_irq :: "pic_state2 \<Rightarrow> pic_state2 \<times> int list" where
  "pic_update_irq s =
     (let s = (if pic_get_irq 1 (pic1 s) \<noteq> None
               then s\<lparr>pic0 := pic_set_irq1 (pic_set_irq1 (pic0 s) 2 1) 2 0\<rparr> else s)
      in (s, if pic_get_irq 0 (pic0 s) \<noteq> None then [1] else []))"

definition i8259_set_irq :: "nat \<Rightarrow> int \<Rightarrow> pic_state2 \<Rightarrow> pic_state2 \<times> int list" where
  "i8259_set_irq irq level s =
     pic_update_irq (upd_pics (irq div 8) (\<lambda>p. pic_set_irq1 p (irq mod 8) level) s)"

section \<open>Acknowledge\<close>

definition pic_intack :: "nat \<Rightarrow> pic_state \<Rightarrow> pic_state" where
  "pic_intack irq s =
     (let s = (if auto_eoi s \<noteq> 0 then
                 (if rotate_on_auto_eoi s \<noteq> 0
                  then s\<lparr>priority_add := of_nat ((irq + 1) mod 8)\<rparr> else s)
               else s\<lparr>isr := isr s OR shl1 irq\<rparr>)
      in if elcr s AND shl1 irq = 0 then s\<lparr>irr := irr s AND NOT (shl1 irq)\<rparr> else s)"

definition pic_read_irq :: "pic_state2 \<Rightarrow> nat \<times> pic_state2 \<times> int list" where
  "pic_read_irq s =
     (let (intno, s) =
        (case pic_get_irq 0 (pic0 s) of
           Some irq \<Rightarrow>
             (let s = s\<lparr>pic0 := pic_intack irq (pic0 s)\<rparr>
              in if irq = 2 then
                   (case pic_get_irq 1 (pic1 s) of
                      Some irq2 \<Rightarrow>
                        (let s = s\<lparr>pic1 := pic_intack irq2 (pic1 s)\<rparr>
                         in (unat (irq_base (pic1 s)) + irq2, s))
                    | None \<Rightarrow> (unat (irq_base (pic1 s)) + 7, s))
                 else (unat (irq_base (pic0 s)) + irq, s))
         | None \<Rightarrow> (unat (irq_base (pic0 s)) + 7, s))
      in (intno, pic_update_irq s))"

section \<open>Ports\<close>

definition pic_reset :: "pic_state \<Rightarrow> pic_state" where
  "pic_reset s =
     s\<lparr>last_irr := 0, irr := 0, imr := 0, isr := 0, priority_add := 0, irq_base := 0,
       read_reg_select := 0, poll := 0, special_mask := 0, init_state := 0, auto_eoi := 0,
       rotate_on_auto_eoi := 0, special_fully_nested_mode := 0, init4 := 0, single_mode := 0\<rparr>"

text \<open>Operation command word 2 (bits 3 and 4 of the value clear): \<open>cmd\<close> is bits 5 to 7.\<close>

definition pic_ocw2 :: "nat \<Rightarrow> u32 \<Rightarrow> pic_state2 \<Rightarrow> pic_state2 \<times> int list" where
  "pic_ocw2 i val s =
     (let cmd = drop_bit 5 val; p = pics s i
      in if cmd = 0 \<or> cmd = 4 then
           (upd_pics i (\<lambda>p. p\<lparr>rotate_on_auto_eoi := ucast (drop_bit 2 cmd)\<rparr>) s, [])
         else if cmd = 1 \<or> cmd = 5 then
           (let priority = get_priority p (isr p)
            in if priority \<noteq> 8 then
                 (let irq = (priority + unat (priority_add p)) mod 8;
                      s = upd_pics i (\<lambda>p. p\<lparr>isr := isr p AND NOT (shl1 irq)\<rparr>) s;
                      s = (if cmd = 5
                           then upd_pics i (\<lambda>p. p\<lparr>priority_add := of_nat ((irq + 1) mod 8)\<rparr>) s
                           else s)
                  in pic_update_irq s)
               else (s, []))
         else if cmd = 3 then
           (let irq = unat (val AND 7)
            in pic_update_irq (upd_pics i (\<lambda>p. p\<lparr>isr := isr p AND NOT (shl1 irq)\<rparr>) s))
         else if cmd = 6 then
           pic_update_irq (upd_pics i (\<lambda>p. p\<lparr>priority_add := ucast ((val + 1) AND 7)\<rparr>) s)
         else if cmd = 7 then
           (let irq = unat (val AND 7)
            in pic_update_irq
                 (upd_pics i (\<lambda>p. p\<lparr>isr := isr p AND NOT (shl1 irq),
                                  priority_add := of_nat ((irq + 1) mod 8)\<rparr>) s))
         else (s, []))"

definition pic_ioport_write ::
    "nat \<Rightarrow> u32 \<Rightarrow> u32 \<Rightarrow> pic_state2 \<Rightarrow> pic_error + (pic_state2 \<times> int list)" where
  "pic_ioport_write i addr val s =
     (if addr AND 1 = 0 then
        (if val AND 0x10 \<noteq> 0 then
           (let s = upd_pics i (\<lambda>p. (pic_reset p)\<lparr>init_state := 1, init4 := ucast (val AND 1),
                                        single_mode := ucast (val AND 2)\<rparr>) s
            in if val AND 0x08 \<noteq> 0 then Inl (HwError ''level sensitive irq not supported'')
               else Inr (s, [0]))
         else if val AND 0x08 \<noteq> 0 then
           (let s = (if val AND 0x04 \<noteq> 0 then upd_pics i (\<lambda>p. p\<lparr>poll := 1\<rparr>) s else s);
                s = (if val AND 0x02 \<noteq> 0
                     then upd_pics i (\<lambda>p. p\<lparr>read_reg_select := ucast (val AND 1)\<rparr>) s else s);
                s = (if val AND 0x40 \<noteq> 0
                     then upd_pics i (\<lambda>p. p\<lparr>special_mask := ucast (drop_bit 5 val AND 1)\<rparr>) s
                     else s)
            in Inr (s, []))
         else Inr (pic_ocw2 i val s))
      else
        (let p = pics s i
         in if init_state p = 0 then
              Inr (pic_update_irq (upd_pics i (\<lambda>p. p\<lparr>imr := ucast val\<rparr>) s))
            else if init_state p = 1 then
              Inr (upd_pics i (\<lambda>p. p\<lparr>irq_base := ucast (val AND 0xf8),
                     init_state := (if single_mode p \<noteq> 0
                                    then (if init4 p \<noteq> 0 then 3 else 0) else 2)\<rparr>) s, [])
            else if init_state p = 2 then
              Inr (upd_pics i (\<lambda>p. p\<lparr>init_state := (if init4 p \<noteq> 0 then 3 else 0)\<rparr>) s, [])
            else if init_state p = 3 then
              Inr (upd_pics i (\<lambda>p. p\<lparr>special_fully_nested_mode := ucast (drop_bit 4 val AND 1),
                     auto_eoi := ucast (drop_bit 1 val AND 1), init_state := 0\<rparr>) s, [])
            else Inr (s, [])))"

definition pic_poll_read :: "nat \<Rightarrow> u32 \<Rightarrow> pic_state2 \<Rightarrow> nat \<times> pic_state2 \<times> int list" where
  "pic_poll_read i addr1 s =
     (case pic_get_irq i (pics s i) of
        Some ret \<Rightarrow>
          (let s = (if drop_bit 7 addr1 \<noteq> 0
                    then s\<lparr>pic0 := (pic0 s)\<lparr>isr := isr (pic0 s) AND NOT (shl1 2),
                                           irr := irr (pic0 s) AND NOT (shl1 2)\<rparr>\<rparr>
                    else s);
               s = upd_pics i (\<lambda>p. p\<lparr>irr := irr p AND NOT (shl1 ret),
                                   isr := isr p AND NOT (shl1 ret)\<rparr>) s
           in if drop_bit 7 addr1 \<noteq> 0 \<or> ret \<noteq> 2 then (ret, pic_update_irq s) else (ret, s, []))
      | None \<Rightarrow> (7, pic_update_irq s))"

definition pic_ioport_read :: "nat \<Rightarrow> u32 \<Rightarrow> pic_state2 \<Rightarrow> nat \<times> pic_state2 \<times> int list" where
  "pic_ioport_read i addr1 s =
     (let p = pics s i
      in if poll p \<noteq> 0 then
           (let (ret, s, out) = pic_poll_read i addr1 s
            in (ret, upd_pics i (\<lambda>p. p\<lparr>poll := 0\<rparr>) s, out))
         else if addr1 AND 1 = 0 then
           (if read_reg_select p \<noteq> 0 then (unat (isr p), s, []) else (unat (irr p), s, []))
         else (unat (imr p), s, []))"

definition pic_intack_read :: "pic_state2 \<Rightarrow> nat \<times> pic_state2 \<times> int list" where
  "pic_intack_read s =
     (let (ret, s, out) = pic_poll_read 0 0x00 s;
          (ret, s, out) =
            (if ret = 2 then
               (let (ret2, s, out2) = pic_poll_read 1 0x80 s in (ret2 + 8, s, out @ out2))
             else (ret, s, out))
      in (ret, s\<lparr>pic0 := (pic0 s)\<lparr>read_reg_select := 1\<rparr>\<rparr>, out))"

definition elcr_ioport_write :: "nat \<Rightarrow> u32 \<Rightarrow> pic_state2 \<Rightarrow> pic_state2" where
  "elcr_ioport_write i val s = upd_pics i (\<lambda>p. p\<lparr>elcr := ucast val AND elcr_mask p\<rparr>) s"

definition elcr_ioport_read :: "nat \<Rightarrow> pic_state2 \<Rightarrow> nat" where
  "elcr_ioport_read i s = unat (elcr (pics s i))"

text \<open>\<open>i8259_init\<close>: both controllers are zero but for the mask of their ELCR bits.\<close>

definition pic_zero :: "u8 \<Rightarrow> pic_state" where
  "pic_zero m = \<lparr>last_irr = 0, irr = 0, imr = 0, isr = 0, priority_add = 0, irq_base = 0,
     read_reg_select = 0, poll = 0, special_mask = 0, init_state = 0, auto_eoi = 0,
     rotate_on_auto_eoi = 0, special_fully_nested_mode = 0, init4 = 0, single_mode = 0,
     elcr = 0, elcr_mask = m\<rparr>"

definition i8259_init :: pic_state2 where
  "i8259_init = \<lparr>pic0 = pic_zero 0xf8, pic1 = pic_zero 0xde\<rparr>"

section \<open>The priority order\<close>

text \<open>
  The rank of a line in the rotating order: 0 is the most urgent. The lines that ask for
  service, and those whose service blocks less urgent ones.
\<close>

definition rank :: "pic_state \<Rightarrow> nat \<Rightarrow> nat" where
  "rank s n = (n + (8 - unat (priority_add s) mod 8)) mod 8"

definition requested :: "pic_state \<Rightarrow> nat \<Rightarrow> bool" where
  "requested s n \<longleftrightarrow> bit (irr s) n \<and> \<not> bit (imr s) n"

definition blocking :: "nat \<Rightarrow> pic_state \<Rightarrow> nat \<Rightarrow> bool" where
  "blocking i s n \<longleftrightarrow> bit (isr s) n \<and> (special_mask s \<noteq> 0 \<longrightarrow> \<not> bit (imr s) n)
     \<and> \<not> (special_fully_nested_mode s \<noteq> 0 \<and> i = 0 \<and> n = 2)"

lemma rotate_mod8:
  fixes a n :: nat
  shows "n < 8 \<Longrightarrow> ((n + (8 - a mod 8)) mod 8 + a) mod 8 = n"
    and "n < 8 \<Longrightarrow> ((n + a) mod 8 + (8 - a mod 8)) mod 8 = n"
proof -
  define b where "b = a mod 8"
  have a: "a = 8 * (a div 8) + b" and b: "b < 8" by (simp_all add: b_def)
  show "((n + (8 - a mod 8)) mod 8 + a) mod 8 = n" if "n < 8"
  proof -
    have "n + (8 - b) + a = n + 8 * (a div 8 + 1)" using a b by arith
    then show ?thesis using that unfolding mod_add_left_eq b_def [symmetric]
      by (metis mod_less mod_mult_self2)
  qed
  show "((n + a) mod 8 + (8 - a mod 8)) mod 8 = n" if "n < 8"
  proof -
    have "n + a + (8 - b) = n + 8 * (a div 8 + 1)" using a b by arith
    then show ?thesis using that unfolding mod_add_left_eq b_def [symmetric]
      by (metis mod_less mod_mult_self2)
  qed
qed

lemma rank_less [simp]: "rank s n < 8"
  by (simp add: rank_def)

lemma rank_not_8 [simp]: "rank s n \<noteq> 8"
  using rank_less [of s n] by linarith

lemma rank_inverse: "n < 8 \<Longrightarrow> (rank s n + unat (priority_add s)) mod 8 = n"
  unfolding rank_def by (rule rotate_mod8)

lemma rank_of_sum: "r < 8 \<Longrightarrow> rank s ((r + unat (priority_add s)) mod 8) = r"
  unfolding rank_def by (rule rotate_mod8)

lemma rank_inj: "m < 8 \<Longrightarrow> n < 8 \<Longrightarrow> rank s m = rank s n \<longleftrightarrow> m = n"
  by (metis rank_inverse)

lemma priority_loop_found:
  "m \<noteq> 0 \<Longrightarrow> p \<le> priority_loop add m p \<and> bit m ((priority_loop add m p + add) mod 8)
     \<and> (\<forall>k. p \<le> k \<and> k < priority_loop add m p \<longrightarrow> \<not> bit m ((k + add) mod 8))"
proof (induction add m p rule: priority_loop.induct)
  case (1 add m p)
  show ?case
  proof (cases "bit m ((p + add) mod 8)")
    case True
    with 1 have "priority_loop add m p = p" by (simp add: priority_loop.simps [of add m p] bits)
    with True show ?thesis by auto
  next
    case False
    then have "priority_loop add m p = priority_loop add m (Suc p)"
      using 1 by (simp add: priority_loop.simps [of add m p] bits)
    with False 1 show ?thesis
      by (simp add: bits) (metis Suc_leI Suc_leD le_neq_implies_less)
  qed
qed

lemma get_priority_0 [simp]: "get_priority s 0 = 8"
  by (simp add: get_priority_def)

lemma get_priority_rank:
  assumes "m \<noteq> 0"
  obtains n where "bit m n" "get_priority s m = rank s n" "\<forall>k. bit m k \<longrightarrow> rank s n \<le> rank s k"
proof
  define r where "r = get_priority s m"
  have r: "bit m ((r + unat (priority_add s)) mod 8)"
    and first: "\<And>k. k < r \<Longrightarrow> \<not> bit m ((k + unat (priority_add s)) mod 8)"
    using priority_loop_found [OF assms, of 0 "unat (priority_add s)"] assms
    by (auto simp: r_def get_priority_def)
  have le: "r \<le> rank s k" if "bit m k" for k
    using first [of "rank s k"] that rank_inverse [OF word8_bit_less [OF that]] by force
  let ?n = "(r + unat (priority_add s)) mod 8"
  have "r < 8" using le [OF r] rank_less [of s ?n] by linarith
  then show "get_priority s m = rank s ?n" by (simp add: rank_of_sum r_def)
  then show "\<forall>k. bit m k \<longrightarrow> rank s ?n \<le> rank s k" using le by (simp add: r_def)
  show "bit m ?n" by (rule r)
qed

lemma get_priority_less: "get_priority s m < 8 \<longleftrightarrow> m \<noteq> 0"
  by (cases "m = 0") (auto elim: get_priority_rank [of m s])

lemma get_priority_le: "bit m k \<Longrightarrow> get_priority s m \<le> rank s k"
  by (cases "m = 0") (auto elim: get_priority_rank [of m s])

text \<open>
  The two masks \<open>pic_get_irq\<close> searches hold exactly the requested and the blocking
  lines.
\<close>

definition blocking_mask :: "nat \<Rightarrow> pic_state \<Rightarrow> u8" where
  "blocking_mask i s =
     (let m = (if special_mask s \<noteq> 0 then isr s AND NOT (imr s) else isr s)
      in if special_fully_nested_mode s \<noteq> 0 \<and> i = 0 then m AND NOT (shl1 2) else m)"

lemma bit_request_mask: "bit (irr s AND NOT (imr s)) n \<longleftrightarrow> requested s n"
  using word8_bit_less [of "irr s" n] by (auto simp: requested_def bit_simps)

lemma bit_blocking_mask: "bit (blocking_mask i s) n \<longleftrightarrow> blocking i s n"
proof -
  have "bit (NOT (4::u8)) n \<longleftrightarrow> n < 8 \<and> n \<noteq> 2"
    using bit_exp_word [of 2 n, where ?'a = 8] by (auto simp: bit_simps)
  then show ?thesis
    using word8_bit_less [of "isr s" n]
    by (auto simp: blocking_mask_def blocking_def bit_simps Let_def)
qed

lemma pic_get_irq_unfold:
  "pic_get_irq i s =
     (let p = get_priority s (irr s AND NOT (imr s))
      in if p \<noteq> 8 \<and> p < get_priority s (blocking_mask i s)
         then Some ((p + unat (priority_add s)) mod 8) else None)"
  by (simp add: pic_get_irq_def blocking_mask_def Let_def)

lemma requested_less: "requested s n \<Longrightarrow> n < 8"
  by (auto simp: requested_def dest: word8_bit_less)

lemma pic_get_irq_spec:
  "pic_get_irq i s = Some n \<longleftrightarrow>
     requested s n \<and> (\<forall>m. requested s m \<longrightarrow> rank s n \<le> rank s m)
     \<and> (\<forall>m. blocking i s m \<longrightarrow> rank s n < rank s m)"
proof (cases "irr s AND NOT (imr s) = 0")
  case True
  then have "\<not> requested s n" using bit_request_mask [of s n] by simp
  with True show ?thesis by (simp add: pic_get_irq_unfold)
next
  case False
  then obtain k where k: "requested s k" "get_priority s (irr s AND NOT (imr s)) = rank s k"
    and least: "\<forall>m. requested s m \<longrightarrow> rank s k \<le> rank s m"
    by (rule get_priority_rank [where s = s]) (auto simp: bit_request_mask)
  have "rank s k < get_priority s (blocking_mask i s) \<longleftrightarrow> (\<forall>m. blocking i s m \<longrightarrow> rank s k < rank s m)"
  proof (cases "blocking_mask i s = 0")
    case True
    then show ?thesis using bit_blocking_mask [of i s] by auto
  next
    case False
    then show ?thesis
      by (rule get_priority_rank [where s = s]) (auto simp: bit_blocking_mask)
  qed
  then have "pic_get_irq i s = (if \<forall>m. blocking i s m \<longrightarrow> rank s k < rank s m then Some k else None)"
    using k requested_less [OF k(1)]
    by (simp add: pic_get_irq_unfold Let_def rank_inverse)
  moreover have "n = k" if "requested s n" "\<forall>m. requested s m \<longrightarrow> rank s n \<le> rank s m"
    using that k least requested_less rank_inj [of n k s] by (simp add: eq_iff)
  ultimately show ?thesis using k least by auto
qed

lemma pic_get_irq_less: "pic_get_irq i s = Some n \<Longrightarrow> n < 8"
  by (auto simp: pic_get_irq_spec dest: requested_less)

section \<open>Edges and levels\<close>

lemma pic_set_irq1_irr:
  assumes "irq < 8"
  shows "bit (irr (pic_set_irq1 s irq level)) n \<longleftrightarrow>
     (if n = irq then (if bit (elcr s) irq then level \<noteq> 0
                       else bit (irr s) irq \<or> (level \<noteq> 0 \<and> \<not> bit (last_irr s) irq))
      else bit (irr s) n)"
  using assms by (auto simp: pic_set_irq1_def Let_def bits)

lemma pic_set_irq1_last_irr:
  assumes "irq < 8"
  shows "bit (last_irr (pic_set_irq1 s irq level)) n \<longleftrightarrow>
     (if n = irq then level \<noteq> 0 else bit (last_irr s) n)"
  using assms by (auto simp: pic_set_irq1_def Let_def bits)

lemma pic_set_irq1_frame [simp]:
  "imr (pic_set_irq1 s irq level) = imr s"
  "isr (pic_set_irq1 s irq level) = isr s"
  "priority_add (pic_set_irq1 s irq level) = priority_add s"
  "irq_base (pic_set_irq1 s irq level) = irq_base s"
  "special_mask (pic_set_irq1 s irq level) = special_mask s"
  "special_fully_nested_mode (pic_set_irq1 s irq level) = special_fully_nested_mode s"
  "init_state (pic_set_irq1 s irq level) = init_state s"
  "auto_eoi (pic_set_irq1 s irq level) = auto_eoi s"
  "rotate_on_auto_eoi (pic_set_irq1 s irq level) = rotate_on_auto_eoi s"
  "elcr (pic_set_irq1 s irq level) = elcr s"
  "elcr_mask (pic_set_irq1 s irq level) = elcr_mask s"
  "read_reg_select (pic_set_irq1 s irq level) = read_reg_select s"
  "poll (pic_set_irq1 s irq level) = poll s"
  by (simp_all add: pic_set_irq1_def Let_def)

lemma rank_cong: "priority_add s = priority_add t \<Longrightarrow> rank s = rank t"
  by (rule ext) (simp add: rank_def)

lemma rank_set_irq1 [simp]: "rank (pic_set_irq1 s irq level) = rank s"
  by (rule rank_cong) simp

lemma blocking_set_irq1 [simp]: "blocking i (pic_set_irq1 s irq level) = blocking i s"
  by (rule ext) (simp add: blocking_def)

section \<open>The cascade\<close>

text \<open>
  \<open>pic_update_irq\<close> pulses line 2 of the master when the slave wants an interrupt. It
  changes nothing but bit 2 of the request and edge registers of the master.
\<close>

definition cascade :: "pic_state2 \<Rightarrow> pic_state" where
  "cascade s = (if pic_get_irq 1 (pic1 s) \<noteq> None
     then pic_set_irq1 (pic_set_irq1 (pic0 s) 2 1) 2 0 else pic0 s)"

lemma pic_update_irq_unfold:
  "pic_update_irq s = (s\<lparr>pic0 := cascade s\<rparr>, if pic_get_irq 0 (cascade s) \<noteq> None then [1] else [])"
  by (simp add: pic_update_irq_def cascade_def Let_def)

lemma cascade_frame [simp]:
  "imr (cascade s) = imr (pic0 s)"
  "isr (cascade s) = isr (pic0 s)"
  "priority_add (cascade s) = priority_add (pic0 s)"
  "irq_base (cascade s) = irq_base (pic0 s)"
  "special_mask (cascade s) = special_mask (pic0 s)"
  "special_fully_nested_mode (cascade s) = special_fully_nested_mode (pic0 s)"
  "init_state (cascade s) = init_state (pic0 s)"
  "auto_eoi (cascade s) = auto_eoi (pic0 s)"
  "elcr (cascade s) = elcr (pic0 s)"
  "elcr_mask (cascade s) = elcr_mask (pic0 s)"
  "rank (cascade s) = rank (pic0 s)"
  "blocking i (cascade s) = blocking i (pic0 s)"
  by (simp_all add: cascade_def)

lemma cascade_irr:
  "bit (irr (cascade s)) n \<longleftrightarrow>
     (if n = 2 \<and> pic_get_irq 1 (pic1 s) \<noteq> None
      then \<not> bit (elcr (pic0 s)) 2 \<and> (bit (irr (pic0 s)) 2 \<or> \<not> bit (last_irr (pic0 s)) 2)
      else bit (irr (pic0 s)) n)"
  by (auto simp: cascade_def pic_set_irq1_irr pic_set_irq1_last_irr)

section \<open>Well-formed controllers\<close>

definition pic_wf :: "pic_state \<Rightarrow> bool" where
  "pic_wf s \<longleftrightarrow> priority_add s < 8 \<and> irq_base s AND 7 = 0 \<and> init_state s \<le> 3
     \<and> elcr s AND elcr_mask s = elcr s"

definition pic2_wf :: "pic_state2 \<Rightarrow> bool" where
  "pic2_wf s \<longleftrightarrow> pic_wf (pic0 s) \<and> pic_wf (pic1 s)
     \<and> elcr_mask (pic0 s) = 0xf8 \<and> elcr_mask (pic1 s) = 0xde"

datatype pic_event =
    SetIrq nat int
  | ReadIrq
  | PortWrite nat u32 u32
  | PortRead nat u32
  | IntackRead
  | ElcrWrite nat u32
  | PicReset nat

inductive pic_step :: "pic_state2 \<Rightarrow> pic_event \<Rightarrow> pic_state2 \<Rightarrow> bool" where
  set_irq: "irq < 16 \<Longrightarrow> i8259_set_irq irq level s = (t, out) \<Longrightarrow> pic_step s (SetIrq irq level) t"
| read_irq: "pic_read_irq s = (v, t, out) \<Longrightarrow> pic_step s ReadIrq t"
| port_write: "pic_ioport_write i addr val s = Inr (t, out) \<Longrightarrow> pic_step s (PortWrite i addr val) t"
| port_read: "pic_ioport_read i addr s = (v, t, out) \<Longrightarrow> pic_step s (PortRead i addr) t"
| intack_read: "pic_intack_read s = (v, t, out) \<Longrightarrow> pic_step s IntackRead t"
| elcr_write: "elcr_ioport_write i val s = t \<Longrightarrow> pic_step s (ElcrWrite i val) t"
| reset: "upd_pics i pic_reset s = t \<Longrightarrow> pic_step s (PicReset i) t"

text \<open>An operation on one controller keeps the pair well-formed when it keeps that one so.\<close>

definition keeps :: "(pic_state \<Rightarrow> pic_state) \<Rightarrow> bool" where
  "keeps f \<longleftrightarrow> (\<forall>p. pic_wf p \<longrightarrow> pic_wf (f p) \<and> elcr_mask (f p) = elcr_mask p)"

lemma upd_pics_wf: "keeps f \<Longrightarrow> pic2_wf s \<Longrightarrow> pic2_wf (upd_pics i f s)"
  by (simp add: keeps_def pic2_wf_def upd_pics_def)

lemma pic0_wf: "keeps f \<Longrightarrow> pic2_wf s \<Longrightarrow> pic2_wf (s\<lparr>pic0 := f (pic0 s)\<rparr>)"
  using upd_pics_wf [of f s 0] by (simp add: upd_pics_def)

lemma pic1_wf: "keeps f \<Longrightarrow> pic2_wf s \<Longrightarrow> pic2_wf (s\<lparr>pic1 := f (pic1 s)\<rparr>)"
  using upd_pics_wf [of f s 1] by (simp add: upd_pics_def)

lemma pic_update_irq_wf: "pic2_wf s \<Longrightarrow> pic2_wf (fst (pic_update_irq s))"
  by (auto simp: pic_update_irq_unfold pic2_wf_def pic_wf_def)

lemma mod8_word_less: "(of_nat (n mod 8) :: u8) < 8"
  by (simp add: word_less_nat_alt unat_of_nat)

lemma and7_less: "(ucast ((x::u32) AND 7) :: u8) < 8"
proof -
  have "x AND 7 = take_bit 3 x" by (simp add: take_bit_eq_mask mask_eq_exp_minus_1)
  then have "unat (x AND 7) < 8"
    using take_bit_nat_less_exp [of 3 "unat x"] by (simp add: unsigned_take_bit_eq)
  then show ?thesis by (simp add: word_less_nat_alt unsigned_ucast_eq take_bit_eq_mod)
qed

lemma base_and7: "(ucast ((x::u32) AND 0xf8) :: u8) AND 7 = 0"
proof -
  have "(ucast (x AND 0xf8) :: u8) AND 7 = ucast x AND (0xf8 AND 7)"
    by (simp only: unsigned_and_eq and.assoc) simp
  then show ?thesis by simp
qed

lemma pic_intack_keeps: "keeps (pic_intack irq)"
  by (simp add: keeps_def pic_wf_def pic_intack_def Let_def mod8_word_less)

lemma pic_intack_wf:
  assumes "pic2_wf s"
  shows "pic2_wf (s\<lparr>pic0 := pic_intack n (pic0 s)\<rparr>)"
    and "pic2_wf (s\<lparr>pic0 := pic_intack n (pic0 s), pic1 := pic_intack k (pic1 s)\<rparr>)"
proof -
  show 0: "pic2_wf (s\<lparr>pic0 := pic_intack n (pic0 s)\<rparr>)"
    by (rule pic0_wf [OF pic_intack_keeps assms])
  show "pic2_wf (s\<lparr>pic0 := pic_intack n (pic0 s), pic1 := pic_intack k (pic1 s)\<rparr>)"
    using pic1_wf [OF pic_intack_keeps 0] by simp
qed

lemma pic_read_irq_wf: "pic2_wf s \<Longrightarrow> pic2_wf (fst (snd (pic_read_irq s)))"
  unfolding pic_read_irq_def Let_def
  by (auto split: option.split intro!: pic_update_irq_wf pic_intack_wf)

lemma pic_ocw2_wf: "pic2_wf s \<Longrightarrow> pic2_wf (fst (pic_ocw2 i val s))"
  unfolding pic_ocw2_def Let_def
  by (auto intro!: pic_update_irq_wf upd_pics_wf
      simp: keeps_def pic_wf_def mod8_word_less and7_less)

lemma imr_keeps: "keeps (imr_update f)"
  by (simp add: keeps_def pic_wf_def)

lemma pic_ioport_write_wf:
  "pic2_wf s \<Longrightarrow> pic_ioport_write i addr val s = Inr r \<Longrightarrow> pic2_wf (fst r)"
  unfolding pic_ioport_write_def Let_def
  by (auto split: if_splits intro!: pic_update_irq_wf upd_pics_wf pic_ocw2_wf imr_keeps
      simp: keeps_def pic_wf_def pic_reset_def base_and7)

lemma poll_keeps: "keeps (\<lambda>p. p\<lparr>irr := irr p AND a, isr := isr p AND b\<rparr>)"
  by (simp add: keeps_def pic_wf_def)

lemma pic_poll_read_wf: "pic2_wf s \<Longrightarrow> pic2_wf (fst (snd (pic_poll_read i addr s)))"
proof -
  assume s: "pic2_wf s"
  then have s0: "pic2_wf (s\<lparr>pic0 := (pic0 s)\<lparr>isr := a, irr := b\<rparr>\<rparr>)" for a b
    by (auto simp: pic2_wf_def pic_wf_def)
  from s s0 show ?thesis
    unfolding pic_poll_read_def Let_def
    by (auto split: option.split intro!: pic_update_irq_wf upd_pics_wf simp: keeps_def pic_wf_def)
qed

lemma pic_ioport_read_wf: "pic2_wf s \<Longrightarrow> pic2_wf (fst (snd (pic_ioport_read i addr s)))"
  unfolding pic_ioport_read_def Let_def
  using pic_poll_read_wf [of s i addr]
  by (auto split: prod.split intro!: upd_pics_wf simp: keeps_def pic_wf_def)

lemma pic_intack_read_wf: "pic2_wf s \<Longrightarrow> pic2_wf (fst (snd (pic_intack_read s)))"
proof -
  assume s: "pic2_wf s"
  obtain r t out where r: "pic_poll_read 0 0 s = (r, t, out)" by (cases "pic_poll_read 0 0 s") auto
  obtain r2 t2 out2 where r2: "pic_poll_read 1 0x80 t = (r2, t2, out2)"
    by (cases "pic_poll_read 1 0x80 t") auto
  have "pic2_wf t" "pic2_wf t2"
    using pic_poll_read_wf [OF s, of 0 0] r pic_poll_read_wf [of t 1 "0x80"] r2 by auto
  then show ?thesis
    using pic0_wf [of "\<lambda>p. p\<lparr>read_reg_select := 1\<rparr>"] r r2
    by (simp add: pic_intack_read_def keeps_def pic_wf_def)
qed

lemma elcr_write_wf: "pic2_wf s \<Longrightarrow> pic2_wf (elcr_ioport_write i val s)"
  unfolding elcr_ioport_write_def
  by (auto intro!: upd_pics_wf simp: keeps_def pic_wf_def and.assoc)

lemma pic_set_irq1_keeps: "keeps (\<lambda>p. pic_set_irq1 p irq level)"
  by (simp add: keeps_def pic_wf_def)

lemma pic_reset_keeps: "keeps pic_reset"
  by (simp add: keeps_def pic_wf_def pic_reset_def)

lemma i8259_init_wf: "pic2_wf i8259_init"
  by (simp add: pic2_wf_def pic_wf_def i8259_init_def pic_zero_def)

lemma pic_step_wf: "pic_step s e t \<Longrightarrow> pic2_wf s \<Longrightarrow> pic2_wf t"
proof (induction rule: pic_step.induct)
  case (set_irq irq level s t out)
  then show ?case
    using pic_update_irq_wf [OF upd_pics_wf [OF pic_set_irq1_keeps]]
    by (metis fst_conv i8259_set_irq_def)
next
  case (read_irq s v t out)
  then show ?case using pic_read_irq_wf [of s] by simp
next
  case (port_write i addr val s t out)
  then show ?case using pic_ioport_write_wf [of s i addr val "(t, out)"] by simp
next
  case (port_read i addr s v t out)
  then show ?case using pic_ioport_read_wf [of s i addr] by simp
next
  case (intack_read s v t out)
  then show ?case using pic_intack_read_wf [of s] by simp
next
  case (elcr_write i val s t)
  then show ?case using elcr_write_wf [of s i val] by simp
next
  case (reset i s t)
  then show ?case using upd_pics_wf [OF pic_reset_keeps, of s i] by simp
qed

interpretation pic: device "\<lambda>s. s = i8259_init" pic_step pic2_wf
  by unfold_locales (auto simp: i8259_init_wf intro: pic_step_wf)

section \<open>What the pair of controllers does\<close>

lemma pic_get_irq_single:
  assumes "requested s n" "\<And>m. requested s m \<Longrightarrow> m = n" "\<And>m. \<not> blocking i s m"
  shows "pic_get_irq i s = Some n"
  unfolding pic_get_irq_spec using assms by (metis order_refl)

lemma pic_get_irq_blocked:
  "pic_get_irq i s = Some m \<Longrightarrow> blocking i s n \<Longrightarrow> rank s m < rank s n"
  by (simp add: pic_get_irq_spec)

lemma pic_intack_regs:
  assumes "auto_eoi s = 0" "irq < 8"
  shows "bit (isr (pic_intack irq s)) m \<longleftrightarrow> bit (isr s) m \<or> m = irq"
    and "bit (irr (pic_intack irq s)) m \<longleftrightarrow> bit (irr s) m \<and> (m = irq \<longrightarrow> bit (elcr s) irq)"
  using assms by (auto simp: pic_intack_def Let_def bits)

lemma pic_intack_frame [simp]:
  "imr (pic_intack irq s) = imr s"
  "irq_base (pic_intack irq s) = irq_base s"
  "special_mask (pic_intack irq s) = special_mask s"
  "special_fully_nested_mode (pic_intack irq s) = special_fully_nested_mode s"
  "elcr (pic_intack irq s) = elcr s"
  "auto_eoi (pic_intack irq s) = auto_eoi s"
  "auto_eoi s = 0 \<Longrightarrow> priority_add (pic_intack irq s) = priority_add s"
  by (simp_all add: pic_intack_def Let_def)

lemma pic_read_irq_vector:
  obtains i n where "i \<in> {0, 1}" "n < 8" "fst (pic_read_irq s) = unat (irq_base (pics s i)) + n"
proof (cases "pic_get_irq 0 (pic0 s)")
  case None
  then show ?thesis using that [of 0 7] by (simp add: pic_read_irq_def pics_def)
next
  case (Some irq)
  show ?thesis
  proof (cases "irq = 2")
    case True
    show ?thesis
    proof (cases "pic_get_irq 1 (pic1 s)")
      case None
      then show ?thesis using that [of 1 7] Some True by (simp add: pic_read_irq_def pics_def)
    next
      case (Some irq2)
      then show ?thesis
        using that [of 1 irq2] \<open>pic_get_irq 0 (pic0 s) = Some irq\<close> True pic_get_irq_less [OF Some]
        by (simp add: pic_read_irq_def pics_def)
    qed
  next
    case False
    then show ?thesis
      using that [of 0 irq] Some pic_get_irq_less [OF Some] by (simp add: pic_read_irq_def pics_def)
  qed
qed

text \<open>
  C1: Priority resolution. \<open>pic_get_irq\<close> returns line \<open>n\<close> exactly when \<open>n\<close> is
  requested and unmasked, no other such line is more urgent in the rotating order, and
  every line in service that blocks (all of \<open>isr\<close>, less the masked lines in special mask
  mode and less the cascade line in special fully nested mode) is strictly less urgent.
  In every other case it returns no line.
\<close>

theorem pic_get_irq_correct:
  "pic_get_irq i s = Some n \<longleftrightarrow>
     requested s n \<and> (\<forall>m. requested s m \<longrightarrow> rank s n \<le> rank s m)
     \<and> (\<forall>m. blocking i s m \<longrightarrow> rank s n < rank s m)"
  by (rule pic_get_irq_spec)

text \<open>
  In every state the controllers can reach from \<open>i8259_init\<close> through line changes,
  acknowledge cycles and port accesses, the vector that \<open>pic_read_irq\<close> hands to the CPU
  fits in a byte and lies in the window of eight vectors that starts at the programmed
  base of one of the two controllers.
\<close>

theorem pic_vector_in_window:
  assumes "reachable (\<lambda>s. s = i8259_init) pic_step s"
  shows "fst (pic_read_irq s) < 256
     \<and> (\<exists>i\<in>{0, 1}. 8 * (fst (pic_read_irq s) div 8) = unat (irq_base (pics s i)))"
proof -
  have wf: "pic2_wf s" using assms by (rule pic.reachable_wf)
  have base: "unat b + n < 256 \<and> 8 * ((unat b + n) div 8) = unat b"
    if "(b::u8) AND 7 = 0" "n < 8" for b n
  proof -
    have "unat b mod 8 = 0" using that(1) unat_and_numeral(3) [of b] by simp
    then obtain k where k: "unat b = 8 * k" by (metis mod_0_imp_dvd dvdE)
    moreover have "k < 32" using unsigned_less [of b, where ?'a = nat] k by simp
    ultimately show ?thesis using that(2) by simp
  qed
  obtain i n where i: "i \<in> {0, 1}" "n < 8" and v: "fst (pic_read_irq s) = unat (irq_base (pics s i)) + n"
    by (rule pic_read_irq_vector)
  have "irq_base (pics s i) AND 7 = 0" using wf by (simp add: pic2_wf_def pic_wf_def pics_def)
  then have "unat (irq_base (pics s i)) + n < 256"
    and "8 * ((unat (irq_base (pics s i)) + n) div 8) = unat (irq_base (pics s i))"
    using base i(2) by simp_all
  then show ?thesis using i(1) unfolding v by (intro conjI bexI [of _ i])
qed

definition pic_example :: pic_state where
  "pic_example = (pic_zero 0xf8)\<lparr>irr := 0x62, imr := 0x20, isr := 0x10\<rparr>"

lemma pic_example_irq: "pic_get_irq 0 pic_example = Some 1"
  by (simp add: pic_example_def pic_get_irq_def pic_zero_def get_priority_def priority_loop.simps)

theorem pic_get_irq_correct_witness:
  "pic_get_irq 0 pic_example = Some 1 \<and> requested pic_example 1
   \<and> rank pic_example 1 \<le> rank pic_example 6 \<and> rank pic_example 1 < rank pic_example 4"
proof -
  have "requested pic_example 6" "blocking 0 pic_example 4"
    by (simp_all add: requested_def blocking_def pic_example_def pic_zero_def)
  then show ?thesis
    using pic_get_irq_correct [of 0 pic_example 1] pic_example_irq by blast
qed

theorem pic_vector_in_window_witness:
  "fst (pic_read_irq i8259_init) < 256
   \<and> (\<exists>i\<in>{0, 1}. 8 * (fst (pic_read_irq i8259_init) div 8) = unat (irq_base (pics i8259_init i)))"
  by (rule pic_vector_in_window [OF reachable.start]) simp

text \<open>
  C13: Acknowledge. When the master delivers a line other than the cascade and does not
  end interrupts automatically, \<open>pic_read_irq\<close> returns base plus line, puts the line in
  service, clears its request unless it is level triggered, and until the service ends
  only strictly more urgent lines are delivered.
\<close>

theorem pic_ack_blocks_less_urgent:
  assumes "pic_get_irq 0 (pic0 s) = Some n" "n \<noteq> 2"
    and "auto_eoi (pic0 s) = 0" "special_mask (pic0 s) = 0"
    and "pic_read_irq s = (v, t, out)"
  shows "v = unat (irq_base (pic0 s)) + n
     \<and> bit (isr (pic0 t)) n
     \<and> (bit (irr (pic0 t)) n \<longleftrightarrow> bit (elcr (pic0 s)) n)
     \<and> (\<forall>m. pic_get_irq 0 (pic0 t) = Some m \<longrightarrow> rank (pic0 s) m < rank (pic0 s) n)"
proof -
  define u where "u = s\<lparr>pic0 := pic_intack n (pic0 s)\<rparr>"
  have n: "n < 8" "bit (irr (pic0 s)) n"
    using assms(1) pic_get_irq_less by (auto simp: pic_get_irq_spec requested_def)
  have v: "v = unat (irq_base (pic0 s)) + n" and t: "pic0 t = cascade u"
    using assms by (auto simp: pic_read_irq_def u_def pic_update_irq_unfold)
  have isr: "bit (isr (pic0 t)) n" and rank: "rank (pic0 t) = rank (pic0 s)"
    using assms n by (auto simp: t u_def pic_intack_regs intro: rank_cong)
  have "bit (irr (pic0 t)) n \<longleftrightarrow> bit (elcr (pic0 s)) n"
    using assms n by (simp add: t cascade_irr) (simp add: u_def pic_intack_regs)
  moreover have "blocking 0 (pic0 t) n"
    using isr assms by (simp add: blocking_def t u_def)
  ultimately show ?thesis
    using v isr pic_get_irq_blocked [of 0 "pic0 t" _ n] rank by auto
qed
lemma pics_update_irq_isr: "isr (pics (fst (pic_update_irq s)) i) = isr (pics s i)"
  by (simp add: pic_update_irq_unfold pics_def)

lemma pics_upd: "pics (upd_pics i f s) i = f (pics s i)"
  by (simp add: pics_def upd_pics_def)

text \<open>
  A non-specific end of interrupt succeeds and takes exactly one line out of service,
  the most urgent one in service.
\<close>

theorem pic_nonspecific_eoi:
  assumes "isr (pics s i) \<noteq> 0" "addr AND 1 = 0"
  shows "\<exists>n t out. pic_ioport_write i addr 0x20 s = Inr (t, out)
     \<and> bit (isr (pics s i)) n
     \<and> (\<forall>m. bit (isr (pics s i)) m \<longrightarrow> rank (pics s i) n \<le> rank (pics s i) m)
     \<and> (\<forall>m. bit (isr (pics t i)) m \<longleftrightarrow> bit (isr (pics s i)) m \<and> m \<noteq> n)"
proof -
  let ?p = "pics s i"
  obtain n where n: "bit (isr ?p) n" "get_priority ?p (isr ?p) = rank ?p n"
    "\<forall>k. bit (isr ?p) k \<longrightarrow> rank ?p n \<le> rank ?p k"
    using get_priority_rank [OF assms(1)] by metis
  define u where "u = upd_pics i (\<lambda>p. p\<lparr>isr := isr p AND NOT (shl1 n)\<rparr>) s"
  have "n < 8" using n(1) by (rule word8_bit_less)
  then have "pic_ioport_write i addr 0x20 s = Inr (pic_update_irq u)"
    using assms(2) n(2) rank_inverse [of n ?p]
    by (simp add: pic_ioport_write_def pic_ocw2_def u_def)
  moreover have "bit (isr (pics (fst (pic_update_irq u)) i)) m \<longleftrightarrow> bit (isr ?p) m \<and> m \<noteq> n" for m
    by (auto simp: pics_update_irq_isr pics_upd u_def bits)
  ultimately show ?thesis using n(1,3)
    by (intro exI [of _ n] exI [of _ "fst (pic_update_irq u)"] exI [of _ "snd (pic_update_irq u)"])
       simp
qed

theorem pic_nonspecific_eoi_witness:
  "isr (pic0 (i8259_init\<lparr>pic0 := pic_example\<rparr>)) \<noteq> 0 \<and> (\<exists>n t out.
     pic_ioport_write 0 0x20 0x20 (i8259_init\<lparr>pic0 := pic_example\<rparr>) = Inr (t, out)
     \<and> bit (isr pic_example) n \<and> \<not> bit (isr (pic0 t)) n)"
proof -
  let ?s = "i8259_init\<lparr>pic0 := pic_example\<rparr>"
  have h: "isr (pics ?s 0) \<noteq> 0" "(0x20::u32) AND 1 = 0"
    by (simp_all add: pics_def pic_example_def)
  show ?thesis using h(1) pic_nonspecific_eoi [OF h] by (fastforce simp: pics_def)
qed

text \<open>
  C4: Delivery through the cascade. Raising an idle, unmasked line \<open>n\<close> of the slave raises
  the CPU line once, and the acknowledge cycle that follows returns the vector of line
  \<open>n\<close> of the slave: the pulse that \<open>pic_update_irq\<close> gives line 2 of the master is enough
  for the master to hold the request.
\<close>

theorem pic_slave_interrupt_delivered:
  assumes n: "n < 8"
    and slave: "irr (pic1 s) = 0" "isr (pic1 s) = 0" "\<not> bit (imr (pic1 s)) n"
      "\<not> bit (last_irr (pic1 s)) n"
    and master: "irr (pic0 s) = 0" "isr (pic0 s) = 0" "\<not> bit (imr (pic0 s)) 2"
      "\<not> bit (elcr (pic0 s)) 2" "\<not> bit (last_irr (pic0 s)) 2"
  shows "snd (i8259_set_irq (8 + n) 1 s) = [1]
     \<and> fst (pic_read_irq (fst (i8259_set_irq (8 + n) 1 s))) = unat (irq_base (pic1 s)) + n"
proof -
  define u where "u = upd_pics 1 (\<lambda>p. pic_set_irq1 p n 1) s"
  have set: "i8259_set_irq (8 + n) 1 s = pic_update_irq u"
    using n div_add_self1 [of 8 n] by (simp add: i8259_set_irq_def u_def)
  have u: "pic0 u = pic0 s" "pic1 u = pic_set_irq1 (pic1 s) n 1" by (simp_all add: u_def upd_pics_def)
  have "pic_get_irq 1 (pic1 u) = Some n"
    using n slave
    by (intro pic_get_irq_single) (auto simp: u requested_def blocking_def pic_set_irq1_irr split: if_splits)
  moreover from this have "pic_get_irq 0 (cascade u) = Some 2"
    using master
    by (intro pic_get_irq_single) (auto simp: u requested_def blocking_def cascade_irr split: if_splits)
  ultimately show ?thesis
    by (simp add: set pic_update_irq_unfold pic_read_irq_def u)
qed

theorem pic_slave_interrupt_delivered_witness:
  "snd (i8259_set_irq 14 1 i8259_init) = [1]
   \<and> fst (pic_read_irq (fst (i8259_set_irq 14 1 i8259_init))) = 6"
  using pic_slave_interrupt_delivered [of 6 i8259_init]
  by (simp add: i8259_init_def pic_zero_def)

theorem pic_ack_blocks_less_urgent_witness:
  "\<exists>v t out. pic_read_irq (i8259_init\<lparr>pic0 := pic_example\<rparr>) = (v, t, out) \<and> v = 1
     \<and> bit (isr (pic0 t)) 1 \<and> \<not> bit (irr (pic0 t)) 1"
proof -
  let ?s = "i8259_init\<lparr>pic0 := pic_example\<rparr>"
  obtain v t out where r: "pic_read_irq ?s = (v, t, out)" by (cases "pic_read_irq ?s") auto
  show ?thesis
    using r pic_ack_blocks_less_urgent [OF _ _ _ _ r, of 1] pic_example_irq
    by (auto simp: pic_example_def pic_zero_def)
qed

fun pic_writes :: "nat \<Rightarrow> (u32 \<times> u32) list \<Rightarrow> pic_state2 \<Rightarrow> pic_error + pic_state2" where
  "pic_writes i [] s = Inr s"
| "pic_writes i ((addr, val) # ws) s =
     (case pic_ioport_write i addr val s of
        Inl e \<Rightarrow> Inl e | Inr (t, out) \<Rightarrow> pic_writes i ws t)"

text \<open>
  The four initialisation command words (edge triggered, cascaded, with ICW4) leave one
  controller in its reset state with the programmed vector base, nesting mode and
  automatic end of interrupt, keep its ELCR, and do not touch the other controller.
\<close>

theorem pic_init_sequence:
  "pic_writes i [(0x20, 0x11), (0x21, icw2), (0x21, icw3), (0x21, icw4)] s =
   Inr (upd_pics i (\<lambda>p. (pic_zero (elcr_mask p))\<lparr>elcr := elcr p, init4 := 1,
          irq_base := ucast (icw2 AND 0xf8),
          special_fully_nested_mode := ucast (drop_bit 4 icw4 AND 1),
          auto_eoi := ucast (drop_bit 1 icw4 AND 1)\<rparr>) s)"
  by (simp add: pic_ioport_write_def pics_def upd_pics_def pic_reset_def pic_zero_def)


end
