(* ===== verification/Apic.thy ===== *)
theory Apic
  imports Host_Utils Qemu_Common
begin

text \<open>
  The local interrupt controllers of the CPUs (\<open>hw/apic.c\<close>) up to the delivery of an
  interrupt: the 256 bit tables of requested, in-service and level-triggered vectors, the
  priority of a processor, and the bus that carries an interrupt to the local APICs it is
  addressed to. \<open>apic_state\<close> is \<open>struct APICState\<close>; \<open>apic_bus\<close> holds the static variables
  \<open>local_apics\<close> (256 slots) and \<open>apic_irq_delivered\<close>, and the calls on the CPUs
  (\<open>cpu_interrupt\<close> and its like) in the order they are made. An APIC is named by its slot,
  a CPU by its number \<open>cpu_env\<close>.
\<close>

section \<open>Bit tables\<close>

definition fls_bit :: "u32 \<Rightarrow> int" where
  "fls_bit v = 31 - clz32 v"

definition ffs_bit :: "u32 \<Rightarrow> int" where
  "ffs_bit v = ctz32 v"

definition set_bit_tab :: "u32 list \<Rightarrow> nat \<Rightarrow> u32 list" where
  "set_bit_tab tab index = (let i = index div 32; m = shl1 (index mod 32) in tab[i := tab ! i OR m])"

definition reset_bit_tab :: "u32 list \<Rightarrow> nat \<Rightarrow> u32 list" where
  "reset_bit_tab tab index = (let i = index div 32; m = shl1 (index mod 32) in tab[i := tab ! i AND NOT m])"

definition get_bit_tab :: "u32 list \<Rightarrow> nat \<Rightarrow> bool" where
  "get_bit_tab tab index = (let i = index div 32; m = shl1 (index mod 32) in tab ! i AND m \<noteq> 0)"

text \<open>The loop of \<open>get_highest_priority_int\<close>, over the words below the given one; -1 if all are zero.\<close>

primrec highest_loop :: "u32 list \<Rightarrow> nat \<Rightarrow> int" where
  "highest_loop tab 0 = - 1"
| "highest_loop tab (Suc i) = (if tab ! i \<noteq> 0 then int i * 32 + fls_bit (tab ! i) else highest_loop tab i)"

definition get_highest_priority_int :: "u32 list \<Rightarrow> int" where
  "get_highest_priority_int tab = highest_loop tab 8"

section \<open>State\<close>

record apic_state =
  cpu_env :: nat
  apicbase :: u32
  apic_id :: u8
  arb_id :: u8
  tpr :: u8
  spurious_vec :: u32
  log_dest :: u8
  dest_mode :: u8
  isr_tab :: "u32 list"
  tmr_tab :: "u32 list"
  irr_tab :: "u32 list"
  lvt :: "u32 list"
  esr :: u32
  icr :: "u32 list"
  divide_conf :: u32
  count_shift :: nat
  initial_count :: u32
  initial_count_load_time :: u64
  next_time :: u64
  apic_idx :: nat
  lapic_timer :: qemu_timer
  sipi_vector :: nat
  wait_for_sipi :: bool

datatype cpu_int = INT_HARD | INT_SMI | INT_NMI | INT_INIT | INT_SIPI

datatype cpu_call =
    Cpu_interrupt nat cpu_int
  | Cpu_reset_interrupt nat cpu_int
  | Cpu_load_sipi nat nat
  | Cpu_clear_apic_feature nat

record apic_bus =
  local_apics :: "apic_state option list"
  apic_irq_delivered :: int
  cpu_calls :: "cpu_call list"

definition APIC_LVT_TIMER :: nat where "APIC_LVT_TIMER = 0"
definition APIC_LVT_LINT0 :: nat where "APIC_LVT_LINT0 = 3"
definition APIC_LVT_LINT1 :: nat where "APIC_LVT_LINT1 = 4"
definition APIC_LVT_NB :: nat where "APIC_LVT_NB = 6"

definition MAX_APICS :: nat where "MAX_APICS = 255"
definition MAX_APIC_WORDS :: nat where "MAX_APIC_WORDS = 8"

definition APIC_DM_FIXED :: u8 where "APIC_DM_FIXED = 0"
definition APIC_DM_LOWPRI :: u8 where "APIC_DM_LOWPRI = 1"
definition APIC_DM_SMI :: u8 where "APIC_DM_SMI = 2"
definition APIC_DM_NMI :: u8 where "APIC_DM_NMI = 4"
definition APIC_DM_INIT :: u8 where "APIC_DM_INIT = 5"
definition APIC_DM_SIPI :: u8 where "APIC_DM_SIPI = 6"
definition APIC_DM_EXTINT :: u8 where "APIC_DM_EXTINT = 7"

definition APIC_LVT_TIMER_PERIODIC :: u32 where "APIC_LVT_TIMER_PERIODIC = shl1 17"
definition APIC_LVT_MASKED :: u32 where "APIC_LVT_MASKED = shl1 16"
definition APIC_LVT_LEVEL_TRIGGER :: u32 where "APIC_LVT_LEVEL_TRIGGER = shl1 15"
definition APIC_SV_DIRECTED_IO :: u32 where "APIC_SV_DIRECTED_IO = shl1 12"
definition APIC_SV_ENABLE :: u32 where "APIC_SV_ENABLE = shl1 8"
definition ESR_ILLEGAL_ADDRESS :: u32 where "ESR_ILLEGAL_ADDRESS = shl1 7"
definition MSR_IA32_APICBASE_BSP :: u32 where "MSR_IA32_APICBASE_BSP = shl1 8"
definition MSR_IA32_APICBASE_ENABLE :: u32 where "MSR_IA32_APICBASE_ENABLE = shl1 11"

text \<open>The APIC in a slot that is not empty, a change of it, and a call on a CPU.\<close>

definition apic_at :: "'a apic_bus_scheme \<Rightarrow> nat \<Rightarrow> apic_state" where
  "apic_at b i = the (local_apics b ! i)"

definition upd_apic :: "nat \<Rightarrow> (apic_state \<Rightarrow> apic_state) \<Rightarrow> 'a apic_bus_scheme \<Rightarrow> 'a apic_bus_scheme" where
  "upd_apic i f b = b\<lparr>local_apics := (local_apics b)[i := map_option f (local_apics b ! i)]\<rparr>"

definition cpu_do :: "cpu_call \<Rightarrow> 'a apic_bus_scheme \<Rightarrow> 'a apic_bus_scheme" where
  "cpu_do c b = b\<lparr>cpu_calls := cpu_calls b @ [c]\<rparr>"

section \<open>Priority\<close>

definition apic_get_ppr :: "apic_state \<Rightarrow> int" where
  "apic_get_ppr s =
     (let t = uint (tpr s) div 16;
          isrv = get_highest_priority_int (isr_tab s);
          isrv = (if isrv < 0 then 0 else isrv);
          isrv = isrv div 16
      in if t \<ge> isrv then uint (tpr s) else isrv * 16)"

definition apic_get_arb_pri :: "apic_state \<Rightarrow> int" where
  "apic_get_arb_pri s = 0"

definition apic_irq_pending :: "apic_state \<Rightarrow> int" where
  "apic_irq_pending s =
     (let irrv = get_highest_priority_int (irr_tab s)
      in if irrv < 0 then 0
         else let ppr = apic_get_ppr s
              in if ppr \<noteq> 0 \<and> (irrv AND 0xf0) \<le> (ppr AND 0xf0) then - 1 else irrv)"

definition apic_update_irq :: "nat \<Rightarrow> 'a apic_bus_scheme \<Rightarrow> 'a apic_bus_scheme" where
  "apic_update_irq i b =
     (let s = apic_at b i
      in if spurious_vec s AND APIC_SV_ENABLE = 0 then b
         else if apic_irq_pending s > 0 then cpu_do (Cpu_interrupt (cpu_env s) INT_HARD) b
         else b)"

definition apic_reset_irq_delivered :: "'a apic_bus_scheme \<Rightarrow> 'a apic_bus_scheme" where
  "apic_reset_irq_delivered b = b\<lparr>apic_irq_delivered := 0\<rparr>"

definition apic_get_irq_delivered :: "'a apic_bus_scheme \<Rightarrow> int" where
  "apic_get_irq_delivered b = apic_irq_delivered b"

definition apic_set_irq :: "nat \<Rightarrow> nat \<Rightarrow> bool \<Rightarrow> 'a apic_bus_scheme \<Rightarrow> 'a apic_bus_scheme" where
  "apic_set_irq i vector_num trigger_mode b =
     (let b = b\<lparr>apic_irq_delivered := apic_irq_delivered b +
                  c_bool (\<not> get_bit_tab (irr_tab (apic_at b i)) vector_num)\<rparr>;
          b = upd_apic i (\<lambda>s. s\<lparr>irr_tab := set_bit_tab (irr_tab s) vector_num\<rparr>) b;
          b = upd_apic i (\<lambda>s. s\<lparr>tmr_tab :=
                (if trigger_mode then set_bit_tab else reset_bit_tab) (tmr_tab s) vector_num\<rparr>) b
      in apic_update_irq i b)"

section \<open>Local interrupt sources\<close>

definition apic_local_deliver :: "nat \<Rightarrow> nat \<Rightarrow> 'a apic_bus_scheme \<Rightarrow> 'a apic_bus_scheme" where
  "apic_local_deliver i vector b =
     (let s = apic_at b i; l = lvt s ! vector; dm = drop_bit 8 l AND 7
      in if l AND APIC_LVT_MASKED \<noteq> 0 then b
         else if dm = ucast APIC_DM_SMI then cpu_do (Cpu_interrupt (cpu_env s) INT_SMI) b
         else if dm = ucast APIC_DM_NMI then cpu_do (Cpu_interrupt (cpu_env s) INT_NMI) b
         else if dm = ucast APIC_DM_EXTINT then cpu_do (Cpu_interrupt (cpu_env s) INT_HARD) b
         else if dm = ucast APIC_DM_FIXED then
           apic_set_irq i (unat (l AND 0xff))
             ((vector = APIC_LVT_LINT0 \<or> vector = APIC_LVT_LINT1) \<and> l AND APIC_LVT_LEVEL_TRIGGER \<noteq> 0) b
         else b)"

definition apic_deliver_pic_intr :: "nat \<Rightarrow> int \<Rightarrow> 'a apic_bus_scheme \<Rightarrow> 'a apic_bus_scheme" where
  "apic_deliver_pic_intr i level b =
     (if level \<noteq> 0 then apic_local_deliver i APIC_LVT_LINT0 b
      else
        let s = apic_at b i; l = lvt s ! APIC_LVT_LINT0; dm = drop_bit 8 l AND 7;
            reset_hard = cpu_do (Cpu_reset_interrupt (cpu_env s) INT_HARD)
        in if dm = ucast APIC_DM_FIXED then
             (if l AND APIC_LVT_LEVEL_TRIGGER = 0 then b
              else reset_hard
                (upd_apic i (\<lambda>s. s\<lparr>irr_tab := reset_bit_tab (irr_tab s) (unat (l AND 0xff))\<rparr>) b))
           else if dm = ucast APIC_DM_EXTINT then reset_hard b
           else b)"

section \<open>The bus\<close>

definition foreach_apic ::
    "u32 list \<Rightarrow> (nat \<Rightarrow> 'a apic_bus_scheme \<Rightarrow> 'a apic_bus_scheme) \<Rightarrow> 'a apic_bus_scheme \<Rightarrow> 'a apic_bus_scheme" where
  "foreach_apic deliver_bitmask code =
     fold (\<lambda>i b. let m = deliver_bitmask ! i in
        if m \<noteq> 0 then
          fold (\<lambda>j b. if m AND shl1 j \<noteq> 0 then
                        (case local_apics b ! (i * 32 + j) of None \<Rightarrow> b | Some _ \<Rightarrow> code (i * 32 + j) b)
                      else b) [0..<32] b
        else b) [0..<MAX_APIC_WORDS]"

text \<open>The first addressed slot; \<open>None\<close> is the source's -1.\<close>

primrec lowpri_loop :: "u32 list \<Rightarrow> nat list \<Rightarrow> nat option" where
  "lowpri_loop deliver_bitmask [] = None"
| "lowpri_loop deliver_bitmask (i # is) =
     (if deliver_bitmask ! i \<noteq> 0 then Some (i * 32 + nat (ffs_bit (deliver_bitmask ! i)))
      else lowpri_loop deliver_bitmask is)"

definition apic_bus_deliver ::
    "u32 list \<Rightarrow> u8 \<Rightarrow> u8 \<Rightarrow> u8 \<Rightarrow> u8 \<Rightarrow> 'a apic_bus_scheme \<Rightarrow> 'a apic_bus_scheme" where
  "apic_bus_deliver deliver_bitmask delivery_mode vector_num polarity trigger_mode b =
     (let set_irq = (\<lambda>i. apic_set_irq i (unat vector_num) (trigger_mode \<noteq> 0));
          interrupt = (\<lambda>k i b. cpu_do (Cpu_interrupt (cpu_env (apic_at b i)) k) b)
      in if delivery_mode = APIC_DM_LOWPRI then
           (case lowpri_loop deliver_bitmask [0..<MAX_APIC_WORDS] of
              None \<Rightarrow> b
            | Some d \<Rightarrow> (case local_apics b ! d of None \<Rightarrow> b | Some _ \<Rightarrow> set_irq d b))
         else if delivery_mode = APIC_DM_SMI then foreach_apic deliver_bitmask (interrupt INT_SMI) b
         else if delivery_mode = APIC_DM_NMI then foreach_apic deliver_bitmask (interrupt INT_NMI) b
         else if delivery_mode = APIC_DM_INIT then foreach_apic deliver_bitmask (interrupt INT_INIT) b
         else if delivery_mode = APIC_DM_FIXED \<or> delivery_mode = APIC_DM_EXTINT then
           foreach_apic deliver_bitmask set_irq b
         else b)"

text \<open>
  The search of \<open>apic_find_dest\<close> over the slots, which ends at the first empty one.
\<close>

primrec find_dest_loop :: "u8 \<Rightarrow> 'a apic_bus_scheme \<Rightarrow> nat list \<Rightarrow> nat option" where
  "find_dest_loop dest b [] = None"
| "find_dest_loop dest b (i # is) =
     (case local_apics b ! i of
        None \<Rightarrow> None
      | Some apic \<Rightarrow> if apic_id apic = dest then Some i else find_dest_loop dest b is)"

definition apic_find_dest :: "u8 \<Rightarrow> 'a apic_bus_scheme \<Rightarrow> nat option" where
  "apic_find_dest dest b =
     (case local_apics b ! unat dest of
        Some apic \<Rightarrow> if apic_id apic = dest then Some (unat dest) else find_dest_loop dest b [0..<MAX_APICS]
      | None \<Rightarrow> find_dest_loop dest b [0..<MAX_APICS])"

definition logical_match :: "u8 \<Rightarrow> apic_state \<Rightarrow> bool" where
  "logical_match dest s =
     (if dest_mode s = 0xf then dest AND log_dest s \<noteq> 0
      else if dest_mode s = 0 then
        dest AND 0xf0 = log_dest s AND 0xf0 \<and> dest AND log_dest s AND 0x0f \<noteq> 0
      else False)"

primrec logical_loop :: "u8 \<Rightarrow> 'a apic_bus_scheme \<Rightarrow> nat list \<Rightarrow> u32 list \<Rightarrow> u32 list" where
  "logical_loop dest b [] deliver_bitmask = deliver_bitmask"
| "logical_loop dest b (i # is) deliver_bitmask =
     (case local_apics b ! i of
        None \<Rightarrow> deliver_bitmask
      | Some apic \<Rightarrow> logical_loop dest b is
          (if logical_match dest apic then set_bit_tab deliver_bitmask i else deliver_bitmask))"

definition apic_get_delivery_bitmask :: "u8 \<Rightarrow> u8 \<Rightarrow> 'a apic_bus_scheme \<Rightarrow> u32 list" where
  "apic_get_delivery_bitmask dest dmode b =
     (if dmode = 0 then
        (if dest = 0xff then replicate MAX_APIC_WORDS 0xffffffff
         else case apic_find_dest dest b of
                None \<Rightarrow> replicate MAX_APIC_WORDS 0
              | Some idx \<Rightarrow> set_bit_tab (replicate MAX_APIC_WORDS 0) idx)
      else logical_loop dest b [0..<MAX_APICS] (replicate MAX_APIC_WORDS 0))"

definition apic_deliver_irq ::
    "u8 \<Rightarrow> u8 \<Rightarrow> u8 \<Rightarrow> u8 \<Rightarrow> u8 \<Rightarrow> u8 \<Rightarrow> 'a apic_bus_scheme \<Rightarrow> 'a apic_bus_scheme" where
  "apic_deliver_irq dest dmode delivery_mode vector_num polarity trigger_mode b =
     apic_bus_deliver (apic_get_delivery_bitmask dest dmode b) delivery_mode vector_num polarity
       trigger_mode b"

section \<open>Tables as sets of vectors\<close>

definition vecs :: "u32 list \<Rightarrow> nat set" where
  "vecs tab = {v. v < 256 \<and> get_bit_tab tab v}"

lemma get_bit_tab_bit: "get_bit_tab tab v \<longleftrightarrow> bit (tab ! (v div 32)) (v mod 32)"
  by (simp add: get_bit_tab_def Let_def bits)

lemma length_tab [simp]: "length (set_bit_tab tab v) = length tab" "length (reset_bit_tab tab v) = length tab"
  by (simp_all add: set_bit_tab_def reset_bit_tab_def Let_def)

lemma div_mod_32: "(w div 32 = v div 32 \<and> v mod 32 = w mod 32) \<longleftrightarrow> w = (v :: nat)"
  by (metis div_mod_decomp)

lemma get_set_bit_tab:
  "v div 32 < length tab \<Longrightarrow> get_bit_tab (set_bit_tab tab v) w \<longleftrightarrow> w = v \<or> get_bit_tab tab w"
  using div_mod_32 [of w v]
  by (auto simp: get_bit_tab_bit set_bit_tab_def Let_def nth_list_update_if bits)

lemma get_reset_bit_tab:
  "v div 32 < length tab \<Longrightarrow> get_bit_tab (reset_bit_tab tab v) w \<longleftrightarrow> w \<noteq> v \<and> get_bit_tab tab w"
  using div_mod_32 [of w v]
  by (auto simp: get_bit_tab_bit reset_bit_tab_def Let_def nth_list_update_if bits)

lemma vecs_set [simp]: "length tab = 8 \<Longrightarrow> v < 256 \<Longrightarrow> vecs (set_bit_tab tab v) = insert v (vecs tab)"
  by (auto simp: vecs_def get_set_bit_tab)

lemma vecs_reset [simp]: "length tab = 8 \<Longrightarrow> v < 256 \<Longrightarrow> vecs (reset_bit_tab tab v) = vecs tab - {v}"
  by (auto simp: vecs_def get_reset_bit_tab)

lemma vecs_zero [simp]: "vecs (replicate 8 0) = {}"
  by (auto simp: vecs_def get_bit_tab_bit)

lemma finite_vecs [simp]: "finite (vecs tab)"
  by (rule finite_subset [of _ "{..<256}"]) (auto simp: vecs_def)

lemma get_bit_vecs: "v < 256 \<Longrightarrow> get_bit_tab tab v \<longleftrightarrow> v \<in> vecs tab"
  by (simp add: vecs_def)

lemma vecs_less: "v \<in> vecs tab \<Longrightarrow> v < 256"
  by (simp add: vecs_def)

text \<open>The search finds the largest vector of the table.\<close>

lemma fls_bit_top:
  assumes "w \<noteq> 0"
  obtains k where "fls_bit w = int k" "k < 32" "bit w k" "\<And>j. bit w j \<Longrightarrow> j \<le> k"
proof -
  note z = leading_zeros_iff [OF assms]
  let ?k = "31 - leading_zeros w"
  have "fls_bit w = int ?k" using z(1) by (simp add: fls_bit_def clz32_leading_zeros)
  moreover have "bit w ?k" using z(2) by simp
  moreover have "j \<le> ?k" if "bit w j" for j
  proof (rule ccontr)
    assume "\<not> j \<le> ?k"
    then have "32 - leading_zeros w \<le> j" using z(1) by simp
    then show False using z(1) z(3) [of "leading_zeros w"] that by simp
  qed
  moreover have "?k < 32" by simp
  ultimately show ?thesis by (intro that [of ?k])
qed

lemma highest_loop_spec:
  "case highest_loop tab n of r \<Rightarrow>
     (r = -1 \<and> (\<forall>w<n * 32. \<not> get_bit_tab tab w)) \<or>
     (\<exists>v. r = int v \<and> v < n * 32 \<and> get_bit_tab tab v \<and> (\<forall>w<n * 32. get_bit_tab tab w \<longrightarrow> w \<le> v))"
proof (induction n)
  case (Suc n)
  show ?case
  proof (cases "tab ! n = 0")
    case True
    have e: "w < n * 32" if "w < Suc n * 32" "get_bit_tab tab w" for w
    proof (rule ccontr)
      assume "\<not> w < n * 32"
      then have "w div 32 = n" using that by (simp add: div_nat_eqI)
      then show False using True that by (simp add: get_bit_tab_bit)
    qed
    have "highest_loop tab (Suc n) = highest_loop tab n" using True by simp
    moreover have "(\<forall>w<Suc n * 32. get_bit_tab tab w \<longrightarrow> Q w) \<longleftrightarrow> (\<forall>w<n * 32. get_bit_tab tab w \<longrightarrow> Q w)" for Q
      using e by auto
    moreover have "(\<forall>w<Suc n * 32. \<not> get_bit_tab tab w) \<longleftrightarrow> (\<forall>w<n * 32. \<not> get_bit_tab tab w)"
      using e by auto
    ultimately show ?thesis using Suc by (auto intro: less_trans)
  next
    case False
    obtain k where k: "fls_bit (tab ! n) = int k" "k < 32" "bit (tab ! n) k" "\<And>j. bit (tab ! n) j \<Longrightarrow> j \<le> k"
      by (rule fls_bit_top [OF False]) blast
    have "get_bit_tab tab (n * 32 + k)" using k by (simp add: get_bit_tab_bit)
    moreover have "w \<le> n * 32 + k" if "w < Suc n * 32" "get_bit_tab tab w" for w
    proof (cases "w div 32 = n")
      case True
      then have "w mod 32 \<le> k" using that(2) k(4) by (simp add: get_bit_tab_bit)
      then show ?thesis using True div_mult_mod_eq [of w 32] by linarith
    next
      case neq: False
      have "w div 32 < Suc n" using that(1) by (simp add: div_less_iff_less_mult)
      with neq have "w div 32 < n" by simp
      then show ?thesis by (simp add: div_less_iff_less_mult)
    qed
    ultimately show ?thesis using False k by (auto intro!: exI [of _ "n * 32 + k"])
  qed
qed simp

lemma highest_priority:
  "get_highest_priority_int tab = (if vecs tab = {} then -1 else int (Max (vecs tab)))"
proof -
  have "(get_highest_priority_int tab = -1 \<and> vecs tab = {}) \<or>
      (\<exists>v. get_highest_priority_int tab = int v \<and> v \<in> vecs tab \<and> (\<forall>w\<in>vecs tab. w \<le> v))"
    using highest_loop_spec [of tab 8] unfolding get_highest_priority_int_def vecs_def by auto
  then show ?thesis
  proof (elim disjE exE conjE)
    fix v assume v: "get_highest_priority_int tab = int v" "v \<in> vecs tab" "\<forall>w\<in>vecs tab. w \<le> v"
    then have "Max (vecs tab) = v" by (intro Max_eqI) auto
    then show ?thesis using v by auto
  qed simp
qed

section \<open>Effects of the operations\<close>

text \<open>
  The sizes of the tables of a local APIC. The slots in use come first (\<open>apic_init1\<close> fills them in
  order, the last one stays empty) and hold well-formed APICs, each in the slot of its index.
\<close>

definition apic_wf :: "apic_state \<Rightarrow> bool" where
  "apic_wf s \<longleftrightarrow> length (isr_tab s) = 8 \<and> length (tmr_tab s) = 8 \<and> length (irr_tab s) = 8
     \<and> length (lvt s) = APIC_LVT_NB \<and> length (icr s) = 2"

definition slots_ok :: "'a apic_bus_scheme \<Rightarrow> bool" where
  "slots_ok b \<longleftrightarrow> length (local_apics b) = 256 \<and>
     (\<forall>i<256. \<forall>s. local_apics b ! i = Some s \<longrightarrow> apic_wf s \<and> apic_idx s = i) \<and>
     (\<exists>n\<le>MAX_APICS. \<forall>i<256. local_apics b ! i \<noteq> None \<longleftrightarrow> i < n)"

lemma upd_apic_simps [simp]:
  "local_apics (upd_apic i f b) = (local_apics b)[i := map_option f (local_apics b ! i)]"
  "apic_irq_delivered (upd_apic i f b) = apic_irq_delivered b"
  "cpu_calls (upd_apic i f b) = cpu_calls b"
  "apic_bus.more (upd_apic i f b) = apic_bus.more b"
  by (simp_all add: upd_apic_def)

lemma cpu_do_simps [simp]:
  "local_apics (cpu_do c b) = local_apics b"
  "apic_irq_delivered (cpu_do c b) = apic_irq_delivered b"
  "cpu_calls (cpu_do c b) = cpu_calls b @ [c]"
  "apic_bus.more (cpu_do c b) = apic_bus.more b"
  "apic_at (cpu_do c b) i = apic_at b i"
  by (simp_all add: cpu_do_def apic_at_def)

lemma apic_at_upd:
  "i < length (local_apics b) \<Longrightarrow> local_apics b ! i \<noteq> None \<Longrightarrow>
   apic_at (upd_apic i f b) j = (if j = i then f (apic_at b i) else apic_at b j)"
  by (auto simp: apic_at_def)

lemma apic_update_irq_simps [simp]:
  "local_apics (apic_update_irq i b) = local_apics b"
  "apic_bus.more (apic_update_irq i b) = apic_bus.more b"
  by (simp_all add: apic_update_irq_def Let_def)

text \<open>What a request changes in the APIC that accepts it.\<close>

definition accept :: "nat \<Rightarrow> bool \<Rightarrow> apic_state \<Rightarrow> apic_state" where
  "accept v trig s = s\<lparr>irr_tab := set_bit_tab (irr_tab s) v,
     tmr_tab := (if trig then set_bit_tab else reset_bit_tab) (tmr_tab s) v\<rparr>"

lemma apic_set_irq_apics:
  "i < length (local_apics b) \<Longrightarrow>
   local_apics (apic_set_irq i v trig b) = (local_apics b)[i := map_option (accept v trig) (local_apics b ! i)]"
  by (cases "local_apics b ! i") (simp_all add: apic_set_irq_def Let_def accept_def)

lemma apic_set_irq_more [simp]: "apic_bus.more (apic_set_irq i v trig b) = apic_bus.more b"
  by (simp add: apic_set_irq_def Let_def)

lemma accept_wf [simp]: "apic_wf (accept v trig s) = apic_wf s"
  by (simp add: apic_wf_def accept_def)

lemma accept_fields [simp]:
  "isr_tab (accept v trig s) = isr_tab s" "tpr (accept v trig s) = tpr s"
  "spurious_vec (accept v trig s) = spurious_vec s" "cpu_env (accept v trig s) = cpu_env s"
  "lvt (accept v trig s) = lvt s" "apic_id (accept v trig s) = apic_id s" "apic_idx (accept v trig s) = apic_idx s"
  by (simp_all add: accept_def)

lemma accept_vecs [simp]:
  assumes "apic_wf s" "v < 256"
  shows "vecs (irr_tab (accept v trig s)) = insert v (vecs (irr_tab s))"
    "vecs (tmr_tab (accept v trig s)) = (if trig then insert v (vecs (tmr_tab s)) else vecs (tmr_tab s) - {v})"
  using assms by (simp_all add: accept_def apic_wf_def)

text \<open>A local APIC calls its CPU exactly if it is enabled and a vector is pending.\<close>

definition signals :: "apic_state \<Rightarrow> bool" where
  "signals s \<longleftrightarrow> bit (spurious_vec s) 8 \<and> apic_irq_pending s > 0"

lemma apic_update_irq_calls:
  "cpu_calls (apic_update_irq i b) =
     cpu_calls b @ (if signals (apic_at b i) then [Cpu_interrupt (cpu_env (apic_at b i)) INT_HARD] else [])"
  by (simp add: apic_update_irq_def Let_def signals_def APIC_SV_ENABLE_def bits and_exp_eq_0 [of _ 8, simplified])

lemma apic_set_irq_calls:
  assumes "i < length (local_apics b)" "local_apics b ! i = Some s"
  shows "cpu_calls (apic_set_irq i v trig b) =
    cpu_calls b @ (if signals (accept v trig s) then [Cpu_interrupt (cpu_env s) INT_HARD] else [])"
  using assms
  by (simp add: apic_set_irq_def Let_def apic_update_irq_calls apic_at_def accept_def)

section \<open>Addressing\<close>

text \<open>The loop over the addressed APICs visits their slots in ascending order.\<close>

lemma concat_rows: "concat (map (\<lambda>i. map (\<lambda>j. i * m + j) [0..<m]) [0..<n]) = [0..<n * m]"
proof (induction n)
  case (Suc n)
  have "map (\<lambda>j. n * m + j) [0..<m] = [n * m..<n * m + m]"
    using map_add_upt [of "n * m" m] by (simp add: add.commute)
  then show ?case using Suc upt_add_eq_append [of 0 "n * m" m] by (simp add: add.commute)
qed simp

lemma foreach_apic_flat:
  "foreach_apic bm code b =
     fold (\<lambda>n b. if get_bit_tab bm n \<and> local_apics b ! n \<noteq> None then code n b else b) [0..<256] b"
proof -
  let ?f = "\<lambda>n b. if get_bit_tab bm n \<and> local_apics b ! n \<noteq> None then code n b else b"
  have row: "fold ?f (map (\<lambda>j. i * 32 + j) [0..<32]) c =
      (let m = bm ! i in if m \<noteq> 0 then
          fold (\<lambda>j b. if m AND shl1 j \<noteq> 0 then
                        (case local_apics b ! (i * 32 + j) of None \<Rightarrow> b | Some _ \<Rightarrow> code (i * 32 + j) b)
                      else b) [0..<32] c
        else c)" for i c
  proof -
    have "fold ?f (map (\<lambda>j. i * 32 + j) [0..<32]) c = fold (\<lambda>j b. if bm ! i AND shl1 j \<noteq> 0 then
             (case local_apics b ! (i * 32 + j) of None \<Rightarrow> b | Some _ \<Rightarrow> code (i * 32 + j) b) else b) [0..<32] c"
      unfolding fold_map
      by (rule fold_cong) (auto simp: get_bit_tab_bit bits fun_eq_iff split: option.splits)
    moreover have "fold (\<lambda>j b. b) xs c = c" for xs :: "nat list" by (induction xs) simp_all
    ultimately show ?thesis by (simp add: Let_def)
  qed
  have rows: "fold ?f (concat (map (\<lambda>i. map (\<lambda>j. i * 32 + j) [0..<32]) is)) c
      = fold (\<lambda>i. fold ?f (map (\<lambda>j. i * 32 + j) [0..<32])) is c" for "is" c
    by (induction "is" arbitrary: c) (simp_all add: fold_append)
  have "[0..<256] = concat (map (\<lambda>i. map (\<lambda>j. i * 32 + j) [0..<32]) [0..<8])"
    by (simp only: concat_rows) simp
  then have "fold ?f [0..<256] b = fold (\<lambda>i. fold ?f (map (\<lambda>j. i * 32 + j) [0..<32])) [0..<8] b"
    by (rule ssubst) (rule rows)
  also have "\<dots> = foreach_apic bm code b"
    unfolding foreach_apic_def MAX_APIC_WORDS_def by (rule fold_cong) (simp_all only: row fun_eq_iff simp_thms)
  finally show ?thesis by (rule sym)
qed

text \<open>
  A loop whose body changes the addressed slot alone changes all of them, each once.
\<close>

lemma foreach_apic_local:
  assumes "\<And>i b. length (local_apics b) = 256 \<Longrightarrow> i < 256 \<Longrightarrow> local_apics b ! i \<noteq> None \<Longrightarrow>
      local_apics (code i b) = (local_apics b)[i := map_option f (local_apics b ! i)]"
    and "length (local_apics b) = 256"
  shows "length (local_apics (foreach_apic bm code b)) = 256"
    and "j < 256 \<Longrightarrow> local_apics (foreach_apic bm code b) ! j =
      (if get_bit_tab bm j then map_option f (local_apics b ! j) else local_apics b ! j)"
proof -
  define g where "g = (\<lambda>n b. if get_bit_tab bm n \<and> local_apics b ! n \<noteq> None then code n b else b)"
  have "n \<le> 256 \<Longrightarrow> length (local_apics (fold g [0..<n] b)) = 256 \<and>
      (\<forall>j<256. local_apics (fold g [0..<n] b) ! j =
        (if j < n \<and> get_bit_tab bm j then map_option f (local_apics b ! j) else local_apics b ! j))" for n
  proof (induction n)
    case (Suc n)
    let ?c = "fold g [0..<n] b"
    have c: "length (local_apics ?c) = 256"
      "\<forall>j<256. local_apics ?c ! j = (if j < n \<and> get_bit_tab bm j then map_option f (local_apics b ! j) else local_apics b ! j)"
      using Suc by simp_all
    have n: "n < 256" using Suc.prems by simp
    have e: "fold g [0..<Suc n] b = g n ?c" by simp
    show ?case
    proof (cases "get_bit_tab bm n \<and> local_apics ?c ! n \<noteq> None")
      case True
      then have "local_apics (g n ?c) = (local_apics ?c)[n := map_option f (local_apics ?c ! n)]"
        using assms(1) [OF c(1) n] by (simp add: g_def)
      then show ?thesis unfolding e using c n True by (auto simp: nth_list_update_if less_Suc_eq)
    next
      case False
      then have "g n ?c = ?c" by (auto simp: g_def)
      then show ?thesis unfolding e using c n False by (auto simp: less_Suc_eq)
    qed
  qed (use assms(2) in simp)
  from this [of 256] show "length (local_apics (foreach_apic bm code b)) = 256"
    "j < 256 \<Longrightarrow> local_apics (foreach_apic bm code b) ! j =
      (if get_bit_tab bm j then map_option f (local_apics b ! j) else local_apics b ! j)"
    by (simp_all add: foreach_apic_flat g_def)
qed

lemma fold_keeps: "(\<And>x b. P b \<Longrightarrow> P (f x b)) \<Longrightarrow> P b \<Longrightarrow> P (fold f xs b)"
  by (induction xs arbitrary: b) simp_all

lemma foreach_apic_more:
  assumes "\<And>i b. apic_bus.more (code i b) = apic_bus.more b"
  shows "apic_bus.more (foreach_apic bm code b) = apic_bus.more b"
  unfolding foreach_apic_flat
  by (rule fold_keeps [where P = "\<lambda>c. apic_bus.more c = apic_bus.more b"]) (simp_all add: assms)
lemma slots_okD:
  assumes "slots_ok b"
  shows "length (local_apics b) = 256"
    and "i < 256 \<Longrightarrow> local_apics b ! i = Some s \<Longrightarrow> apic_wf s"
    and "i < 256 \<Longrightarrow> local_apics b ! i = Some s \<Longrightarrow> apic_idx s = i"
    and "i < 256 \<Longrightarrow> local_apics b ! i = Some s \<Longrightarrow> i < MAX_APICS"
    and "i < 256 \<Longrightarrow> local_apics b ! i = Some s \<Longrightarrow> j \<le> i \<Longrightarrow> local_apics b ! j \<noteq> None"
proof -
  obtain n where n: "n \<le> MAX_APICS" "\<forall>i<256. local_apics b ! i \<noteq> None \<longleftrightarrow> i < n"
    using assms unfolding slots_ok_def by blast
  show "length (local_apics b) = 256" "i < 256 \<Longrightarrow> local_apics b ! i = Some s \<Longrightarrow> apic_wf s"
    "i < 256 \<Longrightarrow> local_apics b ! i = Some s \<Longrightarrow> apic_idx s = i"
    using assms by (simp_all add: slots_ok_def)
  assume i: "i < 256" "local_apics b ! i = Some s"
  then have "i < n" using n(2) by (metis option.distinct(1))
  with n show "i < MAX_APICS" by simp
  show "local_apics b ! j \<noteq> None" if "j \<le> i" using n(2) i \<open>i < n\<close> that by simp
qed

lemma find_dest_loop_Some:
  "find_dest_loop dest b is = Some i \<Longrightarrow> i \<in> set is \<and> (\<exists>s. local_apics b ! i = Some s \<and> apic_id s = dest)"
  by (induction "is") (auto split: option.splits if_splits)

lemma find_dest_loop_None:
  "find_dest_loop dest b [k..<n] = None \<Longrightarrow> k \<le> i \<Longrightarrow> i < n \<Longrightarrow>
   (\<And>j. j \<le> i \<Longrightarrow> local_apics b ! j \<noteq> None) \<Longrightarrow> local_apics b ! i = Some s \<Longrightarrow> apic_id s \<noteq> dest"
proof (induction "n - k" arbitrary: k)
  case (Suc m)
  then have "[k..<n] = k # [Suc k..<n]" by (simp add: upt_rec)
  moreover obtain a where "local_apics b ! k = Some a" using Suc.prems(2,4) by blast
  ultimately have "apic_id a \<noteq> dest" "find_dest_loop dest b [Suc k..<n] = None" "local_apics b ! k = Some a"
    using Suc.prems(1) by (auto split: if_splits)
  then show ?case using Suc.hyps(1) [of "Suc k"] Suc.hyps(2) Suc.prems by (cases "k = i") auto
qed simp

lemma apic_find_dest_Some:
  assumes "slots_ok b" "apic_find_dest dest b = Some i"
  shows "i < 256 \<and> (\<exists>s. local_apics b ! i = Some s \<and> apic_id s = dest)"
proof -
  have "unat dest < 256" using unsigned_less [of dest, where ?'a = nat] by simp
  then show ?thesis using assms(2) find_dest_loop_Some [of dest b "[0..<MAX_APICS]" i]
    by (auto simp: apic_find_dest_def MAX_APICS_def split: option.splits if_splits)
qed

lemma apic_find_dest_None:
  assumes "slots_ok b" "apic_find_dest dest b = None" "i < 256" "local_apics b ! i = Some s"
  shows "apic_id s \<noteq> dest"
proof -
  have "find_dest_loop dest b [0..<MAX_APICS] = None"
    using assms(2) by (auto simp: apic_find_dest_def split: option.splits if_splits)
  from find_dest_loop_None [OF this] show ?thesis using slots_okD(4,5) [OF assms(1) assms(3,4)] assms(4) by simp
qed

text \<open>The APICs an interrupt is addressed to.\<close>

definition destinations :: "u8 \<Rightarrow> u8 \<Rightarrow> 'a apic_bus_scheme \<Rightarrow> nat set" where
  "destinations dest dmode b = {i. i < 256 \<and> (\<exists>s. local_apics b ! i = Some s \<and>
     (if dmode = 0 then dest = 0xff \<or> apic_find_dest dest b = Some i else logical_match dest s))}"

lemma destinations_less: "i \<in> destinations dest dmode b \<Longrightarrow> i < 256"
  by (simp add: destinations_def)

lemma logical_loop_spec:
  "length bm = 8 \<Longrightarrow> k \<le> 255 \<Longrightarrow>
   get_bit_tab (logical_loop dest b [k..<255] bm) i \<longleftrightarrow> get_bit_tab bm i \<or>
     (k \<le> i \<and> i < 255 \<and> (\<forall>j. k \<le> j \<longrightarrow> j \<le> i \<longrightarrow> local_apics b ! j \<noteq> None)
       \<and> logical_match dest (the (local_apics b ! i)))"
proof (induction "255 - k" arbitrary: k bm)
  case 0
  then show ?case by auto
next
  case (Suc m)
  then have u: "[k..<255] = k # [Suc k..<255]" and k: "k < 255" by (simp_all add: upt_rec)
  have all: "(\<forall>j. k \<le> j \<longrightarrow> j \<le> i \<longrightarrow> P j) \<longleftrightarrow> P k \<and> (\<forall>j. Suc k \<le> j \<longrightarrow> j \<le> i \<longrightarrow> P j)" if "Suc k \<le> i" for P
    using that by (metis Suc_leD Suc_leI le_neq_implies_less order_refl)
  show ?case
  proof (cases "local_apics b ! k")
    case None
    then show ?thesis unfolding u by auto
  next
    case (Some s)
    let ?bm = "if logical_match dest s then set_bit_tab bm k else bm"
    have "k div 32 < 8" using k by simp
    then have "get_bit_tab ?bm i \<longleftrightarrow> get_bit_tab bm i \<or> (i = k \<and> logical_match dest s)"
      using Suc.prems(1) by (auto simp: get_set_bit_tab)
    moreover have "logical_loop dest b [k..<255] bm = logical_loop dest b [Suc k..<255] ?bm"
      unfolding u using Some by simp
    moreover have "length ?bm = 8" "Suc k \<le> 255" "m = 255 - Suc k" using Suc.prems Suc.hyps(2) k by simp_all
    ultimately show ?thesis
      using Suc.hyps(1) [of "Suc k" ?bm] Some k all [of "\<lambda>j. local_apics b ! j \<noteq> None"]
      by (cases "i = k") (auto simp: le_less Suc_le_eq)
  qed
qed

lemma delivery_bitmask:
  assumes "slots_ok b" "i < 256"
  shows "get_bit_tab (apic_get_delivery_bitmask dest dmode b) i \<and> local_apics b ! i \<noteq> None
    \<longleftrightarrow> i \<in> destinations dest dmode b"
proof (cases "dmode = 0")
  case True
  have ones: "get_bit_tab (replicate MAX_APIC_WORDS 0xffffffff) i"
  proof -
    have "(0xffffffff :: u32) = mask 32" by (simp add: mask_eq_exp_minus_1)
    then have "bit (0xffffffff :: u32) (i mod 32)" by (simp only: bit_mask_iff) simp
    then show ?thesis using assms(2) by (simp add: get_bit_tab_bit MAX_APIC_WORDS_def)
  qed
  have zero: "\<not> get_bit_tab (replicate MAX_APIC_WORDS 0) i"
    using assms(2) by (simp add: get_bit_tab_bit MAX_APIC_WORDS_def)
  show ?thesis
  proof (cases "apic_find_dest dest b")
    case None
    then show ?thesis using True ones zero assms(2)
      by (auto simp: apic_get_delivery_bitmask_def destinations_def)
  next
    case (Some k)
    then have "k div 32 < 8"
      using apic_find_dest_Some [OF assms(1) Some] by (simp add: div_less_iff_less_mult)
    then show ?thesis using True ones zero assms(2) Some
      by (auto simp: apic_get_delivery_bitmask_def destinations_def get_set_bit_tab MAX_APIC_WORDS_def)
  qed
next
  case False
  have zero: "\<not> get_bit_tab (replicate 8 0) i" using assms(2) by (simp add: get_bit_tab_bit)
  then have "get_bit_tab (apic_get_delivery_bitmask dest dmode b) i \<longleftrightarrow>
      i < 255 \<and> (\<forall>j\<le>i. local_apics b ! j \<noteq> None) \<and> logical_match dest (the (local_apics b ! i))"
    using logical_loop_spec [of "replicate 8 0" 0 dest b i] False
    by (simp add: apic_get_delivery_bitmask_def MAX_APICS_def MAX_APIC_WORDS_def)
  then show ?thesis
    using slots_okD(4,5) [OF assms(1,2)] assms(2) False
    by (auto simp: destinations_def MAX_APICS_def)
qed

text \<open>
  A fixed (or external) interrupt is accepted by exactly the APICs it is addressed to, a
  lowest-priority one by the first of them, and nothing else changes in any APIC.
\<close>

lemma fixed_delivery:
  assumes "slots_ok b" "delivery_mode = APIC_DM_FIXED \<or> delivery_mode = APIC_DM_EXTINT" "i < 256"
  shows "local_apics (apic_deliver_irq dest dmode delivery_mode vector polarity trigger_mode b) ! i =
    (if i \<in> destinations dest dmode b then map_option (accept (unat vector) (trigger_mode \<noteq> 0)) (local_apics b ! i)
     else local_apics b ! i)"
proof -
  let ?bm = "apic_get_delivery_bitmask dest dmode b"
  have "apic_deliver_irq dest dmode delivery_mode vector polarity trigger_mode b =
      foreach_apic ?bm (\<lambda>i. apic_set_irq i (unat vector) (trigger_mode \<noteq> 0)) b"
    using assms(2)
    by (auto simp: apic_deliver_irq_def apic_bus_deliver_def Let_def APIC_DM_FIXED_def APIC_DM_EXTINT_def
        APIC_DM_LOWPRI_def APIC_DM_SMI_def APIC_DM_NMI_def APIC_DM_INIT_def)
  moreover have "local_apics (foreach_apic ?bm (\<lambda>i. apic_set_irq i (unat vector) (trigger_mode \<noteq> 0)) b) ! i =
      (if get_bit_tab ?bm i then map_option (accept (unat vector) (trigger_mode \<noteq> 0)) (local_apics b ! i) else local_apics b ! i)"
    by (rule foreach_apic_local(2)) (simp_all add: apic_set_irq_apics slots_okD(1) [OF assms(1)] assms(3))
  ultimately show ?thesis
    using delivery_bitmask [OF assms(1,3), of dest dmode] by (cases "local_apics b ! i") auto
qed

section \<open>Priorities\<close>

text \<open>
  The sixteen priority classes are the upper digits of the vectors. A vector is held back unless
  its class is above the class of the task priority and of every vector in service, or there is
  nothing to be above of: task priority zero, and only vectors of class 0 in service.
\<close>

definition held_back :: "apic_state \<Rightarrow> nat \<Rightarrow> bool" where
  "held_back s v \<longleftrightarrow>
     \<not> (unat (tpr s) div 16 < v div 16 \<and> (\<forall>w\<in>vecs (isr_tab s). w div 16 < v div 16)) \<and>
     \<not> (tpr s = 0 \<and> (\<forall>w\<in>vecs (isr_tab s). w div 16 = 0))"

lemma class_bits:
  assumes "x < 256"
  shows "int x AND 0xf0 = 16 * int (x div 16)"
proof -
  have "list_all (\<lambda>x. int x AND 0xf0 = 16 * int (x div 16)) [0..<256]" by code_simp
  then show ?thesis using assms by (simp add: list_all_iff)
qed

lemma class_Max:
  assumes "finite S" "S \<noteq> {}"
  shows "(\<forall>w\<in>S. w div 16 < k) \<longleftrightarrow> Max S div 16 < (k :: nat)"
    and "(\<forall>w\<in>S. w div 16 = 0) \<longleftrightarrow> Max S div 16 = 0"
proof -
  have le: "w div 16 \<le> Max S div 16" if "w \<in> S" for w using assms that by (simp add: div_le_mono)
  then show "(\<forall>w\<in>S. w div 16 < k) \<longleftrightarrow> Max S div 16 < k"
    using Max_in [OF assms] by (meson le_less_trans)
  show "(\<forall>w\<in>S. w div 16 = 0) \<longleftrightarrow> Max S div 16 = 0"
    using Max_in [OF assms] le by (metis le_zero_eq)
qed

lemma Max_vecs: "vecs tab \<noteq> {} \<Longrightarrow> Max (vecs tab) \<in> vecs tab" "vecs tab \<noteq> {} \<Longrightarrow> Max (vecs tab) < 256"
  using Max_in [OF finite_vecs, of tab] vecs_less by auto

lemma apic_get_ppr_class:
  defines "k \<equiv> \<lambda>s. if vecs (isr_tab s) = {} then 0 else Max (vecs (isr_tab s)) div 16"
  shows "apic_get_ppr s AND 0xf0 = 16 * int (max (unat (tpr s) div 16) (k s))"
    and "apic_get_ppr s = 0 \<longleftrightarrow> tpr s = 0 \<and> k s = 0"
proof -
  let ?S = "vecs (isr_tab s)" and ?t = "unat (tpr s)"
  have t: "?t < 256" using unsigned_less [of "tpr s", where ?'a = nat] by simp
  have k: "k s < 16" using Max_vecs(2) [of "isr_tab s"] by (auto simp: k_def div_less_iff_less_mult)
  have ppr: "apic_get_ppr s = int (if k s \<le> ?t div 16 then ?t else k s * 16)"
  proof -
    have "uint (tpr s) div 16 = int (?t div 16)" by (simp add: zdiv_int)
    moreover have "(if get_highest_priority_int (isr_tab s) < 0 then 0 else get_highest_priority_int (isr_tab s)) div 16 = int (k s)"
      by (simp add: highest_priority k_def zdiv_int)
    ultimately show ?thesis unfolding apic_get_ppr_def Let_def by simp
  qed
  then show "apic_get_ppr s AND 0xf0 = 16 * int (max (?t div 16) (k s))"
    using class_bits [of ?t] class_bits [of "k s * 16"] t k by (auto simp: max_def)
  show "apic_get_ppr s = 0 \<longleftrightarrow> tpr s = 0 \<and> k s = 0"
    unfolding ppr by (auto simp: unat_eq_zero)
qed

lemma apic_irq_pending_eq:
  "apic_irq_pending s =
     (if vecs (irr_tab s) = {} then 0
      else if held_back s (Max (vecs (irr_tab s))) then - 1
      else int (Max (vecs (irr_tab s))))"
proof (cases "vecs (irr_tab s) = {}")
  case False
  let ?m = "Max (vecs (irr_tab s))" and ?S = "vecs (isr_tab s)"
  define k where "k = (if ?S = {} then 0 else Max ?S div 16)"
  have m: "?m < 256" using False by (rule Max_vecs(2))
  have S: "(\<forall>w\<in>?S. w div 16 < j) \<longleftrightarrow> ?S = {} \<or> k < j" "(\<forall>w\<in>?S. w div 16 = 0) \<longleftrightarrow> k = 0" for j
    using class_Max [of ?S] by (auto simp: k_def)
  have "held_back s ?m \<longleftrightarrow> apic_get_ppr s \<noteq> 0 \<and> ?m div 16 \<le> max (unat (tpr s) div 16) k"
    unfolding held_back_def S apic_get_ppr_class(2) k_def by (auto simp: max_def)
  moreover have "(int ?m AND 0xf0) \<le> (apic_get_ppr s AND 0xf0) \<longleftrightarrow> ?m div 16 \<le> max (unat (tpr s) div 16) k"
    unfolding class_bits [OF m] apic_get_ppr_class(1) k_def [symmetric] by linarith
  ultimately show ?thesis using False by (simp add: apic_irq_pending_def highest_priority Let_def)
qed (simp add: apic_irq_pending_def highest_priority)

section \<open>Relations between the APICs before and after an operation\<close>

text \<open>
  A relation between local APICs is lifted to all slots. One that is reflexive, transitive and
  holds between an APIC and the same APIC with one more request holds across every operation
  that delivers interrupts; if dropping a request is allowed as well, it also holds across
  lowering the line of the 8259 pair.
\<close>

definition slotwise :: "(apic_state \<Rightarrow> apic_state \<Rightarrow> bool) \<Rightarrow> 'a apic_bus_scheme \<Rightarrow> 'b apic_bus_scheme \<Rightarrow> bool" where
  "slotwise R b c \<longleftrightarrow> list_all2 (rel_option R) (local_apics b) (local_apics c)"

lemma slotwiseD:
  assumes "slotwise R b c" "i < length (local_apics b)"
  shows "local_apics b ! i = None \<Longrightarrow> local_apics c ! i = None"
    and "local_apics b ! i = Some s \<Longrightarrow> \<exists>t. local_apics c ! i = Some t \<and> R s t"
    and "local_apics c ! i = Some t \<Longrightarrow> \<exists>s. local_apics b ! i = Some s \<and> R s t"
    and "length (local_apics c) = length (local_apics b)"
proof -
  have "rel_option R (local_apics b ! i) (local_apics c ! i)"
    using assms by (simp add: slotwise_def list_all2_conv_all_nth)
  then show "local_apics b ! i = None \<Longrightarrow> local_apics c ! i = None"
    "local_apics b ! i = Some s \<Longrightarrow> \<exists>t. local_apics c ! i = Some t \<and> R s t"
    "local_apics c ! i = Some t \<Longrightarrow> \<exists>s. local_apics b ! i = Some s \<and> R s t"
    by (auto elim: option.rel_cases)
  show "length (local_apics c) = length (local_apics b)"
    using assms(1) by (simp add: slotwise_def list_all2_lengthD)
qed

locale slot_relation =
  fixes R :: "apic_state \<Rightarrow> apic_state \<Rightarrow> bool"
  assumes refl: "R s s"
    and trans: "R s t \<Longrightarrow> R t u \<Longrightarrow> R s u"
    and accept: "R s (accept v trig s)"
begin

lemma same_slots: "local_apics c = local_apics b \<Longrightarrow> slotwise R b c"
  by (simp add: slotwise_def list_all2_refl option.rel_refl refl)

lemma slots_refl [simp]: "slotwise R b b"
  by (rule same_slots) simp

lemma slots_trans: "slotwise R b c \<Longrightarrow> slotwise R c d \<Longrightarrow> slotwise R b d"
  unfolding slotwise_def
  by (erule list_all2_trans [rotated 1], assumption) (auto intro: trans elim!: option.rel_cases)

lemma slots_upd:
  assumes "\<And>s. local_apics b ! i = Some s \<Longrightarrow> R s (f s)"
  shows "slotwise R b (upd_apic i f b)"
proof -
  have "rel_option R (local_apics b ! i) (map_option f (local_apics b ! i))"
    using assms by (cases "local_apics b ! i") simp_all
  then show ?thesis
    by (simp add: slotwise_def list_all2_conv_all_nth nth_list_update_if option.rel_refl refl)
qed

lemma slots_fold: "(\<And>x b. slotwise R b (f x b)) \<Longrightarrow> slotwise R b (fold f xs b)"
  by (induction xs arbitrary: b) (auto intro: slots_trans)

lemma slots_foreach: "(\<And>i b. slotwise R b (code i b)) \<Longrightarrow> slotwise R b (foreach_apic bm code b)"
  unfolding foreach_apic_flat by (rule slots_fold) simp

lemma slots_update_irq [simp]: "slotwise R b (apic_update_irq i b)"
  by (rule same_slots) simp

lemma slots_cpu_do [simp]: "slotwise R b (cpu_do c b)"
  by (rule same_slots) simp

lemma slots_set_irq [simp]: "slotwise R b (apic_set_irq i v trig b)"
proof (cases "i < length (local_apics b)")
  case True
  then have "slotwise R b (apic_set_irq i v trig b) \<longleftrightarrow> slotwise R b (upd_apic i (Apic.accept v trig) b)"
    by (simp add: slotwise_def apic_set_irq_apics)
  then show ?thesis by (simp add: slots_upd accept)
next
  case False
  then show ?thesis by (intro same_slots) (simp add: apic_set_irq_def Let_def list_update_beyond)
qed

lemma slots_local_deliver [simp]: "slotwise R b (apic_local_deliver i v b)"
  by (simp add: apic_local_deliver_def Let_def)

lemma slots_raise_pic_intr: "level \<noteq> 0 \<Longrightarrow> slotwise R b (apic_deliver_pic_intr i level b)"
  by (simp add: apic_deliver_pic_intr_def)

lemma slots_bus_deliver [simp]: "slotwise R b (apic_bus_deliver bm mode v pol trig b)"
  by (simp add: apic_bus_deliver_def Let_def slots_foreach split: option.split)

lemma slots_deliver_irq [simp]: "slotwise R b (apic_deliver_irq dest dmode mode v pol trig b)"
  by (simp add: apic_deliver_irq_def)

end

locale slot_relation_lower = slot_relation +
  assumes lower: "R s (s\<lparr>irr_tab := reset_bit_tab (irr_tab s) v\<rparr>)"
begin

lemma slots_deliver_pic_intr [simp]: "slotwise R b (apic_deliver_pic_intr i level b)"
  by (simp add: apic_deliver_pic_intr_def Let_def)
     (auto intro!: slots_trans [OF slots_upd slots_cpu_do] lower)

end

text \<open>
  An operation is calm if it changes, in every slot, at most the requested vectors and their
  trigger modes: what the guest set up and what is in service stays. It grows the requests if
  in addition no request is lost.
\<close>

definition calm_apic :: "apic_state \<Rightarrow> apic_state \<Rightarrow> bool" where
  "calm_apic s t \<longleftrightarrow> (\<exists>rs ts. t = s\<lparr>irr_tab := rs, tmr_tab := ts\<rparr> \<and>
     length rs = length (irr_tab s) \<and> length ts = length (tmr_tab s))"

definition grow_apic :: "apic_state \<Rightarrow> apic_state \<Rightarrow> bool" where
  "grow_apic s t \<longleftrightarrow> vecs (irr_tab s) \<subseteq> vecs (irr_tab t)"

abbreviation calm :: "'a apic_bus_scheme \<Rightarrow> 'b apic_bus_scheme \<Rightarrow> bool" where
  "calm \<equiv> slotwise calm_apic"

lemma calm_apicD:
  assumes "calm_apic s t"
  shows "isr_tab t = isr_tab s" "apic_idx t = apic_idx s" "spurious_vec t = spurious_vec s" "tpr t = tpr s"
    "apic_id t = apic_id s" "log_dest t = log_dest s" "dest_mode t = dest_mode s" "lvt t = lvt s"
    "cpu_env t = cpu_env s" "icr t = icr s" "apicbase t = apicbase s" "apic_wf s \<longrightarrow> apic_wf t"
  using assms by (auto simp: calm_apic_def apic_wf_def)

lemma vecs_set_mono: "vecs tab \<subseteq> vecs (set_bit_tab tab v)"
  by (auto simp: vecs_def get_bit_tab_bit set_bit_tab_def Let_def nth_list_update_if bits)

lemma calm_apicI: "length rs = length (irr_tab s) \<Longrightarrow> length ts = length (tmr_tab s) \<Longrightarrow> calm_apic s (s\<lparr>irr_tab := rs, tmr_tab := ts\<rparr>)"
  by (auto simp: calm_apic_def)

interpretation calm: slot_relation_lower calm_apic
proof
  show "calm_apic s s" for s using calm_apicI [of "irr_tab s" s "tmr_tab s"] by simp
  show "calm_apic s u" if st: "calm_apic s t" "calm_apic t u" for s t u
  proof -
    obtain rs ts where t: "t = s\<lparr>irr_tab := rs, tmr_tab := ts\<rparr>" "length rs = length (irr_tab s)" "length ts = length (tmr_tab s)"
      using st(1) unfolding calm_apic_def by blast
    obtain rs' ts' where "u = t\<lparr>irr_tab := rs', tmr_tab := ts'\<rparr>" "length rs' = length (irr_tab t)" "length ts' = length (tmr_tab t)"
      using st(2) unfolding calm_apic_def by blast
    then show ?thesis using calm_apicI [of rs' s ts'] t by simp
  qed
  show "calm_apic s (accept v trig s)" for s v trig by (simp add: accept_def calm_apicI)
  show "calm_apic s (s\<lparr>irr_tab := reset_bit_tab (irr_tab s) v\<rparr>)" for s v
    using calm_apicI [of "reset_bit_tab (irr_tab s) v" s "tmr_tab s"] by simp
qed

interpretation grow: slot_relation grow_apic
  by unfold_locales (auto simp: grow_apic_def accept_def vecs_set_mono [THEN subsetD])

lemma calm_slots:
  assumes "calm b c" "slots_ok b"
  shows "slots_ok c"
proof -
  note D = slotwiseD [OF assms(1), unfolded slots_okD(1) [OF assms(2)]]
  have e: "local_apics c ! i \<noteq> None \<longleftrightarrow> local_apics b ! i \<noteq> None" if "i < 256" for i
    using D(1,2) [OF that] by (cases "local_apics b ! i") auto
  have w: "apic_wf s \<and> apic_idx s = i" if "i < 256" "local_apics c ! i = Some s" for i s
    using D(3) [OF that] slots_okD(2,3) [OF assms(2) that(1)] by (auto dest: calm_apicD)
  have "length (local_apics c) = 256" using D(4) [of 0] by simp
  with w e show ?thesis using assms(2) unfolding slots_ok_def by simp
qed

lemma slots_ok_upd:
  assumes "slots_ok b" "\<And>s. local_apics b ! i = Some s \<Longrightarrow> apic_wf s \<Longrightarrow> apic_wf (f s) \<and> apic_idx (f s) = apic_idx s"
  shows "slots_ok (upd_apic i f b)"
proof -
  have n: "local_apics (upd_apic i f b) ! j = None \<longleftrightarrow> local_apics b ! j = None" for j
    by (simp add: nth_list_update_if)
  have s: "apic_wf t \<and> apic_idx t = j" if "j < 256" "local_apics (upd_apic i f b) ! j = Some t" for j t
    using that slots_okD(2,3) [OF assms(1), of j] assms(2)
    by (cases "local_apics b ! j") (auto simp: nth_list_update_if split: if_splits)
  obtain m where m: "m \<le> MAX_APICS" "\<forall>j<256. local_apics b ! j \<noteq> None \<longleftrightarrow> j < m"
    using assms(1) unfolding slots_ok_def by blast
  show ?thesis
    unfolding slots_ok_def
  proof (intro conjI)
    show "length (local_apics (upd_apic i f b)) = 256" using slots_okD(1) [OF assms(1)] by simp
    show "\<forall>j<256. \<forall>t. local_apics (upd_apic i f b) ! j = Some t \<longrightarrow> apic_wf t \<and> apic_idx t = j"
      using s by blast
    show "\<exists>m\<le>MAX_APICS. \<forall>j<256. local_apics (upd_apic i f b) ! j \<noteq> None \<longleftrightarrow> j < m"
      using m n by (intro exI [of _ m]) simp
  qed
qed

text \<open>
  The addressees of an interrupt depend on the identifiers and the logical destination registers
  alone, so calm operations do not change them.
\<close>

definition same_address :: "apic_state \<Rightarrow> apic_state \<Rightarrow> bool" where
  "same_address s t \<longleftrightarrow> apic_id t = apic_id s \<and> log_dest t = log_dest s \<and> dest_mode t = dest_mode s"

lemma find_dest_loop_cong:
  assumes "slotwise same_address b c" "set is \<subseteq> {..<length (local_apics b)}"
  shows "find_dest_loop dest c is = find_dest_loop dest b is"
  using assms(2)
proof (induction "is")
  case (Cons i "is")
  then show ?case using slotwiseD [OF assms(1), of i]
    by (cases "local_apics b ! i") (auto simp: same_address_def)
qed simp

lemma destinations_cong:
  assumes "slotwise same_address b c" "slots_ok b"
  shows "destinations dest dmode c = destinations dest dmode b"
proof -
  have l: "length (local_apics b) = 256" by (rule slots_okD(1) [OF assms(2)])
  note D = slotwiseD [OF assms(1), unfolded l]
  have "unat dest < 256" using unsigned_less [of dest, where ?'a = nat] by simp
  moreover have "find_dest_loop dest c [0..<MAX_APICS] = find_dest_loop dest b [0..<MAX_APICS]"
    by (rule find_dest_loop_cong [OF assms(1)]) (auto simp: l MAX_APICS_def)
  ultimately have find: "apic_find_dest dest c = apic_find_dest dest b"
  proof (cases "local_apics b ! unat dest")
    case (Some s)
    obtain t where "local_apics c ! unat dest = Some t" "same_address s t"
      using D(2) [OF \<open>unat dest < 256\<close> Some] by blast
    then show ?thesis using Some \<open>find_dest_loop dest c _ = _\<close> by (simp add: apic_find_dest_def same_address_def)
  qed (simp add: D(1) apic_find_dest_def)
  have "i \<in> destinations dest dmode c \<longleftrightarrow> i \<in> destinations dest dmode b" if i: "i < 256" for i
  proof (cases "local_apics b ! i")
    case (Some s)
    then obtain t where t: "local_apics c ! i = Some t" "same_address s t" using D(2) [OF i] by blast
    then have "logical_match dest t = logical_match dest s" by (simp add: logical_match_def same_address_def)
    then show ?thesis using Some t(1) find by (simp add: destinations_def)
  qed (use D(1) i in \<open>simp add: destinations_def\<close>)
  then show ?thesis by (intro set_eqI) (metis destinations_less)
qed

lemma calm_destinations:
  assumes "calm b c" "slots_ok b"
  shows "destinations dest dmode c = destinations dest dmode b"
proof (rule destinations_cong [OF _ assms(2)])
  have "rel_option same_address x y" if "rel_option calm_apic x y" for x y
    using that by (auto elim!: option.rel_cases dest: calm_apicD simp: same_address_def)
  then show "slotwise same_address b c" using assms(1) unfolding slotwise_def by (auto elim: list_all2_mono)
qed

lemma destinations_upd:
  assumes "slots_ok b" "\<And>s. same_address s (f s)"
  shows "destinations dest dmode (upd_apic i f b) = destinations dest dmode b"
proof (rule destinations_cong [OF _ assms(1)])
  have "rel_option same_address x x" for x by (cases x) (simp_all add: same_address_def)
  moreover have "rel_option same_address x (map_option f x)" for x using assms(2) by (cases x) simp_all
  ultimately show "slotwise same_address b (upd_apic i f b)"
    by (simp add: slotwise_def list_all2_conv_all_nth nth_list_update_if)
qed

end
