(* ===== verification/Ioapic.thy ===== *)
theory Ioapic
  imports Apic I8259
begin

text \<open>
  The I/O APIC (\<open>hw/ioapic.c\<close>) and how it is wired to the local APICs and to the 8259 pair.
  \<open>ioapic_state\<close> is \<open>struct IOAPICState\<close>. \<open>intr_sys\<close> is the interrupt hardware of the PC: the
  local APICs, the array \<open>ioapics\<close>, the controller \<open>isa_pic\<close> and, for each CPU in order, the
  slot of its local APIC (\<open>env->apic_state\<close>), \<open>None\<close> for a CPU without one.
\<close>

section \<open>State\<close>

definition IOAPIC_NUM_PINS :: nat where "IOAPIC_NUM_PINS = 24"
definition MAX_IOAPICS :: nat where "MAX_IOAPICS = 1"

definition IOAPIC_LVT_MASKED :: u64 where "IOAPIC_LVT_MASKED = shl1 16"
definition IOAPIC_LVT_REMOTE_IRR :: u64 where "IOAPIC_LVT_REMOTE_IRR = shl1 14"

record ioapic_state =
  ioapic_id :: u8
  ioregsel :: u8
  ioapic_irr :: u32
  ioredtbl :: "u64 list"

record intr_sys = apic_bus +
  ioapics :: "ioapic_state option list"
  isa_pic :: pic_state2
  cpu_apics :: "nat option list"

definition ioapic_at :: "intr_sys \<Rightarrow> nat \<Rightarrow> ioapic_state" where
  "ioapic_at b k = the (ioapics b ! k)"

definition upd_ioapic :: "nat \<Rightarrow> (ioapic_state \<Rightarrow> ioapic_state) \<Rightarrow> intr_sys \<Rightarrow> intr_sys" where
  "upd_ioapic k f b = b\<lparr>ioapics := (ioapics b)[k := map_option f (ioapics b ! k)]\<rparr>"

section \<open>The line of the 8259 pair to the CPUs\<close>

definition apic_accept_pic_intr :: "nat option \<Rightarrow> intr_sys \<Rightarrow> int" where
  "apic_accept_pic_intr d b =
     (case d of
        None \<Rightarrow> - 1
      | Some i \<Rightarrow>
          (let s = apic_at b i; lvt0 = lvt s ! APIC_LVT_LINT0
           in if apicbase s AND MSR_IA32_APICBASE_ENABLE = 0 \<or> lvt0 AND APIC_LVT_MASKED = 0 then 1 else 0))"

text \<open>
  The handler of the line. Either every CPU of a PC has a local APIC or none has
  (\<open>pc_new_cpu\<close>), so where the first one has, \<open>d\<close> is never \<open>None\<close> in the loop.
\<close>

definition pic_irq_request :: "int \<Rightarrow> intr_sys \<Rightarrow> intr_sys" where
  "pic_irq_request level b =
     (if cpu_apics b ! 0 \<noteq> None then
        fold (\<lambda>d b. if apic_accept_pic_intr d b \<noteq> 0 then apic_deliver_pic_intr (the d) level b else b)
          (cpu_apics b) b
      else if level \<noteq> 0 then cpu_do (Cpu_interrupt 0 INT_HARD) b
      else cpu_do (Cpu_reset_interrupt 0 INT_HARD) b)"

text \<open>
  An operation of the 8259 pair in the system: the levels it drives on its line, which it drives
  last, reach the handler.
\<close>

definition on_pic :: "(pic_state2 \<Rightarrow> pic_state2 \<times> int list) \<Rightarrow> intr_sys \<Rightarrow> intr_sys" where
  "on_pic f b = (let (p, levels) = f (isa_pic b) in fold pic_irq_request levels (b\<lparr>isa_pic := p\<rparr>))"

definition sys_pic_read_irq :: "intr_sys \<Rightarrow> nat \<times> intr_sys" where
  "sys_pic_read_irq b = (fst (pic_read_irq (isa_pic b)), on_pic (\<lambda>p. snd (pic_read_irq p)) b)"

section \<open>Service\<close>

text \<open>One pin in the loop of \<open>ioapic_service\<close>.\<close>

definition service_pin :: "nat \<Rightarrow> nat \<Rightarrow> intr_sys \<Rightarrow> intr_sys" where
  "service_pin k i b =
     (let m = (shl1 i :: u32); s = ioapic_at b k
      in if ioapic_irr s AND m = 0 then b
         else
           let entry = ioredtbl s ! i
           in if entry AND IOAPIC_LVT_MASKED \<noteq> 0 then b
              else
                let trig_mode = (ucast (drop_bit 15 entry AND 1) :: u8);
                    dest = (ucast (drop_bit 56 entry) :: u8);
                    dest_mode = (ucast (drop_bit 11 entry AND 1) :: u8);
                    delivery_mode = (ucast (drop_bit 8 entry AND 7) :: u8);
                    polarity = (ucast (drop_bit 13 entry AND 1) :: u8);
                    b = (if trig_mode = 0
                         then upd_ioapic k (\<lambda>s. s\<lparr>ioapic_irr := ioapic_irr s AND NOT m\<rparr>) b
                         else upd_ioapic k (\<lambda>s. s\<lparr>ioredtbl :=
                                (ioredtbl s)[i := ioredtbl s ! i OR IOAPIC_LVT_REMOTE_IRR]\<rparr>) b);
                    (vector, b) = (if delivery_mode = APIC_DM_EXTINT
                                   then (let (n, b) = sys_pic_read_irq b in (of_nat n, b))
                                   else (ucast (entry AND 0xff), b))
                in apic_deliver_irq dest dest_mode delivery_mode vector polarity trig_mode b)"

definition ioapic_service :: "nat \<Rightarrow> intr_sys \<Rightarrow> intr_sys" where
  "ioapic_service k = fold (service_pin k) [0..<IOAPIC_NUM_PINS]"

definition ioapic_set_irq :: "nat \<Rightarrow> nat \<Rightarrow> int \<Rightarrow> intr_sys \<Rightarrow> intr_sys" where
  "ioapic_set_irq k vector level b =
     (let vector = (if vector = 0 then 2 else vector)
      in if vector < IOAPIC_NUM_PINS then
           let m = (shl1 vector :: u32); entry = ioredtbl (ioapic_at b k) ! vector;
               raise = (\<lambda>b. ioapic_service k (upd_ioapic k (\<lambda>s. s\<lparr>ioapic_irr := ioapic_irr s OR m\<rparr>) b))
           in if drop_bit 15 entry AND 1 = 1 then
                (if level \<noteq> 0 then raise b
                 else upd_ioapic k (\<lambda>s. s\<lparr>ioapic_irr := ioapic_irr s AND NOT m\<rparr>) b)
              else if level \<noteq> 0 \<and> entry AND IOAPIC_LVT_MASKED = 0 then raise b
              else b
         else b)"

definition eoi_pin :: "nat \<Rightarrow> nat \<Rightarrow> nat \<Rightarrow> intr_sys \<Rightarrow> intr_sys" where
  "eoi_pin vector k n b =
     (let entry = ioredtbl (ioapic_at b k) ! n
      in if entry AND IOAPIC_LVT_REMOTE_IRR \<noteq> 0 \<and> unat (entry AND 0xff) = vector then
           let b = upd_ioapic k (\<lambda>s. s\<lparr>ioredtbl := (ioredtbl s)[n := entry AND NOT IOAPIC_LVT_REMOTE_IRR]\<rparr>) b
           in if entry AND IOAPIC_LVT_MASKED = 0 \<and> ioapic_irr (ioapic_at b k) AND shl1 n \<noteq> 0
              then ioapic_service k b else b
         else b)"

definition ioapic_eoi_broadcast :: "nat \<Rightarrow> intr_sys \<Rightarrow> intr_sys" where
  "ioapic_eoi_broadcast vector =
     fold (\<lambda>k b. case ioapics b ! k of
                    None \<Rightarrow> b
                  | Some _ \<Rightarrow> fold (eoi_pin vector k) [0..<IOAPIC_NUM_PINS] b) [0..<MAX_IOAPICS]"

section \<open>Registers\<close>

definition ioapic_index :: "u8 \<Rightarrow> int" where
  "ioapic_index sel = (uint sel - 0x10) div 2"

definition ioapic_mem_readl :: "u64 \<Rightarrow> ioapic_state \<Rightarrow> u32" where
  "ioapic_mem_readl addr s =
     (if addr AND 0xff = 0x00 then ucast (ioregsel s)
      else if addr AND 0xff = 0x10 then
        (if ioregsel s = 0x00 then push_bit 24 (ucast (ioapic_id s))
         else if ioregsel s = 0x01 then 0x11 OR push_bit 16 (of_nat (IOAPIC_NUM_PINS - 1))
         else if ioregsel s = 0x02 then 0
         else
           let index = ioapic_index (ioregsel s)
           in if 0 \<le> index \<and> index < int IOAPIC_NUM_PINS then
                (if ioregsel s AND 1 \<noteq> 0 then ucast (drop_bit 32 (ioredtbl s ! nat index))
                 else ucast (ioredtbl s ! nat index AND 0xffffffff))
              else 0)
      else 0)"

definition ioapic_mem_writel :: "nat \<Rightarrow> u64 \<Rightarrow> u32 \<Rightarrow> intr_sys \<Rightarrow> intr_sys" where
  "ioapic_mem_writel k addr val b =
     (let s = ioapic_at b k
      in if addr AND 0xff = 0x00 then upd_ioapic k (\<lambda>s. s\<lparr>ioregsel := ucast val\<rparr>) b
         else if addr AND 0xff = 0x10 then
           (if ioregsel s = 0x00 then
              upd_ioapic k (\<lambda>s. s\<lparr>ioapic_id := ucast (drop_bit 24 val AND 0xf)\<rparr>) b
            else if ioregsel s = 0x01 \<or> ioregsel s = 0x02 then b
            else
              let index = ioapic_index (ioregsel s)
              in if 0 \<le> index \<and> index < int IOAPIC_NUM_PINS then
                   let n = nat index; old = ioredtbl s ! n;
                       entry = (if ioregsel s AND 1 \<noteq> 0
                                then (old AND 0xffffffff) OR push_bit 32 (ucast val)
                                else (old AND NOT 0xffffffff) OR ucast val)
                   in ioapic_service k (upd_ioapic k (\<lambda>s. s\<lparr>ioredtbl := (ioredtbl s)[n := entry]\<rparr>) b)
                 else b)
         else b)"

definition ioapic_post_load :: "nat \<Rightarrow> ioapic_state \<Rightarrow> ioapic_state" where
  "ioapic_post_load version_id s = (if version_id = 1 then s\<lparr>ioapic_irr := 0\<rparr> else s)"

definition ioapic_reset :: "ioapic_state \<Rightarrow> ioapic_state" where
  "ioapic_reset s = s\<lparr>ioapic_id := 0, ioregsel := 0, ioapic_irr := 0,
     ioredtbl := replicate IOAPIC_NUM_PINS (shl1 16)\<rparr>"

text \<open>
  Creating the I/O APIC: \<open>no\<close> is the static counter \<open>ioapic_no\<close>; the result -1 is \<open>None\<close>. The
  memory of the new device is zero.
\<close>

definition ioapic_init1 :: "nat \<Rightarrow> intr_sys \<Rightarrow> (nat \<times> intr_sys) option" where
  "ioapic_init1 no b =
     (if no \<ge> MAX_IOAPICS then None
      else Some (no + 1, b\<lparr>ioapics := (ioapics b)[no :=
             Some \<lparr>ioapic_id = 0, ioregsel = 0, ioapic_irr = 0, ioredtbl = replicate IOAPIC_NUM_PINS 0\<rparr>]\<rparr>))"

section \<open>Frames\<close>

lemma same_more: 
  assumes "apic_bus.more b = apic_bus.more (c :: intr_sys)"
  shows "ioapics b = ioapics c" "isa_pic b = isa_pic c" "cpu_apics b = cpu_apics c"
  using assms by (cases b; cases c; simp)+

lemma apic_local_deliver_more [simp]: "apic_bus.more (apic_local_deliver i v b) = apic_bus.more b"
  by (simp add: apic_local_deliver_def Let_def)

lemma apic_deliver_pic_intr_more [simp]: "apic_bus.more (apic_deliver_pic_intr i level b) = apic_bus.more b"
  by (simp add: apic_deliver_pic_intr_def Let_def)

lemma apic_bus_deliver_more [simp]: "apic_bus.more (apic_bus_deliver bm mode v pol trig b) = apic_bus.more b"
  by (simp add: apic_bus_deliver_def Let_def foreach_apic_more split: option.split)

lemma apic_deliver_irq_more [simp]: "apic_bus.more (apic_deliver_irq dest dmode mode v pol trig b) = apic_bus.more b"
  by (simp add: apic_deliver_irq_def)

lemma pic_irq_request_more: "apic_bus.more (pic_irq_request level b) = apic_bus.more b"
proof -
  have "apic_bus.more (fold (\<lambda>d b. if apic_accept_pic_intr d b \<noteq> 0 then apic_deliver_pic_intr (the d) level b else b) ds c)
      = apic_bus.more c" for ds c
    by (induction ds arbitrary: c) simp_all
  then show ?thesis by (simp add: pic_irq_request_def)
qed

lemmas bus_frames =
  same_more [OF upd_apic_simps(4)] same_more [OF cpu_do_simps(4)] same_more [OF apic_update_irq_simps(2)]
  same_more [OF apic_set_irq_more] same_more [OF apic_local_deliver_more]
  same_more [OF apic_deliver_irq_more] same_more [OF apic_bus_deliver_more] same_more [OF pic_irq_request_more]

declare bus_frames [simp]

lemma upd_ioapic_simps [simp]:
  "local_apics (upd_ioapic k f b) = local_apics b" "cpu_calls (upd_ioapic k f b) = cpu_calls b"
  "isa_pic (upd_ioapic k f b) = isa_pic b" "cpu_apics (upd_ioapic k f b) = cpu_apics b"
  "ioapics (upd_ioapic k f b) = (ioapics b)[k := map_option f (ioapics b ! k)]"
  by (simp_all add: upd_ioapic_def)

lemma ioapic_at_upd:
  "k < length (ioapics b) \<Longrightarrow> ioapics b ! k \<noteq> None \<Longrightarrow> ioapic_at (upd_ioapic k f b) k = f (ioapic_at b k)"
  by (auto simp: ioapic_at_def)

lemma on_pic_frame [simp]: "ioapics (on_pic f b) = ioapics b" "cpu_apics (on_pic f b) = cpu_apics b" "isa_pic (on_pic f b) = fst (f (isa_pic b))"
proof -
  have "ioapics (fold pic_irq_request ls c) = ioapics c" "cpu_apics (fold pic_irq_request ls c) = cpu_apics c"
    "isa_pic (fold pic_irq_request ls c) = isa_pic c" for ls c
    by (induction ls arbitrary: c) simp_all
  then show "ioapics (on_pic f b) = ioapics b" "cpu_apics (on_pic f b) = cpu_apics b" "isa_pic (on_pic f b) = fst (f (isa_pic b))"
    by (simp_all add: on_pic_def Let_def split_beta)
qed

lemma pic_levels: "l \<in> set (snd (pic_update_irq p)) \<Longrightarrow> l = 1" "l \<in> set (snd (snd (pic_read_irq p))) \<Longrightarrow> l = 1"
proof -
  show u: "l \<in> set (snd (pic_update_irq p)) \<Longrightarrow> l = 1" for p
    by (auto simp: pic_update_irq_def Let_def split: if_splits)
  have "\<exists>q. snd (pic_read_irq p) = pic_update_irq q" by (simp only: pic_read_irq_def Let_def split_beta snd_conv) blast
  then show "l \<in> set (snd (snd (pic_read_irq p))) \<Longrightarrow> l = 1" using u by metis
qed

context slot_relation
begin

lemma slots_upd_ioapic [simp]: "slotwise R b (upd_ioapic k f b)"
  by (rule same_slots) simp

lemma slots_raise_request: "level \<noteq> 0 \<Longrightarrow> slotwise R b (pic_irq_request level b)"
  by (simp add: pic_irq_request_def slots_fold slots_raise_pic_intr)

lemma slots_raise_requests: "(\<And>l. l \<in> set ls \<Longrightarrow> l \<noteq> 0) \<Longrightarrow> slotwise R b (fold pic_irq_request ls b)"
proof (induction ls arbitrary: b)
  case (Cons l ls)
  have "slotwise R b (pic_irq_request l b)" using Cons.prems by (intro slots_raise_request) simp
  moreover have "slotwise R (pic_irq_request l b) (fold pic_irq_request ls (pic_irq_request l b))"
    using Cons.prems by (intro Cons.IH) simp
  ultimately show ?case by (simp add: slots_trans)
qed simp

lemma slots_on_pic_raise:
  "(\<And>l. l \<in> set (snd (f (isa_pic b))) \<Longrightarrow> l \<noteq> 0) \<Longrightarrow> slotwise R b (on_pic f b)"
  unfolding on_pic_def Let_def split_beta
  by (rule slots_trans [OF same_slots slots_raise_requests]) simp_all

lemma slots_sys_pic_read_irq [simp]: "slotwise R b (snd (sys_pic_read_irq b))"
  by (auto simp: sys_pic_read_irq_def intro!: slots_on_pic_raise dest: pic_levels(2))

lemmas slots_then = slots_trans [OF _ slots_deliver_irq] slots_trans [OF _ slots_sys_pic_read_irq]
  slots_trans [OF _ slots_upd_ioapic]

lemma slots_service_pin [simp]: "slotwise R b (service_pin k i b)"
  by (simp add: service_pin_def Let_def split_beta slots_then del: upd_ioapic_simps)

lemma slots_ioapic_service [simp]: "slotwise R b (ioapic_service k b)"
  unfolding ioapic_service_def by (rule slots_fold) simp

lemma slots_ioapic_set_irq [simp]: "slotwise R b (ioapic_set_irq k n level b)"
  by (auto simp: ioapic_set_irq_def Let_def intro: slots_trans [OF slots_upd_ioapic slots_ioapic_service])

lemma slots_eoi_pin [simp]: "slotwise R b (eoi_pin v k n b)"
  by (auto simp: eoi_pin_def Let_def intro: slots_trans [OF slots_upd_ioapic slots_ioapic_service])

lemma slots_eoi_broadcast [simp]: "slotwise R b (ioapic_eoi_broadcast v b)"
  unfolding ioapic_eoi_broadcast_def by (rule slots_fold) (simp add: slots_fold split: option.split)

lemma slots_ioapic_mem_writel [simp]: "slotwise R b (ioapic_mem_writel k addr val b)"
  by (auto simp: ioapic_mem_writel_def Let_def intro: slots_trans [OF slots_upd_ioapic slots_ioapic_service])

end

context slot_relation_lower
begin

lemma slots_pic_irq_request [simp]: "slotwise R b (pic_irq_request level b)"
  by (simp add: pic_irq_request_def slots_fold)

lemma slots_on_pic [simp]: "slotwise R b (on_pic f b)"
  unfolding on_pic_def Let_def split_beta
  by (rule slots_trans [OF same_slots slots_fold]) simp_all

end

section \<open>What service does to the redirection table\<close>

text \<open>A pin is served if it is requested and not masked.\<close>

definition served :: "ioapic_state \<Rightarrow> nat \<Rightarrow> bool" where
  "served s i \<longleftrightarrow> bit (ioapic_irr s) i \<and> \<not> bit (ioredtbl s ! i) 16"

definition level_pin :: "ioapic_state \<Rightarrow> nat \<Rightarrow> bool" where
  "level_pin s i \<longleftrightarrow> bit (ioredtbl s ! i) 15"

definition after_service :: "nat \<Rightarrow> ioapic_state \<Rightarrow> ioapic_state" where
  "after_service i s =
     (if served s i then
        (if level_pin s i then s\<lparr>ioredtbl := (ioredtbl s)[i := ioredtbl s ! i OR IOAPIC_LVT_REMOTE_IRR]\<rparr>
         else s\<lparr>ioapic_irr := ioapic_irr s AND NOT (shl1 i)\<rparr>)
      else s)"

lemma masked_bit: "(e :: u64) AND IOAPIC_LVT_MASKED = 0 \<longleftrightarrow> \<not> bit e 16"
  by (simp add: IOAPIC_LVT_MASKED_def and_exp_eq_0 [of e 16, simplified])

lemma remote_bit: "(e :: u64) AND IOAPIC_LVT_REMOTE_IRR = 0 \<longleftrightarrow> \<not> bit e 14"
  by (simp add: IOAPIC_LVT_REMOTE_IRR_def and_exp_eq_0 [of e 14, simplified])

lemma bit_or_remote: "bit ((e :: u64) OR IOAPIC_LVT_REMOTE_IRR) n \<longleftrightarrow> bit e n \<or> n = 14"
  using bit_or_exp [of e 14 n] unfolding IOAPIC_LVT_REMOTE_IRR_def by (auto simp: push_bit_eq_mult)

lemma bit_and_not_remote: "bit ((e :: u64) AND NOT IOAPIC_LVT_REMOTE_IRR) n \<longleftrightarrow> bit e n \<and> n \<noteq> 14"
  using bit_and_not_exp [of e 14 n] unfolding IOAPIC_LVT_REMOTE_IRR_def by (auto simp: push_bit_eq_mult)

lemma drop_and_1: "(drop_bit n (e :: 'a::len word) AND 1 = 0) \<longleftrightarrow> \<not> bit e n"
  "(drop_bit n (e :: 'a::len word) AND 1 = 1) \<longleftrightarrow> bit e n"
  by (simp_all add: and_one_eq mod_2_eq_odd bit_iff_odd_drop_bit)

lemma ucast_bit_eq_0: "(ucast (drop_bit n (e :: u64) AND 1) :: u8) = 0 \<longleftrightarrow> \<not> bit e n"
  by (simp add: and_one_eq mod_2_eq_odd bit_iff_odd_drop_bit)

definition has_ioapic :: "intr_sys \<Rightarrow> nat \<Rightarrow> bool" where
  "has_ioapic b k \<longleftrightarrow> k < length (ioapics b) \<and> ioapics b ! k \<noteq> None
     \<and> length (ioredtbl (ioapic_at b k)) = IOAPIC_NUM_PINS"

lemma service_pin_ioapics:
  assumes "has_ioapic b k"
  shows "ioapics (service_pin k i b) = (ioapics b)[k := Some (after_service i (ioapic_at b k))]"
proof -
  have s: "ioapics b ! k = Some (ioapic_at b k)" using assms by (auto simp: has_ioapic_def ioapic_at_def)
  then have same: "(ioapics b)[k := Some (ioapic_at b k)] = ioapics b" by (metis list_update_id)
  show ?thesis
    by (simp add: service_pin_def Let_def split_beta sys_pic_read_irq_def after_service_def served_def level_pin_def
        masked_bit bits ucast_bit_eq_0 s same)
qed

lemma after_service_length [simp]: "length (ioredtbl (after_service i s)) = length (ioredtbl s)"
  by (simp add: after_service_def)

lemma service_pin_ioapic:
  assumes "has_ioapic b k"
  shows "ioapic_at (service_pin k i b) k = after_service i (ioapic_at b k)" "has_ioapic (service_pin k i b) k"
  using assms by (simp_all add: service_pin_ioapics ioapic_at_def has_ioapic_def)

lemma ioapic_service_ioapic:
  assumes "has_ioapic b k"
  shows "ioapic_at (ioapic_service k b) k = fold after_service [0..<IOAPIC_NUM_PINS] (ioapic_at b k)
    \<and> has_ioapic (ioapic_service k b) k"
proof -
  have "ioapic_at (fold (service_pin k) is b) k = fold after_service is (ioapic_at b k) \<and> has_ioapic (fold (service_pin k) is b) k" for "is"
    using assms by (induction "is" arbitrary: b) (simp_all add: service_pin_ioapic)
  then show ?thesis by (simp add: ioapic_service_def)
qed

lemma after_service_other:
  "n \<noteq> i \<Longrightarrow> ioredtbl (after_service i s) ! n = ioredtbl s ! n"
  "n \<noteq> i \<Longrightarrow> bit (ioapic_irr (after_service i s)) n = bit (ioapic_irr s) n"
  by (auto simp: after_service_def bits)

lemma after_service_same:
  "i < length (ioredtbl s) \<Longrightarrow> ioredtbl (after_service i s) ! i =
     (if served s i \<and> level_pin s i then ioredtbl s ! i OR IOAPIC_LVT_REMOTE_IRR else ioredtbl s ! i)"
  "bit (ioapic_irr (after_service i s)) i \<longleftrightarrow> bit (ioapic_irr s) i \<and> (served s i \<longrightarrow> level_pin s i)"
  by (auto simp: after_service_def bits)

lemma pins_split: "n < IOAPIC_NUM_PINS \<Longrightarrow> [0..<IOAPIC_NUM_PINS] = [0..<n] @ n # [Suc n..<IOAPIC_NUM_PINS]"
  using upt_add_eq_append [of 0 n "IOAPIC_NUM_PINS - n"] upt_conv_Cons [of n IOAPIC_NUM_PINS] by simp

lemma service_table:
  assumes "length (ioredtbl s) = IOAPIC_NUM_PINS" "n < IOAPIC_NUM_PINS"
  defines "t \<equiv> fold after_service [0..<IOAPIC_NUM_PINS] s"
  shows "ioredtbl t ! n = (if served s n \<and> level_pin s n then ioredtbl s ! n OR IOAPIC_LVT_REMOTE_IRR else ioredtbl s ! n)"
    and "bit (ioapic_irr t) n \<longleftrightarrow> bit (ioapic_irr s) n \<and> (served s n \<longrightarrow> level_pin s n)"
proof -
  have other: "ioredtbl (fold after_service is s) ! n = ioredtbl s ! n \<and>
      bit (ioapic_irr (fold after_service is s)) n = bit (ioapic_irr s) n \<and>
      length (ioredtbl (fold after_service is s)) = length (ioredtbl s)" if "n \<notin> set is" for "is" and s :: ioapic_state
    using that by (induction "is" arbitrary: s) (simp_all add: after_service_other)
  let ?u = "fold after_service [0..<n] s"
  have u: "ioredtbl ?u ! n = ioredtbl s ! n" "bit (ioapic_irr ?u) n = bit (ioapic_irr s) n"
    "length (ioredtbl ?u) = length (ioredtbl s)" using other [of "[0..<n]" s] by simp_all
  have "served ?u n = served s n" "level_pin ?u n = level_pin s n" using u by (simp_all add: served_def level_pin_def)
  moreover have "t = fold after_service [Suc n..<IOAPIC_NUM_PINS] (after_service n ?u)"
    unfolding t_def pins_split [OF assms(2)] by simp
  ultimately show "ioredtbl t ! n = (if served s n \<and> level_pin s n then ioredtbl s ! n OR IOAPIC_LVT_REMOTE_IRR else ioredtbl s ! n)"
    "bit (ioapic_irr t) n \<longleftrightarrow> bit (ioapic_irr s) n \<and> (served s n \<longrightarrow> level_pin s n)"
    using other [of "[Suc n..<IOAPIC_NUM_PINS]" "after_service n ?u"] after_service_same [of n ?u] u assms(1,2) by simp_all
qed

section \<open>What service delivers\<close>

definition entry_vector :: "u64 \<Rightarrow> nat" where
  "entry_vector e = unat (ucast (e AND 0xff) :: u8)"

definition entry_targets :: "u64 \<Rightarrow> intr_sys \<Rightarrow> nat set" where
  "entry_targets e b = destinations (ucast (drop_bit 56 e)) (ucast (drop_bit 11 e AND 1)) b"

definition fixed_entry :: "u64 \<Rightarrow> bool" where
  "fixed_entry e \<longleftrightarrow> drop_bit 8 e AND 7 = 0"

text \<open>
  The local APICs an entry addresses, as the manual has it: in physical mode all of them, or the
  one with the given identifier if there is exactly one; in logical mode those whose logical
  destination matches.
\<close>

definition addressed :: "u64 \<Rightarrow> intr_sys \<Rightarrow> nat \<Rightarrow> bool" where
  "addressed e b i \<longleftrightarrow> i < 256 \<and> (\<exists>s. local_apics b ! i = Some s \<and>
     (if bit e 11 then logical_match (ucast (drop_bit 56 e)) s
      else ucast (drop_bit 56 e) = (0xff :: u8) \<or> (apic_id s = ucast (drop_bit 56 e) \<and>
        (\<forall>j<256. \<forall>t. local_apics b ! j = Some t \<longrightarrow> apic_id t = apic_id s \<longrightarrow> j = i))))"

lemma addressed_target:
  assumes "slots_ok b" "addressed e b i"
  shows "i \<in> entry_targets e b"
proof -
  let ?d = "ucast (drop_bit 56 e) :: u8"
  obtain s where s: "i < 256" "local_apics b ! i = Some s" using assms(2) by (auto simp: addressed_def)
  show ?thesis
  proof (cases "bit e 11 \<or> ?d = 0xff")
    case True
    then show ?thesis using assms(2)
      by (auto simp: addressed_def entry_targets_def destinations_def ucast_bit_eq_0 split: if_splits)
  next
    case False
    then have u: "apic_id s = ?d" "\<forall>j<256. \<forall>t. local_apics b ! j = Some t \<longrightarrow> apic_id t = ?d \<longrightarrow> j = i"
      using assms(2) s by (auto simp: addressed_def)
    have "apic_find_dest ?d b = Some i"
    proof (cases "apic_find_dest ?d b")
      case None
      then show ?thesis using apic_find_dest_None [OF assms(1) None s] u(1) by simp
    next
      case (Some j)
      then show ?thesis using apic_find_dest_Some [OF assms(1) Some] u(2) by auto
    qed
    then show ?thesis using s False by (simp add: entry_targets_def destinations_def ucast_bit_eq_0)
  qed
qed

lemma entry_vector_less: "entry_vector e < 256"
  unfolding entry_vector_def using unsigned_less [of "ucast (e AND 0xff) :: u8", where ?'a = nat] by simp

lemma calm_targets: "calm b c \<Longrightarrow> slots_ok b \<Longrightarrow> entry_targets e c = entry_targets e b"
  by (simp add: entry_targets_def calm_destinations)

lemma service_pin_fixed:
  assumes "has_ioapic b k" "slots_ok b" "served (ioapic_at b k) n" "fixed_entry (ioredtbl (ioapic_at b k) ! n)" "i < 256"
  defines "e \<equiv> ioredtbl (ioapic_at b k) ! n"
  shows "local_apics (service_pin k n b) ! i =
    (if i \<in> entry_targets e b then map_option (accept (entry_vector e) (level_pin (ioapic_at b k) n)) (local_apics b ! i)
     else local_apics b ! i)"
proof -
  define b' where "b' = (if \<not> bit e 15 then upd_ioapic k (\<lambda>s. s\<lparr>ioapic_irr := ioapic_irr s AND NOT (shl1 n)\<rparr>) b
    else upd_ioapic k (\<lambda>s. s\<lparr>ioredtbl := (ioredtbl s)[n := ioredtbl s ! n OR IOAPIC_LVT_REMOTE_IRR]\<rparr>) b)"
  have calm: "calm b b'" by (simp add: b'_def)
  have slots: "local_apics b' = local_apics b" by (simp add: b'_def)
  have mode: "(ucast (drop_bit 8 e AND 7) :: u8) = APIC_DM_FIXED"
    using assms(4) by (simp add: fixed_entry_def APIC_DM_FIXED_def e_def)
  have "service_pin k n b = apic_deliver_irq (ucast (drop_bit 56 e)) (ucast (drop_bit 11 e AND 1)) APIC_DM_FIXED
      (ucast (e AND 0xff)) (ucast (drop_bit 13 e AND 1)) (ucast (drop_bit 15 e AND 1)) b'"
    using assms(3) mode
    unfolding service_pin_def Let_def split_beta b'_def e_def [symmetric]
    by (simp add: served_def bits masked_bit ucast_bit_eq_0 e_def [symmetric] APIC_DM_FIXED_def APIC_DM_EXTINT_def
        del: upd_ioapic_simps)
  then show ?thesis
    using fixed_delivery [OF calm_slots [OF calm assms(2)], where i = i and delivery_mode = APIC_DM_FIXED
        and dest = "ucast (drop_bit 56 e)" and dmode = "ucast (drop_bit 11 e AND 1)" and vector = "ucast (e AND 0xff)"
        and polarity = "ucast (drop_bit 13 e AND 1)" and trigger_mode = "ucast (drop_bit 15 e AND 1)"]
      assms(5) calm_targets [OF calm assms(2), of e]
    by (simp add: slots entry_targets_def entry_vector_def level_pin_def ucast_bit_eq_0 e_def [symmetric])
qed

lemma fold_service_frame:
  assumes "has_ioapic b k" "n \<notin> set is"
  defines "c \<equiv> fold (service_pin k) is b"
  shows "calm b c" "has_ioapic c k" "ioredtbl (ioapic_at c k) ! n = ioredtbl (ioapic_at b k) ! n"
    "bit (ioapic_irr (ioapic_at c k)) n = bit (ioapic_irr (ioapic_at b k)) n"
proof -
  show "calm b c" unfolding c_def by (rule calm.slots_fold) simp
  have "has_ioapic (fold (service_pin k) is b) k \<and> ioredtbl (ioapic_at (fold (service_pin k) is b) k) ! n = ioredtbl (ioapic_at b k) ! n
      \<and> bit (ioapic_irr (ioapic_at (fold (service_pin k) is b) k)) n = bit (ioapic_irr (ioapic_at b k)) n"
    using assms(1,2) by (induction "is" arbitrary: b) (simp_all add: service_pin_ioapic after_service_other)
  then show "has_ioapic c k" "ioredtbl (ioapic_at c k) ! n = ioredtbl (ioapic_at b k) ! n"
    "bit (ioapic_irr (ioapic_at c k)) n = bit (ioapic_irr (ioapic_at b k)) n" by (simp_all add: c_def)
qed

text \<open>
  Service requests the vector of every served pin at each local APIC its entry names: no other
  pin's service can prevent it.
\<close>

lemma service_requests:
  assumes "has_ioapic b k" "slots_ok b" "n < IOAPIC_NUM_PINS" "served (ioapic_at b k) n"
  defines "e \<equiv> ioredtbl (ioapic_at b k) ! n"
  assumes "fixed_entry e" "i \<in> entry_targets e b"
  shows "entry_vector e \<in> vecs (irr_tab (apic_at (ioapic_service k b) i))"
proof -
  define c where "c = fold (service_pin k) [0..<n] b"
  note c = fold_service_frame [OF assms(1), of n "[0..<n]", folded c_def, simplified]
  have e: "ioredtbl (ioapic_at c k) ! n = e" and sv: "served (ioapic_at c k) n"
    using c(3,4) assms(4) by (simp_all add: served_def e_def)
  have ok: "slots_ok c" by (rule calm_slots [OF c(1) assms(2)])
  have i: "i < 256" using assms(7) by (simp add: entry_targets_def destinations_less)
  obtain s where s: "local_apics c ! i = Some s"
    using assms(7) calm_targets [OF c(1) assms(2), of e] by (auto simp: entry_targets_def destinations_def)
  define d where "d = service_pin k n c"
  have "local_apics d ! i = Some (accept (entry_vector e) (level_pin (ioapic_at c k) n) s)"
    unfolding d_def using service_pin_fixed [OF c(2) ok sv _ i] e assms(6,7) calm_targets [OF c(1) assms(2), of e] s by simp
  moreover have "apic_wf s" using slots_okD(2) [OF ok i s] .
  ultimately have v: "entry_vector e \<in> vecs (irr_tab (apic_at d i))"
    using entry_vector_less by (simp add: apic_at_def)
  have "ioapic_service k b = fold (service_pin k) [Suc n..<IOAPIC_NUM_PINS] d"
    unfolding ioapic_service_def pins_split [OF assms(3)] d_def c_def by simp
  then have "slotwise grow_apic d (ioapic_service k b)" by (simp add: grow.slots_fold)
  moreover have "length (local_apics d) = 256"
    using slots_okD(1) [OF calm_slots [OF calm.slots_service_pin ok]] unfolding d_def .
  ultimately show ?thesis
    using slotwiseD(2) [of grow_apic d "ioapic_service k b" i] i v \<open>local_apics d ! i = _\<close>
    by (auto simp: apic_at_def grow_apic_def)
qed

section \<open>End of interrupt at the I/O APIC\<close>

lemma ioapic_service_pin:
  assumes "has_ioapic b k" "n < IOAPIC_NUM_PINS"
  defines "s \<equiv> ioapic_at b k" and "t \<equiv> ioapic_at (ioapic_service k b) k"
  shows "has_ioapic (ioapic_service k b) k"
    and "ioredtbl t ! n = (if served s n \<and> level_pin s n then ioredtbl s ! n OR IOAPIC_LVT_REMOTE_IRR else ioredtbl s ! n)"
    and "bit (ioapic_irr t) n \<longleftrightarrow> bit (ioapic_irr s) n \<and> (served s n \<longrightarrow> level_pin s n)"
proof -
  have l: "length (ioredtbl s) = IOAPIC_NUM_PINS" using assms(1) by (simp add: has_ioapic_def s_def)
  have t: "t = fold after_service [0..<IOAPIC_NUM_PINS] s"
    using ioapic_service_ioapic [OF assms(1)] by (simp add: s_def t_def)
  show "has_ioapic (ioapic_service k b) k" using ioapic_service_ioapic [OF assms(1)] by simp
  show "ioredtbl t ! n = (if served s n \<and> level_pin s n then ioredtbl s ! n OR IOAPIC_LVT_REMOTE_IRR else ioredtbl s ! n)"
    "bit (ioapic_irr t) n \<longleftrightarrow> bit (ioapic_irr s) n \<and> (served s n \<longrightarrow> level_pin s n)"
    unfolding t using service_table [OF l assms(2)] .
qed

lemma or_remote_same: "bit (e :: u64) 14 \<Longrightarrow> e OR IOAPIC_LVT_REMOTE_IRR = e"
  by (rule bit_word_eqI) (auto simp: bit_or_remote)

text \<open>A level-triggered pin that waits for its end of interrupt, or whose line is low, is left alone by the others.\<close>

definition settled :: "ioapic_state \<Rightarrow> nat \<Rightarrow> bool" where
  "settled s n \<longleftrightarrow> level_pin s n \<and> (bit (ioredtbl s ! n) 14 \<or> \<not> bit (ioapic_irr s) n)"

definition same_pin :: "nat \<Rightarrow> ioapic_state \<Rightarrow> ioapic_state \<Rightarrow> bool" where
  "same_pin n s t \<longleftrightarrow> ioredtbl t ! n = ioredtbl s ! n \<and> bit (ioapic_irr t) n = bit (ioapic_irr s) n"

lemma service_settled:
  assumes "has_ioapic b k" "n < IOAPIC_NUM_PINS" "settled (ioapic_at b k) n"
  shows "same_pin n (ioapic_at b k) (ioapic_at (ioapic_service k b) k)"
  using ioapic_service_pin [OF assms(1,2)] assms(3)
  by (auto simp: settled_def same_pin_def served_def or_remote_same)

lemma has_ioapic_upd:
  assumes "has_ioapic b k" "length (ioredtbl (f (ioapic_at b k))) = IOAPIC_NUM_PINS"
  shows "has_ioapic (upd_ioapic k f b) k" "ioapic_at (upd_ioapic k f b) k = f (ioapic_at b k)"
proof -
  show "ioapic_at (upd_ioapic k f b) k = f (ioapic_at b k)"
    using assms(1) by (simp add: has_ioapic_def ioapic_at_upd)
  with assms show "has_ioapic (upd_ioapic k f b) k" by (auto simp: has_ioapic_def)
qed

lemma eoi_pin_settled:
  assumes "has_ioapic b k" "n < IOAPIC_NUM_PINS" "settled (ioapic_at b k) n" "m \<noteq> n"
  shows "has_ioapic (eoi_pin v k m b) k" "same_pin n (ioapic_at b k) (ioapic_at (eoi_pin v k m b) k)"
proof -
  define e where "e = ioredtbl (ioapic_at b k) ! m"
  define c where "c = upd_ioapic k (\<lambda>s. s\<lparr>ioredtbl := (ioredtbl s)[m := e AND NOT IOAPIC_LVT_REMOTE_IRR]\<rparr>) b"
  have c: "has_ioapic c k" "ioapic_at c k = (ioapic_at b k)\<lparr>ioredtbl := (ioredtbl (ioapic_at b k))[m := e AND NOT IOAPIC_LVT_REMOTE_IRR]\<rparr>"
    unfolding c_def using assms(1) by (intro has_ioapic_upd; simp add: has_ioapic_def)+
  then have same: "same_pin n (ioapic_at b k) (ioapic_at c k)" and "settled (ioapic_at c k) n"
    using assms(3,4) by (simp_all add: same_pin_def settled_def level_pin_def)
  note sv = ioapic_service_pin(1) [OF c(1) assms(2)] service_settled [OF c(1) assms(2) this(2)]
  have "eoi_pin v k m b = b \<or> eoi_pin v k m b = c \<or> eoi_pin v k m b = ioapic_service k c"
    unfolding eoi_pin_def Let_def c_def e_def by (simp del: upd_ioapic_simps)
  then show "has_ioapic (eoi_pin v k m b) k" "same_pin n (ioapic_at b k) (ioapic_at (eoi_pin v k m b) k)"
    using assms(1) c(1) same sv by (auto simp: same_pin_def)
qed

lemma fold_eoi_settled:
  assumes "has_ioapic b k" "n < IOAPIC_NUM_PINS" "settled (ioapic_at b k) n" "n \<notin> set is"
  shows "has_ioapic (fold (eoi_pin v k) is b) k \<and> same_pin n (ioapic_at b k) (ioapic_at (fold (eoi_pin v k) is b) k)"
  using assms
proof (induction "is" arbitrary: b)
  case (Cons m "is")
  let ?c = "eoi_pin v k m b"
  have "has_ioapic ?c k" and s: "same_pin n (ioapic_at b k) (ioapic_at ?c k)"
    using eoi_pin_settled [OF Cons.prems(1-3)] Cons.prems(4) by simp_all
  moreover have "settled (ioapic_at ?c k) n"
    using Cons.prems(3) s by (simp add: settled_def same_pin_def level_pin_def)
  ultimately show ?case using Cons.IH [of ?c] Cons.prems s by (auto simp: same_pin_def)
qed (simp add: same_pin_def)

lemma eoi_broadcast_one: "ioapics b ! 0 \<noteq> None \<Longrightarrow> ioapic_eoi_broadcast v b = fold (eoi_pin v 0) [0..<IOAPIC_NUM_PINS] b"
  by (auto simp: ioapic_eoi_broadcast_def MAX_IOAPICS_def)

text \<open>Bit 14, the waiting state, is no part of the vector, the delivery mode or the destination.\<close>

lemma mask_bits_64: "(0xff :: u64) = mask 8" "(7 :: u64) = mask 3" "(1 :: u64) = mask 1"
  by (simp_all add: mask_eq_exp_minus_1)

lemma entry_without_remote:
  fixes e :: u64
  defines "e' \<equiv> e AND NOT IOAPIC_LVT_REMOTE_IRR"
  shows "entry_vector e' = entry_vector e" "entry_targets e' b = entry_targets e b" "fixed_entry e' = fixed_entry e"
proof -
  have b: "bit e' n \<longleftrightarrow> bit e n \<and> n \<noteq> 14" for n by (simp only: e'_def bit_and_not_remote)
  have "e' AND mask 8 = e AND mask 8"
    by (rule bit_word_eqI) (auto simp: bit_and_iff bit_mask_iff b)
  then show "entry_vector e' = entry_vector e" by (simp only: entry_vector_def mask_bits_64)
  have "drop_bit 56 e' = drop_bit 56 e"
    by (rule bit_word_eqI) (auto simp only: bit_drop_bit_eq comp_apply b)
  moreover have "drop_bit 11 e' AND mask 1 = drop_bit 11 e AND mask 1"
    by (rule bit_word_eqI) (auto simp only: bit_drop_bit_eq comp_apply b bit_and_iff bit_mask_iff)
  ultimately show "entry_targets e' b = entry_targets e b" by (simp only: entry_targets_def mask_bits_64)
  have "drop_bit 8 e' AND mask 3 = drop_bit 8 e AND mask 3"
    by (rule bit_word_eqI) (auto simp only: bit_drop_bit_eq comp_apply b bit_and_iff bit_mask_iff)
  then show "fixed_entry e' = fixed_entry e" by (simp only: fixed_entry_def mask_bits_64)
qed

text \<open>
  The end of a level-triggered interrupt. If the line is still high, the vector is requested again
  at every local APIC the entry names; if it is low, the entry only leaves the waiting state.
\<close>

lemma eoi_broadcast_pin:
  assumes "has_ioapic b 0" "slots_ok b" "n < IOAPIC_NUM_PINS"
  defines "s \<equiv> ioapic_at b 0"
  defines "e \<equiv> ioredtbl s ! n"
  assumes "level_pin s n" "bit e 14" "\<not> bit e 16" "entry_vector e = v" "fixed_entry e"
  shows "bit (ioapic_irr s) n \<Longrightarrow> i \<in> entry_targets e b \<Longrightarrow> v \<in> vecs (irr_tab (apic_at (ioapic_eoi_broadcast v b) i))"
    and "\<not> bit (ioapic_irr s) n \<Longrightarrow> ioredtbl (ioapic_at (ioapic_eoi_broadcast v b) 0) ! n = e AND NOT IOAPIC_LVT_REMOTE_IRR"
proof -
  have set: "settled s n" using assms(6,7) by (simp add: settled_def e_def)
  define c where "c = fold (eoi_pin v 0) [0..<n] b"
  have c: "has_ioapic c 0" "same_pin n s (ioapic_at c 0)"
    using fold_eoi_settled [OF assms(1,3) set [unfolded s_def], of "[0..<n]" v] by (simp_all add: c_def s_def)
  have cc: "calm b c" unfolding c_def by (rule calm.slots_fold) simp
  have ce: "ioredtbl (ioapic_at c 0) ! n = e" using c(2) by (simp add: same_pin_def e_def)
  define d where "d = upd_ioapic 0 (\<lambda>s. s\<lparr>ioredtbl := (ioredtbl s)[n := e AND NOT IOAPIC_LVT_REMOTE_IRR]\<rparr>) c"
  have d: "has_ioapic d 0" "ioapic_at d 0 = (ioapic_at c 0)\<lparr>ioredtbl := (ioredtbl (ioapic_at c 0))[n := e AND NOT IOAPIC_LVT_REMOTE_IRR]\<rparr>"
    unfolding d_def using c(1) by (intro has_ioapic_upd; simp add: has_ioapic_def)+
  have cd: "calm c d" unfolding d_def by simp
  have de: "ioredtbl (ioapic_at d 0) ! n = e AND NOT IOAPIC_LVT_REMOTE_IRR"
    using d(2) c(1) assms(3) by (simp add: has_ioapic_def)
  have dirr: "bit (ioapic_irr (ioapic_at d 0)) n = bit (ioapic_irr s) n" using d(2) c(2) by (simp add: same_pin_def)
  have vec: "unat (e AND 0xff) = v"
  proof -
    have "unat (ucast (e AND 0xff) :: u8) = unat (e AND 0xff)" by (simp add: unat_ucast_8 unat_and_numeral)
    then show ?thesis using assms(9) by (simp add: entry_vector_def)
  qed
  have step: "eoi_pin v 0 n c = (if bit (ioapic_irr s) n then ioapic_service 0 d else d)"
    using assms(7,8) vec dirr
    by (simp add: eoi_pin_def Let_def ce d_def [symmetric] remote_bit masked_bit bits del: upd_ioapic_simps)
  have all: "ioapic_eoi_broadcast v b = fold (eoi_pin v 0) [Suc n..<IOAPIC_NUM_PINS] (eoi_pin v 0 n c)"
    using assms(1) unfolding c_def by (simp add: eoi_broadcast_one has_ioapic_def pins_split [OF assms(3)])
  show "v \<in> vecs (irr_tab (apic_at (ioapic_eoi_broadcast v b) i))" if hi: "bit (ioapic_irr s) n" "i \<in> entry_targets e b"
  proof -
    have db: "calm b d" by (rule calm.slots_trans [OF cc cd])
    have ok: "slots_ok d" by (rule calm_slots [OF db assms(2)])
    have "served (ioapic_at d 0) n" using hi(1) dirr de assms(8) by (simp add: served_def bit_and_not_remote)
    then have v: "v \<in> vecs (irr_tab (apic_at (ioapic_service 0 d) i))"
      using service_requests [OF d(1) ok assms(3), of i] de assms(9,10) hi(2) calm_targets [OF db assms(2)]
      by (simp add: entry_without_remote)
    have i: "i < 256" using hi(2) by (simp add: entry_targets_def destinations_less)
    obtain t where t: "local_apics d ! i = Some t"
      using hi(2) calm_targets [OF db assms(2), of e] by (auto simp: entry_targets_def destinations_def)
    have sd: "slots_ok (ioapic_service 0 d)" by (rule calm_slots [OF calm.slots_ioapic_service ok])
    obtain u where u: "local_apics (ioapic_service 0 d) ! i = Some u"
      using slotwiseD(2) [OF calm.slots_ioapic_service [of d 0], of i t] t i slots_okD(1) [OF ok] by auto
    have g: "slotwise grow_apic (ioapic_service 0 d) (ioapic_eoi_broadcast v b)"
      unfolding all step using hi(1) by (simp add: grow.slots_fold)
    from slotwiseD(2) [OF g _ u] show ?thesis
      using v u i slots_okD(1) [OF sd] by (auto simp: apic_at_def grow_apic_def)
  qed
  show "ioredtbl (ioapic_at (ioapic_eoi_broadcast v b) 0) ! n = e AND NOT IOAPIC_LVT_REMOTE_IRR" if "\<not> bit (ioapic_irr s) n"
  proof -
    have "settled (ioapic_at d 0) n" using dirr that de assms(6) by (simp add: settled_def level_pin_def bit_and_not_remote e_def)
    from fold_eoi_settled [OF d(1) assms(3) this, of "[Suc n..<IOAPIC_NUM_PINS]" v] show ?thesis
      using that de by (simp add: all step same_pin_def)
  qed
qed

end
