(* ===== verification/Lapic.thy ===== *)
theory Lapic
  imports Ioapic
begin

text \<open>
  The operations of the local APIC (\<open>hw/apic.c\<close>) that the CPU and the guest use, on the whole
  interrupt hardware because an end of interrupt goes on to the I/O APIC: acknowledging and
  finishing interrupts, inter-processor interrupts, the timer, the registers and reset. A
  \<open>DeviceState *\<close> is a slot or \<open>None\<close> for a null pointer, times are 64 bit words read as signed
  where the source does.
\<close>

section \<open>Base address and task priority\<close>

definition cpu_set_apic_base :: "nat option \<Rightarrow> u64 \<Rightarrow> intr_sys \<Rightarrow> intr_sys" where
  "cpu_set_apic_base d val b =
     (case d of
        None \<Rightarrow> b
      | Some i \<Rightarrow>
          let b = upd_apic i (\<lambda>s. s\<lparr>apicbase := (ucast val AND 0xfffff000) OR
                    (apicbase s AND (MSR_IA32_APICBASE_BSP OR MSR_IA32_APICBASE_ENABLE))\<rparr>) b
          in if val AND ucast MSR_IA32_APICBASE_ENABLE = 0 then
               let b = upd_apic i (\<lambda>s. s\<lparr>apicbase := apicbase s AND NOT MSR_IA32_APICBASE_ENABLE\<rparr>) b;
                   b = cpu_do (Cpu_clear_apic_feature (cpu_env (apic_at b i))) b
               in upd_apic i (\<lambda>s. s\<lparr>spurious_vec := spurious_vec s AND NOT APIC_SV_ENABLE\<rparr>) b
             else b)"

definition cpu_get_apic_base :: "nat option \<Rightarrow> intr_sys \<Rightarrow> u64" where
  "cpu_get_apic_base d b = (case d of None \<Rightarrow> 0 | Some i \<Rightarrow> ucast (apicbase (apic_at b i)))"

definition cpu_set_apic_tpr :: "nat option \<Rightarrow> u8 \<Rightarrow> intr_sys \<Rightarrow> intr_sys" where
  "cpu_set_apic_tpr d val b =
     (case d of
        None \<Rightarrow> b
      | Some i \<Rightarrow> apic_update_irq i (upd_apic i (\<lambda>s. s\<lparr>tpr := push_bit 4 (val AND 0x0f)\<rparr>) b))"

definition cpu_get_apic_tpr :: "nat option \<Rightarrow> intr_sys \<Rightarrow> u8" where
  "cpu_get_apic_tpr d b = (case d of None \<Rightarrow> 0 | Some i \<Rightarrow> drop_bit 4 (tpr (apic_at b i)))"

section \<open>End of interrupt\<close>

definition apic_eoi :: "nat \<Rightarrow> intr_sys \<Rightarrow> intr_sys" where
  "apic_eoi i b =
     (let isrv = get_highest_priority_int (isr_tab (apic_at b i))
      in if isrv < 0 then b
         else
           let v = nat isrv;
               b = upd_apic i (\<lambda>s. s\<lparr>isr_tab := reset_bit_tab (isr_tab s) v\<rparr>) b;
               b = (if spurious_vec (apic_at b i) AND APIC_SV_DIRECTED_IO = 0
                       \<and> get_bit_tab (tmr_tab (apic_at b i)) v
                    then ioapic_eoi_broadcast v b else b)
           in apic_update_irq i b)"

section \<open>Reset and start-up of a CPU\<close>

definition apic_init_state :: "apic_state \<Rightarrow> apic_state" where
  "apic_init_state s = s\<lparr>tpr := 0, spurious_vec := 0xff, log_dest := 0, dest_mode := 0xf,
     isr_tab := replicate 8 0, tmr_tab := replicate 8 0, irr_tab := replicate 8 0,
     lvt := replicate APIC_LVT_NB (shl1 16), esr := 0, icr := replicate 2 0,
     divide_conf := 0, count_shift := 0, initial_count := 0, initial_count_load_time := 0,
     next_time := 0, wait_for_sipi := True\<rparr>"

definition apic_init_reset :: "nat option \<Rightarrow> intr_sys \<Rightarrow> intr_sys" where
  "apic_init_reset d b = (case d of None \<Rightarrow> b | Some i \<Rightarrow> upd_apic i apic_init_state b)"

definition apic_startup :: "nat \<Rightarrow> nat \<Rightarrow> intr_sys \<Rightarrow> intr_sys" where
  "apic_startup i vector_num b =
     (let b = upd_apic i (\<lambda>s. s\<lparr>sipi_vector := vector_num\<rparr>) b
      in cpu_do (Cpu_interrupt (cpu_env (apic_at b i)) INT_SIPI) b)"

definition apic_sipi :: "nat \<Rightarrow> intr_sys \<Rightarrow> intr_sys" where
  "apic_sipi i b =
     (let b = cpu_do (Cpu_reset_interrupt (cpu_env (apic_at b i)) INT_SIPI) b; s = apic_at b i
      in if \<not> wait_for_sipi s then b
         else upd_apic i (\<lambda>s. s\<lparr>wait_for_sipi := False\<rparr>)
                (cpu_do (Cpu_load_sipi (cpu_env s) (sipi_vector s)) b))"

definition apic_reset :: "bool \<Rightarrow> nat \<Rightarrow> intr_sys \<Rightarrow> intr_sys" where
  "apic_reset bsp i b =
     (let b = upd_apic i (\<lambda>s. s\<lparr>apicbase := 0xfee00000 OR (if bsp then MSR_IA32_APICBASE_BSP else 0)
                                  OR MSR_IA32_APICBASE_ENABLE\<rparr>) b;
          b = apic_init_reset (Some i) b
      in if bsp then upd_apic i (\<lambda>s. s\<lparr>lvt := (lvt s)[APIC_LVT_LINT0 := 0x700]\<rparr>) b else b)"

section \<open>Inter-processor interrupts\<close>

definition apic_deliver ::
    "nat \<Rightarrow> u8 \<Rightarrow> u8 \<Rightarrow> u8 \<Rightarrow> u8 \<Rightarrow> u8 \<Rightarrow> u8 \<Rightarrow> intr_sys \<Rightarrow> intr_sys" where
  "apic_deliver i dest dmode delivery_mode vector_num polarity trigger_mode b =
     (let s = apic_at b i; icr0 = icr s ! 0;
          dest_shorthand = drop_bit 18 icr0 AND 3;
          deliver_bitmask =
            (if dest_shorthand = 0 then apic_get_delivery_bitmask dest dmode b
             else if dest_shorthand = 1 then set_bit_tab (replicate MAX_APIC_WORDS 0) (apic_idx s)
             else if dest_shorthand = 2 then replicate MAX_APIC_WORDS 0xffffffff
             else reset_bit_tab (replicate MAX_APIC_WORDS 0xffffffff) (apic_idx s));
          trig_mode = drop_bit 15 icr0 AND 1; level = drop_bit 14 icr0 AND 1
      in if delivery_mode = APIC_DM_INIT \<and> level = 0 \<and> trig_mode = 1 then
           foreach_apic deliver_bitmask (\<lambda>j. upd_apic j (\<lambda>s. s\<lparr>arb_id := apic_id s\<rparr>)) b
         else if delivery_mode = APIC_DM_SIPI then
           foreach_apic deliver_bitmask (\<lambda>j. apic_startup j (unat vector_num)) b
         else apic_bus_deliver deliver_bitmask delivery_mode vector_num polarity trigger_mode b)"

section \<open>Acknowledge\<close>

definition apic_get_interrupt :: "nat option \<Rightarrow> intr_sys \<Rightarrow> int \<times> intr_sys" where
  "apic_get_interrupt d b =
     (case d of
        None \<Rightarrow> (- 1, b)
      | Some i \<Rightarrow>
          if spurious_vec (apic_at b i) AND APIC_SV_ENABLE = 0 then (- 1, b)
          else
            let intno = apic_irq_pending (apic_at b i)
            in if intno = 0 then (- 1, b)
               else if intno < 0 then (uint (spurious_vec (apic_at b i) AND 0xff), b)
               else
                 let b = upd_apic i (\<lambda>s. s\<lparr>irr_tab := reset_bit_tab (irr_tab s) (nat intno)\<rparr>) b;
                     b = upd_apic i (\<lambda>s. s\<lparr>isr_tab := set_bit_tab (isr_tab s) (nat intno)\<rparr>) b
                 in (intno, apic_update_irq i b))"

text \<open>\<open>hw/pc.c\<close>: what the CPU calls when it takes an external interrupt.\<close>

definition cpu_get_pic_interrupt :: "nat option \<Rightarrow> intr_sys \<Rightarrow> int \<times> intr_sys" where
  "cpu_get_pic_interrupt d b =
     (let (intno, b) = apic_get_interrupt d b
      in if intno \<ge> 0 then (intno, on_pic pic_update_irq b)
         else if apic_accept_pic_intr d b = 0 then (- 1, b)
         else let (intno, b) = sys_pic_read_irq b in (int intno, b))"

section \<open>Timer\<close>

definition apic_get_current_count :: "u64 \<Rightarrow> apic_state \<Rightarrow> u32" where
  "apic_get_current_count clk s =
     (let d = signed_drop_bit (count_shift s) (clk - initial_count_load_time s);
          ic = (ucast (initial_count s) :: u64)
      in if lvt s ! APIC_LVT_TIMER AND APIC_LVT_TIMER_PERIODIC \<noteq> 0 then ucast (ic - d mod (ic + 1))
         else if ic \<le>s d then 0
         else ucast (ic - d))"

definition apic_timer_update :: "u64 \<Rightarrow> apic_state \<Rightarrow> apic_state" where
  "apic_timer_update current_time s =
     (let l = lvt s ! APIC_LVT_TIMER;
          d = signed_drop_bit (count_shift s) (current_time - initial_count_load_time s);
          ic = (ucast (initial_count s) :: u64);
          no_timer = s\<lparr>lapic_timer := qemu_del_timer (lapic_timer s)\<rparr>;
          arm = (\<lambda>d. let nt = initial_count_load_time s + push_bit (count_shift s) d
                     in s\<lparr>lapic_timer := qemu_mod_timer (lapic_timer s) nt, next_time := nt\<rparr>)
      in if l AND APIC_LVT_MASKED = 0 then
           (if l AND APIC_LVT_TIMER_PERIODIC \<noteq> 0 then
              (if initial_count s = 0 then no_timer else arm ((d div (ic + 1) + 1) * (ic + 1)))
            else if ic \<le>s d then no_timer
            else arm (ic + 1))
         else no_timer)"

text \<open>The callback of the timer, which has expired and is not pending any more.\<close>

definition apic_timer :: "nat \<Rightarrow> intr_sys \<Rightarrow> intr_sys" where
  "apic_timer i b =
     (let b = apic_local_deliver i APIC_LVT_TIMER b
      in upd_apic i (\<lambda>s. apic_timer_update (next_time s) s) b)"

section \<open>Registers\<close>

definition apic_mem_readb :: "u64 \<Rightarrow> u32" where "apic_mem_readb addr = 0"
definition apic_mem_readw :: "u64 \<Rightarrow> u32" where "apic_mem_readw addr = 0"
definition apic_mem_writeb :: "u64 \<Rightarrow> u32 \<Rightarrow> intr_sys \<Rightarrow> intr_sys" where "apic_mem_writeb addr val b = b"
definition apic_mem_writew :: "u64 \<Rightarrow> u32 \<Rightarrow> intr_sys \<Rightarrow> intr_sys" where "apic_mem_writew addr val b = b"

definition apic_mem_readl :: "nat option \<Rightarrow> u64 \<Rightarrow> u64 \<Rightarrow> intr_sys \<Rightarrow> u32 \<times> intr_sys" where
  "apic_mem_readl d clk addr b =
     (case d of
        None \<Rightarrow> (0, b)
      | Some i \<Rightarrow>
          let s = apic_at b i; index = unat (drop_bit 4 addr AND 0xff); reg = (\<lambda>val. (val, b))
          in if index = 0x02 then reg (push_bit 24 (ucast (apic_id s)))
             else if index = 0x03 then reg (0x11 OR push_bit 16 (of_nat (APIC_LVT_NB - 1)))
             else if index = 0x08 then reg (ucast (tpr s))
             else if index = 0x09 then reg (word_of_int (apic_get_arb_pri s))
             else if index = 0x0a then reg (word_of_int (apic_get_ppr s))
             else if index = 0x0b then reg 0
             else if index = 0x0d then reg (push_bit 24 (ucast (log_dest s)))
             else if index = 0x0e then reg (push_bit 28 (ucast (dest_mode s)))
             else if index = 0x0f then reg (spurious_vec s)
             else if 0x10 \<le> index \<and> index \<le> 0x17 then reg (isr_tab s ! (index mod 8))
             else if 0x18 \<le> index \<and> index \<le> 0x1f then reg (tmr_tab s ! (index mod 8))
             else if 0x20 \<le> index \<and> index \<le> 0x27 then reg (irr_tab s ! (index mod 8))
             else if index = 0x28 then reg (esr s)
             else if index = 0x30 \<or> index = 0x31 then reg (icr s ! (index mod 2))
             else if 0x32 \<le> index \<and> index \<le> 0x37 then reg (lvt s ! (index - 0x32))
             else if index = 0x38 then reg (initial_count s)
             else if index = 0x39 then reg (apic_get_current_count clk s)
             else if index = 0x3e then reg (divide_conf s)
             else (0, upd_apic i (\<lambda>s. s\<lparr>esr := esr s OR ESR_ILLEGAL_ADDRESS\<rparr>) b))"

definition apic_send_msi :: "u64 \<Rightarrow> u32 \<Rightarrow> intr_sys \<Rightarrow> intr_sys" where
  "apic_send_msi addr data b =
     (let dest = (ucast (drop_bit 12 (addr AND 0xffff0)) :: u8);
          vector = (ucast (data AND 0xff) :: u8);
          dmode = (ucast (drop_bit 2 addr AND 1) :: u8);
          trigger_mode = (ucast (drop_bit 15 data AND 1) :: u8);
          delivery = (ucast (drop_bit 8 data AND 7) :: u8)
      in apic_deliver_irq dest dmode delivery vector 0 trigger_mode b)"

definition apic_mem_writel :: "nat option \<Rightarrow> u64 \<Rightarrow> u64 \<Rightarrow> u32 \<Rightarrow> intr_sys \<Rightarrow> intr_sys" where
  "apic_mem_writel d clk addr val b =
     (let index = unat (drop_bit 4 addr AND 0xff)
      in if addr > 0xfff \<or> index = 0 then apic_send_msi addr val b
         else case d of
           None \<Rightarrow> b
         | Some i \<Rightarrow>
             if index = 0x02 then upd_apic i (\<lambda>s. s\<lparr>apic_id := ucast (drop_bit 24 val)\<rparr>) b
             else if index = 0x03 then b
             else if index = 0x08 then apic_update_irq i (upd_apic i (\<lambda>s. s\<lparr>tpr := ucast val\<rparr>) b)
             else if index = 0x09 \<or> index = 0x0a then b
             else if index = 0x0b then apic_eoi i b
             else if index = 0x0d then upd_apic i (\<lambda>s. s\<lparr>log_dest := ucast (drop_bit 24 val)\<rparr>) b
             else if index = 0x0e then upd_apic i (\<lambda>s. s\<lparr>dest_mode := ucast (drop_bit 28 val)\<rparr>) b
             else if index = 0x0f then
               apic_update_irq i (upd_apic i (\<lambda>s. s\<lparr>spurious_vec := val AND 0x1ff\<rparr>) b)
             else if 0x10 \<le> index \<and> index \<le> 0x28 then b
             else if index = 0x30 then
               (let b = upd_apic i (\<lambda>s. s\<lparr>icr := (icr s)[0 := val]\<rparr>) b;
                    icr0 = icr (apic_at b i) ! 0; icr1 = icr (apic_at b i) ! 1
                in apic_deliver i (ucast (drop_bit 24 icr1 AND 0xff)) (ucast (drop_bit 11 icr0 AND 1))
                     (ucast (drop_bit 8 icr0 AND 7)) (ucast (icr0 AND 0xff))
                     (ucast (drop_bit 14 icr0 AND 1)) (ucast (drop_bit 15 icr0 AND 1)) b)
             else if index = 0x31 then upd_apic i (\<lambda>s. s\<lparr>icr := (icr s)[1 := val]\<rparr>) b
             else if 0x32 \<le> index \<and> index \<le> 0x37 then
               (let n = index - 0x32
                in upd_apic i (\<lambda>s. let s = s\<lparr>lvt := (lvt s)[n := val]\<rparr>
                                   in if n = APIC_LVT_TIMER then apic_timer_update clk s else s) b)
             else if index = 0x38 then
               upd_apic i (\<lambda>s. apic_timer_update clk
                 (s\<lparr>initial_count := val, initial_count_load_time := clk\<rparr>)) b
             else if index = 0x39 then b
             else if index = 0x3e then
               upd_apic i (\<lambda>s. let s = s\<lparr>divide_conf := val AND 0xb\<rparr>;
                                   v = (divide_conf s AND 3) OR (drop_bit 1 (divide_conf s) AND 4)
                               in s\<lparr>count_shift := unat ((v + 1) AND 7)\<rparr>) b
             else upd_apic i (\<lambda>s. s\<lparr>esr := esr s OR ESR_ILLEGAL_ADDRESS\<rparr>) b)"

text \<open>
  Creating a local APIC: \<open>last\<close> is the static counter \<open>last_apic_idx\<close>; the result -1 is \<open>None\<close>.
  The properties give the identifier and the CPU, the rest of the memory of the device is zero.
\<close>

definition apic_init1 :: "u8 \<Rightarrow> nat \<Rightarrow> nat \<Rightarrow> intr_sys \<Rightarrow> (nat \<times> intr_sys) option" where
  "apic_init1 aid cpu last_idx b =
     (if last_idx \<ge> MAX_APICS then None
      else Some (last_idx + 1, b\<lparr>local_apics := (local_apics b)[last_idx := Some
        \<lparr>cpu_env = cpu, apicbase = 0, apic_id = aid, arb_id = 0, tpr = 0, spurious_vec = 0, log_dest = 0,
         dest_mode = 0, isr_tab = replicate 8 0, tmr_tab = replicate 8 0, irr_tab = replicate 8 0,
         lvt = replicate APIC_LVT_NB 0, esr = 0, icr = replicate 2 0, divide_conf = 0, count_shift = 0,
         initial_count = 0, initial_count_load_time = 0, next_time = 0, apic_idx = last_idx,
         lapic_timer = Timer None, sipi_vector = 0, wait_for_sipi = False\<rparr>]\<rparr>))"

section \<open>Acknowledging an interrupt\<close>

lemma sv_enable: "(x :: u32) AND APIC_SV_ENABLE = 0 \<longleftrightarrow> \<not> bit x 8"
  by (simp add: APIC_SV_ENABLE_def and_exp_eq_0 [of x 8, simplified])

lemma apic_at_slot: "local_apics b ! i = Some s \<Longrightarrow> apic_at b i = s"
  by (simp add: apic_at_def)

lemma apic_get_interrupt_cases:
  assumes "local_apics b ! i = Some s" "i < length (local_apics b)" "bit (spurious_vec s) 8"
  defines "m \<equiv> Max (vecs (irr_tab s))"
  defines "t \<equiv> s\<lparr>irr_tab := reset_bit_tab (irr_tab s) m, isr_tab := set_bit_tab (isr_tab s) m\<rparr>"
  shows "apic_get_interrupt (Some i) b =
    (if vecs (irr_tab s) = {} then (- 1, b)
     else if held_back s m then (uint (spurious_vec s AND 0xff), b)
     else if m = 0 then (- 1, b)
     else (int m, apic_update_irq i (upd_apic i (\<lambda>_. t) b)))"
proof -
  have "upd_apic i (\<lambda>s. s\<lparr>isr_tab := set_bit_tab (isr_tab s) m\<rparr>) (upd_apic i (\<lambda>s. s\<lparr>irr_tab := reset_bit_tab (irr_tab s) m\<rparr>) b)
      = upd_apic i (\<lambda>_. t) b"
    using assms(1,2) by (simp add: upd_apic_def t_def)
  then show ?thesis
    using assms(1-3) apic_irq_pending_eq [of s]
    by (simp add: apic_get_interrupt_def apic_at_slot sv_enable Let_def m_def [symmetric])
qed

section \<open>Reachable states\<close>

text \<open>
  No two vectors of the same class are in service together, unless the class is 0, and bit 12 of
  the spurious vector register, which would suppress the broadcast of an end of interrupt, is never
  set.
\<close>

definition nested :: "apic_state \<Rightarrow> bool" where
  "nested s \<longleftrightarrow> (\<forall>v\<in>vecs (isr_tab s). \<forall>w\<in>vecs (isr_tab s). v div 16 = w div 16 \<longrightarrow> v = w \<or> v < 16)"

definition apic_good :: "apic_state \<Rightarrow> bool" where
  "apic_good s \<longleftrightarrow> apic_wf s \<and> nested s \<and> \<not> bit (spurious_vec s) 12"

definition slots_good :: "intr_sys \<Rightarrow> bool" where
  "slots_good b \<longleftrightarrow> slots_ok b \<and> (\<forall>i<256. \<forall>s. local_apics b ! i = Some s \<longrightarrow> apic_good s)"

definition intr_wf :: "intr_sys \<Rightarrow> bool" where
  "intr_wf b \<longleftrightarrow> slots_good b \<and> has_ioapic b 0"

lemma slots_good_calm: "calm b c \<Longrightarrow> slots_good b \<Longrightarrow> slots_good c"
proof -
  assume c: "calm b c" and g: "slots_good b"
  have l: "length (local_apics b) = 256" using g slots_okD(1) by (auto simp: slots_good_def)
  have "apic_good t" if "i < 256" "local_apics c ! i = Some t" for i t
  proof -
    obtain s where "local_apics b ! i = Some s" "calm_apic s t" using slotwiseD(3) [OF c, of i t] l \<open>i < 256\<close> \<open>local_apics c ! i = Some t\<close> by auto
    then show ?thesis using g \<open>i < 256\<close> calm_apicD [of s t] by (auto simp: slots_good_def apic_good_def nested_def)
  qed
  then show ?thesis using g calm_slots [OF c] by (auto simp: slots_good_def)
qed

lemma slots_good_upd:
  assumes "slots_good b" "\<And>s. local_apics b ! i = Some s \<Longrightarrow> apic_good s \<Longrightarrow> apic_good (f s) \<and> apic_idx (f s) = apic_idx s"
  shows "slots_good (upd_apic i f b)"
proof -
  have l: "length (local_apics b) = 256" and ok: "slots_ok b"
    and g: "\<And>j s. j < 256 \<Longrightarrow> local_apics b ! j = Some s \<Longrightarrow> apic_good s"
    using assms(1) slots_okD(1) by (auto simp: slots_good_def)
  have "i < 256 \<Longrightarrow> slots_ok (upd_apic i f b)"
    by (rule slots_ok_upd [OF ok]) (use g assms(2) in \<open>auto simp: apic_good_def\<close>)
  moreover have "upd_apic i f b = b" if "\<not> i < 256" using that l by (simp add: upd_apic_def list_update_beyond)
  moreover have "apic_good t" if "j < 256" "local_apics (upd_apic i f b) ! j = Some t" for j t
    using that g [of j] assms(2)
    by (cases "local_apics b ! j") (auto simp: nth_list_update_if split: if_splits)
  ultimately show ?thesis using ok unfolding slots_good_def by metis
qed

lemma nested_diff: "nested s \<Longrightarrow> vecs (isr_tab t) \<subseteq> vecs (isr_tab s) \<Longrightarrow> nested t"
  by (auto simp: nested_def)


text \<open>
  The machine starts with some CPUs, each with its local APIC made by \<open>apic_init1\<close> and numbered in
  order, an I/O APIC made by \<open>ioapic_init1\<close> and the 8259 pair.
\<close>

primrec add_apics :: "nat \<Rightarrow> nat \<times> intr_sys \<Rightarrow> nat \<times> intr_sys" where
  "add_apics 0 m = m"
| "add_apics (Suc n) m =
     (case m of (last_idx, b) \<Rightarrow>
        case apic_init1 (of_nat last_idx) last_idx last_idx b of
          None \<Rightarrow> m
        | Some (last_idx', b') \<Rightarrow> add_apics n (last_idx', b'\<lparr>cpu_apics := cpu_apics b' @ [Some last_idx]\<rparr>))"

definition no_apics :: intr_sys where
  "no_apics = \<lparr>local_apics = replicate (MAX_APICS + 1) None, apic_irq_delivered = 0, cpu_calls = [],
     ioapics = replicate MAX_IOAPICS None, isa_pic = i8259_init, cpu_apics = []\<rparr>"

definition intr_machine :: "nat \<Rightarrow> intr_sys" where
  "intr_machine n = snd (the (ioapic_init1 0 (snd (add_apics n (0, no_apics)))))"

inductive intr_step :: "intr_sys \<Rightarrow> unit \<Rightarrow> intr_sys \<Rightarrow> bool" where
  pin: "intr_step b () (ioapic_set_irq 0 n level b)"
| ioapic_write: "intr_step b () (ioapic_mem_writel 0 addr val b)"
| reset_ioapic: "intr_step b () (upd_ioapic 0 ioapic_reset b)"
| pic: "intr_step b () (on_pic f b)"
| acknowledge: "intr_step b () (snd (cpu_get_pic_interrupt d b))"
| mmio_read: "intr_step b () (snd (apic_mem_readl d clk addr b))"
| mmio_write: "intr_step b () (apic_mem_writel d clk addr val b)"
| timer: "intr_step b () (apic_timer i b)"
| set_base: "intr_step b () (cpu_set_apic_base d base b)"
| set_tpr: "intr_step b () (cpu_set_apic_tpr d pri b)"
| sipi: "intr_step b () (apic_sipi i b)"
| init_reset: "intr_step b () (apic_init_reset d b)"
| reset: "intr_step b () (apic_reset bsp i b)"
| clear_delivered: "intr_step b () (apic_reset_irq_delivered b)"

inductive_cases intr_stepE: "intr_step b e c"












lemma has_ioapic_cong: "ioapics c = ioapics b \<Longrightarrow> has_ioapic c k = has_ioapic b k"
  by (simp add: has_ioapic_def ioapic_at_def)












definition filled :: "nat \<Rightarrow> intr_sys \<Rightarrow> bool" where
  "filled k b \<longleftrightarrow> length (local_apics b) = 256 \<and> length (ioapics b) = 1
     \<and> (\<forall>i<256. case local_apics b ! i of None \<Rightarrow> k \<le> i | Some s \<Rightarrow> i < k \<and> apic_good s \<and> apic_idx s = i)"

lemma filled_good: "filled k b \<Longrightarrow> k \<le> MAX_APICS \<Longrightarrow> slots_good b"
  unfolding slots_good_def slots_ok_def filled_def
  by (auto simp: apic_good_def split: option.splits intro!: exI [of _ k])

lemma add_apics_filled:
  "filled k b \<Longrightarrow> k + n \<le> MAX_APICS \<Longrightarrow> filled (k + n) (snd (add_apics n (k, b)))"
proof (induction n arbitrary: k b)
  case (Suc n)
  define b' where "b' = snd (the (apic_init1 (of_nat k) k k b))"
  have i: "apic_init1 (of_nat k) k k b = Some (Suc k, b')" using Suc.prems(2) by (simp add: apic_init1_def b'_def)
  have "filled (Suc k) (b'\<lparr>cpu_apics := cpu_apics b' @ [Some k]\<rparr>)"
    using Suc.prems unfolding filled_def b'_def
    by (auto simp: apic_init1_def nth_list_update_if apic_good_def apic_wf_def nested_def MAX_APICS_def
        APIC_LVT_NB_def split: option.splits)
  from Suc.IH [OF this] Suc.prems(2) show ?case by (simp add: i)
qed simp

lemma intr_machine_wf: "n \<le> MAX_APICS \<Longrightarrow> intr_wf (intr_machine n)"
proof -
  assume n: "n \<le> MAX_APICS"
  let ?b = "snd (add_apics n (0, no_apics))"
  have "filled 0 no_apics" by (simp add: filled_def no_apics_def MAX_APICS_def MAX_IOAPICS_def)
  from add_apics_filled [OF this, of n] n have f: "filled n ?b" by simp
  obtain b' where b': "ioapic_init1 0 ?b = Some (1, b')" "b' = intr_machine n"
    by (simp add: ioapic_init1_def intr_machine_def MAX_IOAPICS_def)
  have "local_apics b' = local_apics ?b" "has_ioapic b' 0"
    using b'(1) f by (auto simp: ioapic_init1_def MAX_IOAPICS_def has_ioapic_def ioapic_at_def filled_def IOAPIC_NUM_PINS_def)
  with slots_good_calm [OF calm.same_slots filled_good [OF f n], of b'] show ?thesis
    by (simp add: intr_wf_def b'(2))
qed



section \<open>End of interrupt\<close>

lemma max_above:
  assumes "finite S" "\<forall>w\<in>S. w div 16 < v div (16 :: nat)"
  shows "Max (insert v S) = v" "v \<notin> S"
proof -
  show "v \<notin> S" using assms(2) by auto
  have "w < v" if "w \<in> S" for w
  proof (rule ccontr)
    assume "\<not> w < v"
    then have "v div 16 \<le> w div 16" by (simp add: div_le_mono)
    moreover have "w div 16 < v div 16" using assms(2) that by blast
    ultimately show False by simp
  qed
  then show "Max (insert v S) = v" using assms(1) by (intro Max_eqI) (auto intro: less_imp_le)
qed

lemma eoi_slots:
  assumes "slots_ok b" "i < 256" "local_apics b ! i = Some s" "vecs (isr_tab s) \<noteq> {}"
  shows "\<exists>t. local_apics (apic_eoi i b) ! i = Some t \<and> vecs (isr_tab t) = vecs (isr_tab s) - {Max (vecs (isr_tab s))}"
proof -
  let ?v = "Max (vecs (isr_tab s))"
  define c where "c = upd_apic i (\<lambda>s. s\<lparr>isr_tab := reset_bit_tab (isr_tab s) ?v\<rparr>) b"
  have l: "length (local_apics b) = 256" by (rule slots_okD(1) [OF assms(1)])
  have c: "local_apics c ! i = Some (s\<lparr>isr_tab := reset_bit_tab (isr_tab s) ?v\<rparr>)" using assms(2,3) l by (simp add: c_def)
  have wf: "length (isr_tab s) = 8" using slots_okD(2) [OF assms(1-3)] by (simp add: apic_wf_def)
  have "apic_eoi i b = apic_update_irq i (if spurious_vec (apic_at c i) AND APIC_SV_DIRECTED_IO = 0
      \<and> get_bit_tab (tmr_tab (apic_at c i)) ?v then ioapic_eoi_broadcast ?v c else c)"
    using assms(3,4) by (simp add: apic_eoi_def apic_at_slot highest_priority Let_def c_def)
  moreover have "calm c (if spurious_vec (apic_at c i) AND APIC_SV_DIRECTED_IO = 0
      \<and> get_bit_tab (tmr_tab (apic_at c i)) ?v then ioapic_eoi_broadcast ?v c else c)" by simp
  ultimately have "calm c (apic_eoi i b)" using calm.slots_trans [OF _ calm.slots_update_irq] by metis
  from slotwiseD(2) [OF this _ c] obtain t where t: "local_apics (apic_eoi i b) ! i = Some t"
      "calm_apic (s\<lparr>isr_tab := reset_bit_tab (isr_tab s) ?v\<rparr>) t"
    using l assms(2) by (auto simp: c_def)
  then show ?thesis using calm_apicD(1) [OF t(2)] wf Max_vecs(2) [OF assms(4)] by simp
qed

text \<open>
  C26: taking an interrupt and ending it is a round trip for the vectors in service: a vector above
  class 0 that the CPU takes is the one its next end of interrupt finishes, whatever is in service
  below it, level-triggered or not.
\<close>

theorem apic_eoi_ends_last_taken:
  assumes "slots_ok b" "i < 256" "local_apics b ! i = Some s" "bit (spurious_vec s) 8"
    "apic_get_interrupt (Some i) b = (int v, c)" "v \<noteq> unat (spurious_vec s AND 0xff)" "16 \<le> v"
  shows "vecs (isr_tab (apic_at c i)) = insert v (vecs (isr_tab s))
    \<and> vecs (isr_tab (apic_at (apic_eoi i c) i)) = vecs (isr_tab s)"
proof -
  have l: "length (local_apics b) = 256" by (rule slots_okD(1) [OF assms(1)])
  have wf: "apic_wf s" by (rule slots_okD(2) [OF assms(1-3)])
  let ?m = "Max (vecs (irr_tab s))"
  define t where "t = s\<lparr>irr_tab := reset_bit_tab (irr_tab s) ?m, isr_tab := set_bit_tab (isr_tab s) ?m\<rparr>"
  have v: "v = ?m" "\<not> held_back s v" "vecs (irr_tab s) \<noteq> {}" "c = apic_update_irq i (upd_apic i (\<lambda>_. t) b)"
  proof -
    define sp where "sp = uint (spurious_vec s AND 0xff)"
    have e: "(int v, c) = (if vecs (irr_tab s) = {} then (- 1, b) else if held_back s ?m then (sp, b)
        else if ?m = 0 then (- 1, b) else (int ?m, apic_update_irq i (upd_apic i (\<lambda>_. t) b)))"
      unfolding sp_def t_def assms(5) [symmetric] by (rule apic_get_interrupt_cases [OF assms(3) _ assms(4)]) (simp add: l assms(2))
    have "int v \<noteq> sp"
    proof
      assume "int v = sp"
      then have "v = unat (spurious_vec s AND 0xff)" by (simp only: sp_def unat_eq_nat_uint)
      with assms(6) show False by simp
    qed
    with e show "v = ?m" "\<not> held_back s v" "vecs (irr_tab s) \<noteq> {}" "c = apic_update_irq i (upd_apic i (\<lambda>_. t) b)"
      by (auto split: if_split_asm)
  qed
  have m: "v < 256" using v(1) Max_vecs(2) [OF v(3)] by simp
  have st: "vecs (isr_tab t) = insert v (vecs (isr_tab s))" using wf m v(1) by (simp add: t_def apic_wf_def)
  have ct: "local_apics c ! i = Some t" using l assms(2,3) by (simp add: v(4))
  have "slots_ok (upd_apic i (\<lambda>_. t) b)"
    by (rule slots_ok_upd [OF assms(1)]) (use assms(3) in \<open>simp add: t_def apic_wf_def\<close>)
  then have ok: "slots_ok c" unfolding v(4) by (rule calm_slots [OF calm.slots_update_irq])
  have above: "Max (insert v (vecs (isr_tab s))) = v" "v \<notin> vecs (isr_tab s)"
  proof -
    have "0 < v div 16" using assms(7) by (simp add: div_greater_zero_iff)
    then have "\<forall>w\<in>vecs (isr_tab s). w div 16 < v div 16" using v(2) unfolding held_back_def by metis
    then show "Max (insert v (vecs (isr_tab s))) = v" "v \<notin> vecs (isr_tab s)"
      using max_above [OF finite_vecs] by blast+
  qed
  show ?thesis
    using eoi_slots [OF ok assms(2) ct] st above by (auto simp: apic_at_def ct)
qed

section \<open>Interrupts through the I/O APIC\<close>

text \<open>
  C12: raising a line of the I/O APIC (line 0 is pin 2) whose entry is unmasked and in fixed mode
  requests the vector of the entry at every local APIC the entry addresses, whatever other lines
  are doing. A level-triggered entry then waits for the end of interrupt with its request
  standing, an edge-triggered one has forgotten the edge.
\<close>

theorem ioapic_line_requests_vector:
  assumes "has_ioapic b 0" "slots_ok b" "line < IOAPIC_NUM_PINS" "level \<noteq> 0"
  defines "n \<equiv> if line = 0 then 2 else line"
  defines "e \<equiv> ioredtbl (ioapic_at b 0) ! n"
  assumes "\<not> bit e 16" "fixed_entry e" "addressed e b i"
  defines "c \<equiv> ioapic_set_irq 0 line level b"
  shows "entry_vector e \<in> vecs (irr_tab (apic_at c i))
    \<and> bit (ioredtbl (ioapic_at c 0) ! n) 14 = (bit e 15 \<or> bit e 14)
    \<and> bit (ioapic_irr (ioapic_at c 0)) n = bit e 15"
proof -
  have n: "n < IOAPIC_NUM_PINS" using assms(3) by (simp add: n_def IOAPIC_NUM_PINS_def)
  define d where "d = upd_ioapic 0 (\<lambda>s. s\<lparr>ioapic_irr := ioapic_irr s OR shl1 n\<rparr>) b"
  have d: "has_ioapic d 0" "ioapic_at d 0 = (ioapic_at b 0)\<lparr>ioapic_irr := ioapic_irr (ioapic_at b 0) OR shl1 n\<rparr>"
    unfolding d_def using assms(1) by (intro has_ioapic_upd; simp add: has_ioapic_def)+
  have c: "c = ioapic_service 0 d"
    using assms(4,7) n
    by (simp add: c_def ioapic_set_irq_def n_def [symmetric] e_def [symmetric] Let_def d_def drop_and_1 masked_bit
        del: upd_ioapic_simps)
  have n32: "n < 32" using n by (simp add: IOAPIC_NUM_PINS_def)
  have irr: "bit (ioapic_irr (ioapic_at d 0)) n" using d(2) n32 by (simp add: bits)
  have e: "ioredtbl (ioapic_at d 0) ! n = e" using d(2) by (simp add: e_def)
  have sv: "served (ioapic_at d 0) n" using irr e assms(7) by (simp add: served_def)
  have cd: "calm b d" unfolding d_def by simp
  have "entry_vector e \<in> vecs (irr_tab (apic_at c i))"
    unfolding c using service_requests [OF d(1) calm_slots [OF cd assms(2)] n sv] e assms(8) addressed_target [OF assms(2,9)]
      calm_targets [OF cd assms(2)] by simp
  moreover have "bit (ioredtbl (ioapic_at c 0) ! n) 14 = (bit e 15 \<or> bit e 14)"
    "bit (ioapic_irr (ioapic_at c 0)) n = bit e 15"
    unfolding c using ioapic_service_pin(2,3) [OF d(1) n] irr e sv by (simp_all add: level_pin_def bit_or_remote)
  ultimately show ?thesis by simp
qed



section \<open>The timer\<close>

lemma unat_signed_shift:
  assumes "unat (w :: u64) < 2 ^ 63"
  shows "unat (signed_drop_bit n w) = unat w div 2 ^ n"
proof -
  have "int (unat w) < int (2 ^ 63)" using assms by (simp only: of_nat_less_iff)
  then have u: "uint w < 2 ^ 63" by simp
  have "signed_take_bit 63 (uint w) = uint w" 
    using u uint_ge_0 [of w] by (intro signed_take_bit_int_eq_self) linarith+
  then have s: "sint w = uint w" by (simp add: sint_uint)
  let ?r = "uint w div 2 ^ n"
  have r: "0 \<le> ?r" "?r < 2 ^ 63"
    using u zdiv_mono2 [of "uint w" 1 "2 ^ n"] by (simp_all add: pos_imp_zdiv_nonneg_iff)
  have "sint (signed_drop_bit n w) = ?r" by (simp only: sint_signed_drop_bit_eq s drop_bit_eq_div)
  then have "uint (signed_drop_bit n w) = ?r mod 2 ^ 64"
    using uint_sint [of "signed_drop_bit n w"] by (simp add: take_bit_eq_mod)
  also have "\<dots> = ?r" using r by (intro mod_pos_pos_trivial) simp_all
  finally have "nat (uint (signed_drop_bit n w)) = nat ?r" by (rule arg_cong)
  then show ?thesis by (simp only: unat_eq_nat_uint nat_div_distrib uint_ge_0 zero_le_power nat_power_eq zero_le_numeral nat_numeral)
qed

lemma elapsed_ticks:
  fixes t l :: u64
  assumes "unat l \<le> unat t" "unat t < 2 ^ 63"
  shows "unat (signed_drop_bit sh (t - l)) = (unat t - unat l) div 2 ^ sh"
  using assms unat_signed_shift [of "t - l" sh] by (simp add: unat_sub word_le_nat_alt)

definition apic_period :: "apic_state \<Rightarrow> nat" where
  "apic_period s = (unat (initial_count s) + 1) * 2 ^ count_shift s"

lemma div_period: "x div 2 ^ sh div (c + 1) = x div ((c + 1) * 2 ^ sh)" for x :: nat
  by (metis div_mult2_eq mult.commute)

text \<open>
  C27: the periodic timer does not drift. Whenever the timer is set again, even after the programmed
  time, the next expiry is the first multiple of the period after the load of the initial count
  that lies in the future.
\<close>

theorem apic_timer_no_drift:
  assumes "\<not> bit (lvt s ! APIC_LVT_TIMER) 16" "bit (lvt s ! APIC_LVT_TIMER) 17" "initial_count s \<noteq> 0"
    "unat (initial_count_load_time s) + k * apic_period s \<le> unat t"
    "unat t < unat (initial_count_load_time s) + (k + 1) * apic_period s"
    "unat (initial_count_load_time s) + (k + 1) * apic_period s < 2 ^ 63" "lapic_timer s \<noteq> NoTimer"
  shows "\<exists>nt. lapic_timer (apic_timer_update t s) = Timer (Some nt) \<and> next_time (apic_timer_update t s) = nt
    \<and> unat nt = unat (initial_count_load_time s) + (k + 1) * apic_period s"
proof -
  let ?l = "initial_count_load_time s" and ?c = "unat (initial_count s)" and ?sh = "count_shift s"
  define d where "d = signed_drop_bit ?sh (t - ?l)"
  define ic where "ic = (ucast (initial_count s) :: u64)"
  define a where "a = (d div (ic + 1) + 1) * (ic + 1)"
  have c: "?c < 2 ^ 32" using unsigned_less [of "initial_count s", where ?'a = nat] by simp
  have ic: "unat (ic + 1) = ?c + 1"
    using c by (simp add: ic_def unat_word_ariths(1) unsigned_ucast_eq take_bit_eq_mod)
  have ud: "unat d = (unat t - unat ?l) div 2 ^ ?sh"
    unfolding d_def using assms(4-6) by (intro elapsed_ticks) (auto elim: le_trans [rotated] less_trans)
  have k: "unat (d div (ic + 1)) = k"
  proof -
    have "unat (d div (ic + 1)) = (unat t - unat ?l) div apic_period s"
      by (simp only: unat_div ic ud div_period apic_period_def)
    also have "\<dots> = k" using assms(4,5) by (intro div_nat_eqI) (simp_all add: algebra_simps)
    finally show ?thesis .
  qed
  have le: "(k + 1) * (?c + 1) * 2 ^ ?sh = (k + 1) * apic_period s"
    by (simp only: apic_period_def mult.assoc)
  have mono: "x \<le> x * y" if "0 < y" for x y :: nat using that by (cases y) simp_all
  have "(k + 1) * (?c + 1) \<le> (k + 1) * (?c + 1) * 2 ^ ?sh" by (rule mono) simp
  then have "(k + 1) * (?c + 1) \<le> unat ?l + (k + 1) * apic_period s" unfolding le by (rule trans_le_add2)
  then have small: "(k + 1) * (?c + 1) < 2 ^ 63" using assms(6) by (rule le_less_trans)
  have big: "x < 2 ^ 64" if "x < 2 ^ 63" for x :: nat using that by simp
  have "k + 1 \<le> (k + 1) * (?c + 1)" by (rule mono) simp
  then have k1: "k + 1 < 2 ^ 64" by (rule big [OF le_less_trans [OF _ small]])
  have "unat (d div (ic + 1) + 1) = (k + 1) mod 2 ^ 64" unfolding unat_word_ariths(1) k by simp
  then have "unat (d div (ic + 1) + 1) = k + 1" unfolding mod_less [OF k1] .
  then have "unat a = (k + 1) * (?c + 1) mod 2 ^ 64" unfolding a_def unat_word_ariths(2) ic by simp
  moreover have "(k + 1) * (?c + 1) < 2 ^ 64" by (rule big [OF small])
  ultimately have ua: "unat a = (k + 1) * (?c + 1)" by (simp only: mod_less)
  have up: "unat (push_bit ?sh a) = (k + 1) * apic_period s"
  proof -
    have "unat (push_bit ?sh a) = unat a * 2 ^ ?sh mod 2 ^ 64"
      unfolding unsigned_push_bit_eq by (simp add: take_bit_eq_mod push_bit_eq_mult)
    moreover have "(k + 1) * apic_period s < 2 ^ 64" by (rule big [OF le_less_trans [OF le_add2 assms(6)]])
    ultimately show ?thesis by (simp only: ua le mod_less)
  qed
  have "unat (?l + push_bit ?sh a) = (unat ?l + (k + 1) * apic_period s) mod 2 ^ 64"
    unfolding unat_word_ariths(1) up by simp
  moreover have "unat ?l + (k + 1) * apic_period s < 2 ^ 64" by (rule big [OF assms(6)])
  ultimately have nt: "unat (?l + push_bit ?sh a) = unat ?l + (k + 1) * apic_period s" by (simp only: mod_less)
  obtain x where tm: "lapic_timer s = Timer x" using assms(7) by (cases "lapic_timer s") simp_all
  have "apic_timer_update t s = s\<lparr>lapic_timer := qemu_mod_timer (lapic_timer s) (?l + push_bit ?sh a), next_time := ?l + push_bit ?sh a\<rparr>"
    using assms(1-3) unfolding apic_timer_update_def Let_def a_def d_def ic_def
    by (simp add: APIC_LVT_MASKED_def APIC_LVT_TIMER_PERIODIC_def and_exp_eq_0 [of _ 16, simplified] and_exp_eq_0 [of _ 17, simplified])
  then show ?thesis using nt tm by simp
qed

section \<open>A machine with one CPU\<close>






text \<open>A state of the machine given by a change of the APIC and a change of the I/O APIC.\<close>

definition uni_cpu :: apic_state where
  "uni_cpu = apic_at (intr_machine 1) 0"

definition uni :: "(apic_state \<Rightarrow> apic_state) \<Rightarrow> (ioapic_state \<Rightarrow> ioapic_state) \<Rightarrow> intr_sys" where
  "uni f g = upd_ioapic 0 g (upd_apic 0 f (intr_machine 1))"

lemma uni_cpu_fields [simp]:
  "isr_tab uni_cpu = replicate 8 0" "irr_tab uni_cpu = replicate 8 0" "tmr_tab uni_cpu = replicate 8 0"
  "tpr uni_cpu = 0" "apic_id uni_cpu = 0" "lvt uni_cpu = replicate 6 0" "lapic_timer uni_cpu = Timer None"
  "initial_count_load_time uni_cpu = 0" "apic_idx uni_cpu = 0" "length (icr uni_cpu) = 2" "spurious_vec uni_cpu = 0"
  "count_shift uni_cpu = 0"
  by (simp_all add: uni_cpu_def intr_machine_def ioapic_init1_def apic_init1_def no_apics_def MAX_APICS_def MAX_IOAPICS_def
      IOAPIC_NUM_PINS_def APIC_LVT_NB_def apic_at_def ioapic_at_def)

lemma uni_start:
  "local_apics (intr_machine 1) ! 0 = Some uni_cpu" "ioredtbl (ioapic_at (intr_machine 1) 0) = replicate 24 0"
  by (simp_all add: uni_cpu_def intr_machine_def ioapic_init1_def apic_init1_def no_apics_def MAX_APICS_def MAX_IOAPICS_def
      IOAPIC_NUM_PINS_def APIC_LVT_NB_def apic_at_def ioapic_at_def)

lemma uni_state:
  assumes "apic_good (f uni_cpu)" "apic_idx (f uni_cpu) = 0" "length (ioredtbl (g (ioapic_at (intr_machine 1) 0))) = 24"
  shows "intr_wf (uni f g)" "local_apics (uni f g) ! 0 = Some (f uni_cpu)"
    "ioapic_at (uni f g) 0 = g (ioapic_at (intr_machine 1) 0)" "slots_ok (uni f g)"
proof -
  let ?b = "intr_machine 1"
  have wf: "intr_wf ?b" by (rule intr_machine_wf) (simp add: MAX_APICS_def)
  then have ok: "slots_ok ?b" and g: "slots_good ?b" and h: "has_ioapic ?b 0" by (simp_all add: intr_wf_def slots_good_def)
  have l: "length (local_apics ?b) = 256" by (rule slots_okD(1) [OF ok])
  have "slots_good (upd_apic 0 f ?b)"
    by (rule slots_good_upd [OF g]) (use assms(1,2) uni_start(1) in auto)
  moreover have h': "has_ioapic (upd_apic 0 f ?b) 0" "ioapic_at (upd_apic 0 f ?b) 0 = ioapic_at ?b 0"
    using h has_ioapic_cong [of "upd_apic 0 f ?b" ?b 0] by (simp_all add: ioapic_at_def)
  ultimately show "intr_wf (uni f g)"
    using has_ioapic_upd(1) [OF h'(1), of g] assms(3) slots_good_calm [OF calm.slots_upd_ioapic]
    by (simp add: uni_def intr_wf_def IOAPIC_NUM_PINS_def)
  then show "slots_ok (uni f g)" by (simp add: intr_wf_def slots_good_def)
  show "ioapic_at (uni f g) 0 = g (ioapic_at ?b 0)"
    using has_ioapic_upd(2) [OF h'(1), of g] assms(3) h'(2) by (simp add: uni_def IOAPIC_NUM_PINS_def)
  show "local_apics (uni f g) ! 0 = Some (f uni_cpu)" using l uni_start(1) by (simp add: uni_def)
qed

lemma uni_alone: "j \<noteq> 0 \<Longrightarrow> j < 256 \<Longrightarrow> local_apics (uni f g) ! j = None"
  by (simp add: uni_def intr_machine_def ioapic_init1_def apic_init1_def no_apics_def MAX_APICS_def MAX_IOAPICS_def)

lemma uni_target:
  assumes "apic_id (f uni_cpu) = 0" "local_apics (uni f g) ! 0 = Some (f uni_cpu)" "drop_bit 56 e = 0" "\<not> bit e 11"
  shows "addressed e (uni f g) 0"
  using assms uni_alone by (fastforce simp: addressed_def)

lemmas uni_good = apic_good_def apic_wf_def nested_def APIC_LVT_NB_def


theorem apic_eoi_ends_last_taken_witness:
  defines "f \<equiv> \<lambda>s. s\<lparr>spurious_vec := 0x1ff, irr_tab := set_bit_tab (irr_tab s) 0x52, isr_tab := set_bit_tab (isr_tab s) 0x43\<rparr>"
  shows "vecs (isr_tab (apic_at (apic_eoi 0 (snd (apic_get_interrupt (Some 0) (uni f id)))) 0)) = {0x43}"
proof -
  have v: "vecs (irr_tab (f uni_cpu)) = {0x52}" "vecs (isr_tab (f uni_cpu)) = {0x43}" "tpr (f uni_cpu) = 0"
    "spurious_vec (f uni_cpu) = 0x1ff" by (auto simp: f_def)
  have "apic_good (f uni_cpu)" by (simp add: uni_good f_def)
  note u = uni_state [where f = f and g = id, OF this]
  have sp: "bit (0x1ff :: u32) 8" "(0x52 :: nat) \<noteq> unat ((0x1ff :: u32) AND 0xff)" by code_simp+
  have l: "0 < length (local_apics (uni f id))" using slots_okD(1) [OF u(4)] by (simp add: f_def uni_start(2) [simplified])
  have "fst (apic_get_interrupt (Some 0) (uni f id)) = int 0x52"
    using apic_get_interrupt_cases [OF u(2) l] v sp by (simp add: f_def uni_start(2) [simplified] held_back_def)
  then have "apic_get_interrupt (Some 0) (uni f id) = (int 0x52, snd (apic_get_interrupt (Some 0) (uni f id)))"
    by (metis prod.collapse)
  from apic_eoi_ends_last_taken [OF u(4) _ u(2) _ this] v sp show ?thesis by (simp add: f_def uni_start(2) [simplified])
qed
theorem ioapic_line_requests_vector_witness:
  defines "g \<equiv> \<lambda>s. s\<lparr>ioredtbl := (ioredtbl s)[5 := 0x8055]\<rparr>"
  shows "0x55 \<in> vecs (irr_tab (apic_at (ioapic_set_irq 0 5 1 (uni id g)) 0))"
proof -
  have "apic_good (id uni_cpu)" by (simp add: uni_good)
  note u = uni_state [where f = id and g = g, OF this]
  have l: "length (ioredtbl (g (ioapic_at (intr_machine 1) 0))) = 24" by (simp add: g_def uni_start(2) [simplified])
  have e: "ioredtbl (ioapic_at (uni id g) 0) ! 5 = 0x8055" using u(3) l by (simp add: g_def uni_start(2) [simplified])
  have b: "\<not> bit (0x8055 :: u64) 16" "fixed_entry 0x8055" "entry_vector 0x8055 = 0x55"
    "drop_bit 56 (0x8055 :: u64) = 0" "\<not> bit (0x8055 :: u64) 11" by code_simp+
  have h: "has_ioapic (uni id g) 0" "slots_ok (uni id g)" using u(1,4) l by (simp_all add: intr_wf_def)
  have t: "addressed 0x8055 (uni id g) 0" by (rule uni_target) (use u(2) l b in simp_all)
  show ?thesis
    using ioapic_line_requests_vector [OF h, of 5 1 0] e b t by (simp add: IOAPIC_NUM_PINS_def)
qed


theorem apic_timer_no_drift_witness:
  "\<exists>nt. lapic_timer (apic_timer_update 2500 (uni_cpu\<lparr>lvt := replicate 6 0x20030, initial_count := 999\<rparr>)) = Timer (Some nt) \<and> unat nt = 3000"
proof -
  have "\<not> bit (0x20030 :: u32) 16" "bit (0x20030 :: u32) 17" by code_simp+
  then show ?thesis
    using apic_timer_no_drift [of "uni_cpu\<lparr>lvt := replicate 6 0x20030, initial_count := 999\<rparr>" 2 2500]
    by (auto simp: apic_period_def APIC_LVT_TIMER_def)
qed

end
