(* ===== verification/I8254.thy ===== *)
theory I8254
  imports Qemu_Common
begin

text \<open>
  The 8254 interval timer (\<open>hw/i8254.c\<close>). \<open>pit_channel\<close> is \<open>PITChannelState\<close> and
  \<open>pit_state\<close> is \<open>PITState\<close>. Times are 64-bit words: the source subtracts \<open>int64_t\<close>
  times and compares them with \<open>uint64_t\<close> values, so the arithmetic is modulo \<open>2^64\<close> and
  the comparisons are unsigned. \<open>count\<close> is a C \<open>int\<close>; where the source mixes it with a
  \<open>uint64_t\<close> the model converts it. The value of \<open>vm_clock\<close> is the argument \<open>now\<close>, read
  once per operation. Operations return the levels driven on the interrupt line beside
  the new state.
\<close>

section \<open>State\<close>

definition PIT_FREQ :: "'a::len word" where
  "PIT_FREQ = 1193182"

definition RW_STATE_LSB :: u8 where "RW_STATE_LSB = 1"

definition RW_STATE_MSB :: u8 where "RW_STATE_MSB = 2"

definition RW_STATE_WORD0 :: u8 where "RW_STATE_WORD0 = 3"

definition RW_STATE_WORD1 :: u8 where "RW_STATE_WORD1 = 4"

lemmas rw_states = RW_STATE_LSB_def RW_STATE_MSB_def RW_STATE_WORD0_def RW_STATE_WORD1_def

record pit_channel =
  count :: int
  latched_count :: u16
  count_latched :: u8
  status_latched :: u8
  status :: u8
  read_state :: u8
  write_state :: u8
  write_latch :: u8
  rw_mode :: u8
  mode :: u8
  bcd :: u8
  gate :: u8
  count_load_time :: u64
  next_transition_time :: u64
  irq_timer :: qemu_timer

record pit_state =
  channels :: "pit_channel list"

section \<open>Counter and output\<close>

text \<open>The local variable \<open>d\<close>: input clock ticks since the count was loaded.\<close>

definition pit_elapsed :: "pit_channel \<Rightarrow> u64 \<Rightarrow> u64" where
  "pit_elapsed s t = muldiv64 (t - count_load_time s) PIT_FREQ get_ticks_per_sec"

definition pit_get_count :: "pit_channel \<Rightarrow> u64 \<Rightarrow> int" where
  "pit_get_count s now =
     (let d = pit_elapsed s now; c = word_of_int (count s) :: u64;
          counter = (if mode s = 0 \<or> mode s = 1 \<or> mode s = 4 \<or> mode s = 5 then (c - d) AND 0xffff
                     else if mode s = 3 then c - (2 * d) mod c
                     else c - d mod c)
      in sint (ucast counter :: u32))"

definition pit_get_out1 :: "pit_channel \<Rightarrow> u64 \<Rightarrow> int" where
  "pit_get_out1 s current_time =
     (let d = pit_elapsed s current_time; c = word_of_int (count s) :: u64
      in if mode s = 1 then c_bool (d < c)
         else if mode s = 2 then c_bool (d mod c = 0 \<and> d \<noteq> 0)
         else if mode s = 3 then c_bool (d mod c < word_of_int ((count s + 1) div 2))
         else if mode s = 4 \<or> mode s = 5 then c_bool (d = c)
         else c_bool (d \<ge> c))"

definition pit_get_next_transition_time :: "pit_channel \<Rightarrow> u64 \<Rightarrow> u64" where
  "pit_get_next_transition_time s current_time =
     (let d = pit_elapsed s current_time; c = word_of_int (count s) :: u64;
          base = d div c * c;
          period2 = word_of_int ((count s + 1) div 2) :: u64;
          next_tick =
            (if mode s = 2 then
               (if d - base = 0 \<and> d \<noteq> 0 then Some (base + c) else Some (base + c + 1))
             else if mode s = 3 then
               (if d - base < period2 then Some (base + period2) else Some (base + c))
             else if mode s = 4 \<or> mode s = 5 then
               (if d < c then Some c else if d = c then Some (word_of_int (count s + 1)) else None)
             else (if d < c then Some c else None))
      in case next_tick of
           None \<Rightarrow> -1
         | Some n \<Rightarrow>
             (let next_time = count_load_time s + muldiv64 n get_ticks_per_sec PIT_FREQ
              in if next_time \<le> current_time then current_time + 1 else next_time))"

section \<open>Operations\<close>

definition pit_irq_timer_update :: "u64 \<Rightarrow> pit_channel \<Rightarrow> pit_channel \<times> int list" where
  "pit_irq_timer_update current_time s =
     (if irq_timer s = NoTimer then (s, [])
      else
        (let expire_time = pit_get_next_transition_time s current_time;
             irq_level = pit_get_out1 s current_time
         in (s\<lparr>next_transition_time := expire_time,
               irq_timer := (if expire_time \<noteq> -1 then qemu_mod_timer (irq_timer s) expire_time
                             else qemu_del_timer (irq_timer s))\<rparr>,
             [irq_level])))"

definition pit_irq_timer :: "pit_channel \<Rightarrow> pit_channel \<times> int list" where
  "pit_irq_timer s = pit_irq_timer_update (next_transition_time s) s"

definition pit_load_count :: "int \<Rightarrow> u64 \<Rightarrow> pit_channel \<Rightarrow> pit_channel \<times> int list" where
  "pit_load_count val now s =
     (let val = (if val = 0 then 0x10000 else val);
          s = s\<lparr>count_load_time := now, count := val\<rparr>
      in pit_irq_timer_update (count_load_time s) s)"

definition pit_latch_count :: "u64 \<Rightarrow> pit_channel \<Rightarrow> pit_channel" where
  "pit_latch_count now s =
     (if count_latched s = 0
      then s\<lparr>latched_count := word_of_int (pit_get_count s now), count_latched := rw_mode s\<rparr>
      else s)"

text \<open>One turn of the read-back loop, for one channel.\<close>

definition pit_read_back :: "u32 \<Rightarrow> u64 \<Rightarrow> nat \<Rightarrow> pit_channel \<Rightarrow> pit_channel" where
  "pit_read_back val now channel s =
     (if val AND push_bit channel 2 \<noteq> 0 then
        (let s = (if val AND 0x20 = 0 then pit_latch_count now s else s)
         in if val AND 0x10 = 0 \<and> status_latched s = 0
            then s\<lparr>status := push_bit 7 (word_of_int (pit_get_out1 s now)) OR push_bit 4 (rw_mode s)
                            OR push_bit 1 (mode s) OR bcd s,
                   status_latched := 1\<rparr>
            else s)
      else s)"

definition pit_ioport_write :: "u32 \<Rightarrow> u32 \<Rightarrow> u64 \<Rightarrow> pit_state \<Rightarrow> pit_state \<times> int list" where
  "pit_ioport_write addr val now pit =
     (let addr = addr AND 3; chs = channels pit
      in if addr = 3 then
           (let channel = unat (drop_bit 6 val)
            in if channel = 3 then
                 (pit\<lparr>channels := map (\<lambda>i. pit_read_back val now i (chs ! i)) [0..<3]\<rparr>, [])
               else
                 (let s = chs ! channel; access = drop_bit 4 val AND 3;
                      s = (if access = 0 then pit_latch_count now s
                           else s\<lparr>rw_mode := ucast access, read_state := ucast access,
                                  write_state := ucast access,
                                  mode := ucast (drop_bit 1 val AND 7), bcd := ucast (val AND 1)\<rparr>)
                  in (pit\<lparr>channels := chs[channel := s]\<rparr>, [])))
         else
           (let i = unat addr; s = chs ! i;
                (s, out) =
                  (if write_state s = RW_STATE_MSB then
                     pit_load_count (sint (push_bit 8 val)) now s
                   else if write_state s = RW_STATE_WORD0 then
                     (s\<lparr>write_latch := ucast val, write_state := RW_STATE_WORD1\<rparr>, [])
                   else if write_state s = RW_STATE_WORD1 then
                     (let (s, out) = pit_load_count (sint (ucast (write_latch s) OR push_bit 8 val)) now s
                      in (s\<lparr>write_state := RW_STATE_WORD0\<rparr>, out))
                   else pit_load_count (sint val) now s)
            in (pit\<lparr>channels := chs[i := s]\<rparr>, out)))"

text \<open>A read of one channel: the value and the new channel state.\<close>

definition pit_channel_read :: "u64 \<Rightarrow> pit_channel \<Rightarrow> u32 \<times> pit_channel" where
  "pit_channel_read now s =
     (if status_latched s \<noteq> 0 then (ucast (status s), s\<lparr>status_latched := 0\<rparr>)
      else if count_latched s \<noteq> 0 then
        (if count_latched s = RW_STATE_MSB then
           (ucast (drop_bit 8 (latched_count s)), s\<lparr>count_latched := 0\<rparr>)
         else if count_latched s = RW_STATE_WORD0 then
           (ucast (latched_count s AND 0xff), s\<lparr>count_latched := RW_STATE_MSB\<rparr>)
         else (ucast (latched_count s AND 0xff), s\<lparr>count_latched := 0\<rparr>))
      else
        (let c = word_of_int (pit_get_count s now) :: u32
         in if read_state s = RW_STATE_MSB then (drop_bit 8 c AND 0xff, s)
            else if read_state s = RW_STATE_WORD0 then
              (c AND 0xff, s\<lparr>read_state := RW_STATE_WORD1\<rparr>)
            else if read_state s = RW_STATE_WORD1 then
              (drop_bit 8 c AND 0xff, s\<lparr>read_state := RW_STATE_WORD0\<rparr>)
            else (c AND 0xff, s)))"

text \<open>
  The read handler indexes \<open>channels[addr & 3]\<close>; \<open>pit_initfn\<close> registers it for three
  ports only. An index past the array is \<open>None\<close>.
\<close>

definition pit_ioport_read :: "u32 \<Rightarrow> u64 \<Rightarrow> pit_state \<Rightarrow> (u32 \<times> pit_state) option" where
  "pit_ioport_read addr now pit =
     (let i = unat (addr AND 3)
      in if i < length (channels pit) then
           (let (ret, s) = pit_channel_read now (channels pit ! i)
            in Some (ret, pit\<lparr>channels := (channels pit)[i := s]\<rparr>))
         else None)"

definition pit_get_out :: "pit_state \<Rightarrow> nat \<Rightarrow> u64 \<Rightarrow> int" where
  "pit_get_out pit channel current_time = pit_get_out1 (channels pit ! channel) current_time"

definition pit_set_gate1 :: "u8 \<Rightarrow> u64 \<Rightarrow> pit_channel \<Rightarrow> pit_channel \<times> int list" where
  "pit_set_gate1 val now s =
     (let (s, out) =
        (if mode s = 1 \<or> mode s = 5 \<or> mode s = 2 \<or> mode s = 3 then
           (if gate s < val then
              (let s = s\<lparr>count_load_time := now\<rparr> in pit_irq_timer_update (count_load_time s) s)
            else (s, []))
         else (s, []))
      in (s\<lparr>gate := val\<rparr>, out))"

definition pit_set_gate :: "nat \<Rightarrow> u8 \<Rightarrow> u64 \<Rightarrow> pit_state \<Rightarrow> pit_state \<times> int list" where
  "pit_set_gate channel val now pit =
     (let (s, out) = pit_set_gate1 val now (channels pit ! channel)
      in (pit\<lparr>channels := (channels pit)[channel := s]\<rparr>, out))"

definition pit_get_gate :: "pit_state \<Rightarrow> nat \<Rightarrow> u8" where
  "pit_get_gate pit channel = gate (channels pit ! channel)"

definition pit_get_initial_count :: "pit_state \<Rightarrow> nat \<Rightarrow> int" where
  "pit_get_initial_count pit channel = count (channels pit ! channel)"

definition pit_get_mode :: "pit_state \<Rightarrow> nat \<Rightarrow> u8" where
  "pit_get_mode pit channel = mode (channels pit ! channel)"

definition pit_reset1 :: "nat \<Rightarrow> u64 \<Rightarrow> pit_channel \<Rightarrow> pit_channel \<times> int list" where
  "pit_reset1 i now s = pit_load_count 0 now (s\<lparr>mode := 3, gate := c_bool (i \<noteq> 2)\<rparr>)"

definition pit_reset :: "u64 \<Rightarrow> pit_state \<Rightarrow> pit_state \<times> int list" where
  "pit_reset now pit =
     (let rs = map (\<lambda>i. pit_reset1 i now (channels pit ! i)) [0..<3]
      in (pit\<lparr>channels := map fst rs\<rparr>, concat (map snd rs)))"

definition hpet_pit_disable :: "pit_state \<Rightarrow> pit_state" where
  "hpet_pit_disable pit =
     (let s = channels pit ! 0
      in pit\<lparr>channels := (channels pit)[0 := s\<lparr>irq_timer := qemu_del_timer (irq_timer s)\<rparr>]\<rparr>)"

definition hpet_pit_enable :: "u64 \<Rightarrow> pit_state \<Rightarrow> pit_state \<times> int list" where
  "hpet_pit_enable now pit =
     (let (s, out) = pit_load_count 0 now ((channels pit ! 0)\<lparr>mode := 3, gate := 1\<rparr>)
      in (pit\<lparr>channels := (channels pit)[0 := s]\<rparr>, out))"

text \<open>The state \<open>pit_initfn\<close> leaves: zeroed channels, the first one with a timer.\<close>

definition pit_channel_zero :: "qemu_timer \<Rightarrow> pit_channel" where
  "pit_channel_zero tm = \<lparr>count = 0, latched_count = 0, count_latched = 0, status_latched = 0,
     status = 0, read_state = 0, write_state = 0, write_latch = 0, rw_mode = 0, mode = 0, bcd = 0,
     gate = 0, count_load_time = 0, next_transition_time = 0, irq_timer = tm\<rparr>"

definition pit_initfn :: pit_state where
  "pit_initfn = \<lparr>channels = [pit_channel_zero (Timer None), pit_channel_zero NoTimer,
                            pit_channel_zero NoTimer]\<rparr>"

section \<open>The wave of a channel\<close>

text \<open>
  The output as a function of the ticks since the load, and the tick at which the source
  expects it to change, over numbers.
\<close>

definition pit_wave :: "u8 \<Rightarrow> nat \<Rightarrow> nat \<Rightarrow> bool" where
  "pit_wave m c d =
     (if m = 1 then d < c
      else if m = 2 then d mod c = 0 \<and> d \<noteq> 0
      else if m = 3 then d mod c < (c + 1) div 2
      else if m = 4 \<or> m = 5 then d = c
      else c \<le> d)"

definition pit_next_tick :: "u8 \<Rightarrow> nat \<Rightarrow> nat \<Rightarrow> nat option" where
  "pit_next_tick m c d =
     (if m = 2 then (if d mod c = 0 \<and> d \<noteq> 0 then Some (d div c * c + c) else Some (d div c * c + c + 1))
      else if m = 3 then
        (if d mod c < (c + 1) div 2 then Some (d div c * c + (c + 1) div 2) else Some (d div c * c + c))
      else if m = 4 \<or> m = 5 then
        (if d < c then Some c else if d = c then Some (c + 1) else None)
      else (if d < c then Some c else None))"

definition pit_ok :: "pit_channel \<Rightarrow> bool" where
  "pit_ok s \<longleftrightarrow> 1 \<le> count s \<and> count s \<le> 65536"

abbreviation pit_ticks :: "nat \<Rightarrow> nat" where
  "pit_ticks \<equiv> to_ticks 1193182 1000000000"

abbreviation pit_time :: "nat \<Rightarrow> nat" where
  "pit_time \<equiv> to_time 1193182 1000000000"

interpretation pit_clock: tick_clock 1193182 1000000000
  by unfold_locales simp_all

lemma pit_wave_const:
  assumes "m \<noteq> 2" "0 < c" "d \<le> k" "\<forall>n. pit_next_tick m c d = Some n \<longrightarrow> k < n"
  shows "pit_wave m c k = pit_wave m c d"
proof (cases "m = 3")
  case True
  define q r where "q = d div c" and "r = d mod c"
  have d: "d = q * c + r" "r < c" using assms(2) by (simp_all add: q_def r_def)
  have next_tick: "pit_next_tick m c d =
      Some (if r < (c + 1) div 2 then q * c + (c + 1) div 2 else q * c + c)"
    using True by (simp add: pit_next_tick_def q_def r_def)
  have "k < q * c + c"
    using assms(2) assms(4) [rule_format, OF next_tick] by (auto split: if_splits)
  then have "k div c = q" using assms(3) d by (intro div_nat_eqI) (auto simp: algebra_simps)
  then have k: "k = q * c + k mod c" by (metis div_mult_mod_eq)
  have "(k mod c < (c + 1) div 2) = (r < (c + 1) div 2)"
  proof (cases "r < (c + 1) div 2")
    case True
    then have "k < q * c + (c + 1) div 2" using assms(4) [rule_format, OF next_tick] by simp
    then show ?thesis using k True by linarith
  next
    case False
    then show ?thesis using k d(1) assms(3) by linarith
  qed
  then show ?thesis using True by (simp add: pit_wave_def r_def)
next
  case False
  then show ?thesis using assms
    by (auto simp: pit_wave_def pit_next_tick_def split: if_splits)
qed

lemma pit_next_tick_later:
  assumes "0 < c" "pit_next_tick m c d = Some n"
  shows "d < n" "n \<le> d + c + 1"
proof -
  define q r where "q = d div c" and "r = d mod c"
  have "d = q * c + r" "r < c" using assms(1) by (simp_all add: q_def r_def)
  moreover have "pit_next_tick m c d =
     (if m = 2 then (if r = 0 \<and> d \<noteq> 0 then Some (q * c + c) else Some (q * c + c + 1))
      else if m = 3 then (if r < (c + 1) div 2 then Some (q * c + (c + 1) div 2) else Some (q * c + c))
      else if m = 4 \<or> m = 5 then (if d < c then Some c else if d = c then Some (c + 1) else None)
      else (if d < c then Some c else None))"
    by (simp add: pit_next_tick_def q_def r_def)
  ultimately show "d < n" "n \<le> d + c + 1"
    using assms by (auto split: if_splits)
qed


section \<open>The words compute the wave\<close>

lemma unat_count:
  assumes "pit_ok s"
  shows "unat (word_of_int (count s) :: u64) = nat (count s)"
    and "unat (word_of_int ((count s + 1) div 2) :: u64) = (nat (count s) + 1) div 2"
    and "unat (word_of_int (count s + 1) :: u64) = nat (count s) + 1"
proof -
  define n where "n = nat (count s)"
  have n: "count s = int n" "n \<le> 65536" using assms unfolding n_def pit_ok_def by linarith+
  have int: "(count s + 1) div 2 = int ((n + 1) div 2)" "count s + 1 = int (n + 1)"
    using n(1) by (simp_all add: zdiv_int)
  have of_int: "unat (word_of_int (int k) :: u64) = k" if "k \<le> 65537" for k
    using that by (simp add: unat_of_nat)
  have le: "n \<le> 65537" "(n + 1) div 2 \<le> 65537" "n + 1 \<le> 65537" using n(2) by simp_all
  show "unat (word_of_int (count s) :: u64) = nat (count s)"
    using of_int [OF le(1)] n(1) by simp
  show "unat (word_of_int ((count s + 1) div 2) :: u64) = (nat (count s) + 1) div 2"
    unfolding int(1) n_def [symmetric] by (rule of_int [OF le(2)])
  show "unat (word_of_int (count s + 1) :: u64) = nat (count s) + 1"
    unfolding int(2) n_def [symmetric] by (rule of_int [OF le(3)])
qed

lemma pit_elapsed_nat: "unat (pit_elapsed s t) = pit_ticks (unat (t - count_load_time s))"
proof -
  have "pit_ticks x < 2 ^ 64" if "x < 2 ^ 64" for x
    using that pit_clock.to_ticks_le [of x] by simp
  from this [of "unat (t - count_load_time s)"] unsigned_less [of "t - count_load_time s", where ?'a = nat]
  show ?thesis
    by (simp add: pit_elapsed_def muldiv64_exact PIT_FREQ_def get_ticks_per_sec_def to_ticks_def)
qed

lemma pit_get_out1_wave:
  assumes "pit_ok s"
  shows "pit_get_out1 s t =
    c_bool (pit_wave (mode s) (nat (count s)) (pit_ticks (unat (t - count_load_time s))))"
  using unat_count [OF assms] pit_elapsed_nat [of s t]
  by (auto simp: pit_get_out1_def Let_def pit_wave_def word_less_nat_alt word_le_nat_alt
      unat_mod_distrib word_unat_eq_iff)

text \<open>Where no 64-bit overflow can occur: times before \<open>2^63\<close> and a load in the past.\<close>

definition pit_time_ok :: "pit_channel \<Rightarrow> u64 \<Rightarrow> bool" where
  "pit_time_ok s t \<longleftrightarrow> count_load_time s \<le> t \<and> t < 2 ^ 63"

lemma pit_target_bound:
  assumes "n \<le> pit_ticks x + 65537"
  shows "pit_time n \<le> x + 54926240"
  using pit_clock.to_time_bound [OF assms] by simp

lemma word_next_tick:
  fixes d c p :: u64
  assumes "unat d < 2 ^ 63" "0 < unat c" "unat c \<le> 65536" "unat p = (unat c + 1) div 2"
  shows "unat (d div c * c + c) = unat d div unat c * unat c + unat c"
    and "unat (d div c * c + c + 1) = unat d div unat c * unat c + unat c + 1"
    and "unat (d div c * c + p) = unat d div unat c * unat c + unat p"
    and "unat (d - d div c * c) = unat d mod unat c"
proof -
  have le: "unat d div unat c * unat c \<le> unat d" by (rule div_times_less_eq_dividend)
  also have "\<dots> < 2 ^ 64" using assms(1) by simp
  finally have base: "unat (d div c * c) = unat d div unat c * unat c"
    by (simp only: unat_word_ariths(2) unat_div_distrib) simp
  show 1: "unat (d div c * c + c) = unat d div unat c * unat c + unat c"
    using assms le by (simp add: unat_word_ariths(1) base del: div_times_less_eq_dividend)
  show "unat (d div c * c + c + 1) = unat d div unat c * unat c + unat c + 1"
    using assms le by (simp add: unat_word_ariths(1) base del: div_times_less_eq_dividend)
  show "unat (d div c * c + p) = unat d div unat c * unat c + unat p"
    using assms le by (simp add: unat_word_ariths(1) base del: div_times_less_eq_dividend)
  have "d - d div c * c = d mod c" by (rule minus_div_mult_eq_mod)
  then show "unat (d - d div c * c) = unat d mod unat c" by (simp add: unat_mod_distrib)
qed

lemma pit_next_nat:
  assumes s: "pit_ok s" and t: "pit_time_ok s t"
  defines "x \<equiv> unat t - unat (count_load_time s)"
  shows "pit_get_next_transition_time s t =
     (case pit_next_tick (mode s) (nat (count s)) (pit_ticks x) of
        None \<Rightarrow> -1
      | Some n \<Rightarrow> of_nat (max (unat (count_load_time s) + pit_time n) (unat t + 1)))"
    (is "_ = ?R")
proof -
  have x: "unat (t - count_load_time s) = x"
    using t by (simp add: pit_time_ok_def x_def unat_sub word_le_nat_alt)
  have t63: "unat t < 2 ^ 63"
    using t by (simp add: pit_time_ok_def word_less_nat_alt)
  have "x < 2 ^ 63" using t63 by (simp add: x_def)
  define d where "d = pit_elapsed s t"
  have d: "unat d = pit_ticks x" by (simp add: d_def pit_elapsed_nat x)
  have d63: "unat d < 2 ^ 63" using pit_clock.to_ticks_le [of x] \<open>x < 2 ^ 63\<close> by (simp add: d)
  define c p where "c = (word_of_int (count s) :: u64)" and "p = (word_of_int ((count s + 1) div 2) :: u64)"
  define cn where "cn = nat (count s)"
  have c: "unat c = cn" "unat p = (cn + 1) div 2" "unat (word_of_int (count s + 1) :: u64) = cn + 1"
    using unat_count [OF s] by (simp_all add: c_def p_def cn_def)
  have cn: "0 < cn" "cn \<le> 65536" using s by (auto simp: cn_def pit_ok_def)
  note ticks = word_next_tick [of d c p, OF d63, unfolded c, OF cn refl]
  define nt where "nt = (if mode s = 2 then
               (if d - d div c * c = 0 \<and> d \<noteq> 0 then Some (d div c * c + c) else Some (d div c * c + c + 1))
             else if mode s = 3 then
               (if d - d div c * c < p then Some (d div c * c + p) else Some (d div c * c + c))
             else if mode s = 4 \<or> mode s = 5 then
               (if d < c then Some c else if d = c then Some (word_of_int (count s + 1)) else None)
             else (if d < c then Some c else None))"
  have eqs: "(d - d div c * c = 0) = (unat d mod cn = 0)" "(d = 0) = (unat d = 0)" "(d = c) = (unat d = cn)"
    unfolding word_unat_eq_iff ticks(4) c(1) by simp_all
  have nt: "map_option unat nt = pit_next_tick (mode s) cn (unat d)"
    unfolding nt_def pit_next_tick_def eqs word_less_nat_alt ticks c
    by (simp only: if_distrib [of "map_option unat"] option.map ticks c)
  show ?thesis
  proof (cases nt)
    case None
    then show ?thesis using nt
      by (simp add: pit_get_next_transition_time_def Let_def d_def [symmetric] c_def [symmetric]
          p_def [symmetric] nt_def [symmetric] d cn_def)
  next
    case (Some n)
    have n: "pit_next_tick (mode s) cn (pit_ticks x) = Some (unat n)" using nt Some d by simp
    then have "unat n \<le> pit_ticks x + 65537" using pit_next_tick_later(2) [OF cn(1)] cn(2) by force
    then have T: "pit_time (unat n) \<le> x + 54926240" by (rule pit_target_bound)
    have ld: "unat (count_load_time s) + x = unat t"
      using t by (simp add: x_def pit_time_ok_def word_le_nat_alt)
    have "unat (muldiv64 n get_ticks_per_sec PIT_FREQ) = pit_time (unat n)"
      using T \<open>x < 2 ^ 63\<close>
      by (simp add: muldiv64_exact PIT_FREQ_def get_ticks_per_sec_def to_time_def)
    then have nx: "unat (count_load_time s + muldiv64 n get_ticks_per_sec PIT_FREQ)
        = unat (count_load_time s) + pit_time (unat n)" (is "unat ?nx = ?N")
      using T ld t63 by (simp add: unat_word_ariths)
    have "(if ?nx \<le> t then t + 1 else ?nx) = of_nat (max ?N (unat t + 1))"
    proof (cases "?N \<le> unat t")
      case True
      then show ?thesis using nx by (simp add: word_le_nat_alt max_def)
    next
      case False
      have "max ?N (unat t + 1) = unat ?nx" using False nx by linarith
      moreover have "\<not> ?nx \<le> t" using False nx by (simp add: word_le_nat_alt)
      ultimately show ?thesis by (simp only: if_False of_nat_unat ucast_id)
    qed
    then show ?thesis using Some n
      by (simp add: pit_get_next_transition_time_def Let_def d_def [symmetric] c_def [symmetric]
          p_def [symmetric] nt_def [symmetric] cn_def)
  qed
qed

lemma pit_next_unat:
  assumes "pit_ok s" "pit_time_ok s t"
  defines "x \<equiv> unat t - unat (count_load_time s)"
  assumes n: "pit_next_tick (mode s) (nat (count s)) (pit_ticks x) = Some n"
  shows "unat (pit_get_next_transition_time s t) = max (unat (count_load_time s) + pit_time n) (unat t + 1)"
    and "pit_get_next_transition_time s t \<noteq> -1"
    and "unat (pit_get_next_transition_time s t) < 2 ^ 63 + 54926241"
proof -
  let ?m = "max (unat (count_load_time s) + pit_time n) (unat t + 1)"
  have c: "0 < nat (count s)" "nat (count s) \<le> 65536" using assms(1) by (auto simp: pit_ok_def)
  have "n \<le> pit_ticks x + 65537" using pit_next_tick_later(2) [OF c(1) n] c(2) by simp
  then have "pit_time n \<le> x + 54926240" by (rule pit_target_bound)
  moreover have t: "unat t < 2 ^ 63" "unat (count_load_time s) \<le> unat t"
    using assms(2) by (simp_all add: pit_time_ok_def word_less_nat_alt word_le_nat_alt)
  ultimately have m: "?m < 2 ^ 63 + 54926241" by (simp add: x_def)
  have eq: "pit_get_next_transition_time s t = of_nat ?m"
    using pit_next_nat [OF assms(1,2)] n by (simp add: x_def)
  show u: "unat (pit_get_next_transition_time s t) = ?m"
    unfolding eq using m by (simp add: unat_of_nat)
  show "pit_get_next_transition_time s t \<noteq> -1"
  proof
    assume "pit_get_next_transition_time s t = -1"
    then have "?m = unat (- 1 :: u64)" using u by simp
    also have "\<dots> = 2 ^ 64 - 1" by (simp add: unsigned_minus_1_eq_mask mask_eq_exp_minus_1)
    finally show False using m by simp
  qed
  show "unat (pit_get_next_transition_time s t) < 2 ^ 63 + 54926241" using u m by simp
qed

lemma pit_next_none:
  assumes "pit_ok s" "pit_time_ok s t"
    "pit_next_tick (mode s) (nat (count s)) (pit_ticks (unat t - unat (count_load_time s))) = None"
  shows "pit_get_next_transition_time s t = -1"
  using pit_next_nat [OF assms(1,2)] assms(3) by simp

lemma pit_out_at:
  assumes "pit_ok s" "count_load_time s \<le> t"
  shows "pit_get_out1 s t = c_bool (pit_wave (mode s) (nat (count s))
           (pit_ticks (unat t - unat (count_load_time s))))"
  using pit_get_out1_wave [OF assms(1), of t] assms(2) by (simp add: unat_sub word_le_nat_alt)

lemma pit_out_const:
  assumes "pit_ok s" "pit_time_ok s t" "mode s \<noteq> 2" "t \<le> u"
    "\<forall>n. pit_next_tick (mode s) (nat (count s)) (pit_ticks (unat t - unat (count_load_time s))) = Some n
         \<longrightarrow> pit_ticks (unat u - unat (count_load_time s)) < n"
  shows "pit_get_out1 s u = pit_get_out1 s t"
proof -
  have "pit_ticks (unat t - unat (count_load_time s)) \<le> pit_ticks (unat u - unat (count_load_time s))"
    using assms(4) by (intro pit_clock.to_ticks_mono) (simp add: word_le_nat_alt diff_le_mono)
  then have "pit_wave (mode s) (nat (count s)) (pit_ticks (unat u - unat (count_load_time s)))
    = pit_wave (mode s) (nat (count s)) (pit_ticks (unat t - unat (count_load_time s)))"
    using assms(1,3,5) by (intro pit_wave_const) (auto simp: pit_ok_def)
  moreover have "count_load_time s \<le> t" "count_load_time s \<le> u"
    using assms(2,4) by (auto simp: pit_time_ok_def)
  ultimately show ?thesis using assms(1) by (simp add: pit_out_at)
qed

section \<open>What the counter does\<close>

text \<open>
  C8: No output edge is missed. In every mode but the rate generator, the time that
  \<^const>\<open>pit_get_next_transition_time\<close> programs into the timer is later than now, and the
  output is constant from now until strictly before that time; the result \<open>-1\<close> (stop the
  timer) means that the output never changes again.
\<close>

theorem pit_no_missed_edge:
  assumes "pit_ok s" "pit_time_ok s t" "mode s \<noteq> 2"
  defines "nxt \<equiv> pit_get_next_transition_time s t"
  shows "(nxt = -1 \<or> t < nxt)
       \<and> (\<forall>u. t \<le> u \<and> u < 2 ^ 63 \<and> (nxt = -1 \<or> u < nxt) \<longrightarrow> pit_get_out1 s u = pit_get_out1 s t)"
proof (cases "pit_next_tick (mode s) (nat (count s)) (pit_ticks (unat t - unat (count_load_time s)))")
  case None
  then have "pit_get_out1 s u = pit_get_out1 s t" if "t \<le> u" for u
    using pit_out_const [OF assms(1-3) that] by simp
  then show ?thesis using pit_next_none [OF assms(1,2) None] unfolding nxt_def by blast
next
  case (Some n)
  note nx = pit_next_unat [OF assms(1,2) Some, folded nxt_def]
  have "t < nxt" using nx(1) by (simp add: word_less_nat_alt)
  moreover have "pit_get_out1 s u = pit_get_out1 s t" if u: "t \<le> u" "u < nxt" for u
  proof (cases "u = t")
    case False
    let ?L = "unat (count_load_time s)"
    have "t < u" using u(1) False by simp
    then have "unat t < unat u" "unat u < max (?L + pit_time n) (unat t + 1)"
      using u(2) nx(1) by (simp_all only: word_less_nat_alt)
    moreover have "?L \<le> unat t" using assms(2) by (simp add: pit_time_ok_def word_le_nat_alt)
    ultimately have "unat u - ?L < pit_time n" by linarith
    then have "pit_ticks (unat u - ?L) < n" by (rule pit_clock.ticks_before)
    then show ?thesis using pit_out_const [OF assms(1-3) u(1)] Some by simp
  qed simp
  ultimately show ?thesis using nx(2) by blast
qed

theorem pit_no_missed_edge_witness:
  "pit_get_next_transition_time (pit_channel_zero NoTimer\<lparr>mode := 3, count := 1000\<rparr>) 7 = 419047
   \<and> pit_get_out1 (pit_channel_zero NoTimer\<lparr>mode := 3, count := 1000\<rparr>) 419046
     = pit_get_out1 (pit_channel_zero NoTimer\<lparr>mode := 3, count := 1000\<rparr>) 7"
proof -
  let ?s = "pit_channel_zero NoTimer\<lparr>mode := 3, count := 1000\<rparr>"
  have ok: "pit_ok ?s" "pit_time_ok ?s 7" "mode ?s \<noteq> 2"
    by (simp_all add: pit_ok_def pit_time_ok_def pit_channel_zero_def)
  have nxt: "pit_get_next_transition_time ?s 7 = 419047"
    using pit_next_nat [OF ok(1,2)]
    by (simp add: pit_channel_zero_def pit_next_tick_def to_ticks_def to_time_def)
  from pit_no_missed_edge [OF ok, THEN conjunct2, rule_format, of 419046, unfolded nxt]
  show ?thesis by (simp add: nxt)
qed



lemma pit_elapsed_bound: "unat (pit_elapsed s t) < 2 ^ 55"
proof -
  have "unat (t - count_load_time s) < 2 ^ 64"
    using unsigned_less [of "t - count_load_time s", where ?'a = nat] by simp
  then have "pit_ticks (unat (t - count_load_time s)) < 2 ^ 55" by (simp add: to_ticks_def)
  then show ?thesis by (simp only: pit_elapsed_nat)
qed

lemma pit_count_nat:
  fixes now :: u64
  assumes "pit_ok s"
  defines "d \<equiv> int (unat (pit_elapsed s now))"
  shows "pit_get_count s now =
    (if mode s \<in> {0, 1, 4, 5} then (count s - d) mod 65536
     else if mode s = 3 then count s - (2 * d) mod count s
     else count s - d mod count s)"
proof -
  define D where "D = pit_elapsed s now"
  define c where "c = (word_of_int (count s) :: u64)"
  have c: "uint c = count s" "0 < count s" "count s \<le> 65536"
    using assms(1) unat_count(1) [OF assms(1)] by (auto simp: c_def pit_ok_def uint_nat)
  have d: "uint D = d" "0 \<le> d" by (simp_all add: D_def d_def)
  have "int (unat (pit_elapsed s now)) < int (2 ^ 55)"
    using pit_elapsed_bound [of s now] by (simp only: of_nat_less_iff)
  then have d55: "d < 2 ^ 55" by (simp add: d_def)
  have m: "(0xffff :: u64) = mask 16" by (simp add: mask_eq_exp_minus_1)
  have "uint ((c - D) AND 0xffff) = take_bit 16 (uint (c - D))"
    unfolding m take_bit_eq_mask [symmetric] by (rule unsigned_take_bit_eq)
  also have "\<dots> = (uint c - uint D) mod 2 ^ 64 mod 2 ^ 16"
    unfolding take_bit_eq_mod uint_word_ariths(2) by simp
  also have "\<dots> = (count s - d) mod 65536" unfolding c d by (simp add: mod_mod_cancel)
  finally have low: "uint ((c - D) AND 0xffff) = (count s - d) mod 65536" .
  have sub: "uint (c - x mod c) = count s - uint x mod count s" for x
  proof -
    have "0 \<le> uint x mod count s" "uint x mod count s < count s" using c(2) by simp_all
    then have "(count s - uint x mod count s) mod 2 ^ LENGTH(64) = count s - uint x mod count s"
      using c(3) by (intro mod_pos_pos_trivial, linarith) simp
    then show ?thesis unfolding uint_word_ariths(2) uint_mod_distrib c .
  qed
  have dbl: "uint (2 * D) = 2 * d" using d d55 unfolding uint_word_ariths(3) by (subst mod_pos_pos_trivial) simp_all
  have count: "pit_get_count s now = sint (ucast (if mode s \<in> {0, 1, 4, 5} then (c - D) AND 0xffff
      else if mode s = 3 then c - (2 * D) mod c else c - D mod c) :: u32)"
    by (simp add: pit_get_count_def Let_def D_def c_def)
  have small: "sint (ucast w :: u32) = uint w" if "uint w \<le> 65536" for w :: u64
    using that by (simp add: sint_ucast_small)
  have le: "(count s - d) mod 65536 \<le> 65536" "count s - y mod count s \<le> 65536" for y
    using c(3) pos_mod_bound [of 65536 "count s - d"] pos_mod_sign [OF c(2), of y] by simp_all
  note vals = small [of "(c - D) AND 0xffff", unfolded low, OF le(1)]
    small [of "c - (2 * D) mod c", unfolded sub dbl, OF le(2)] small [of "c - D mod c", unfolded sub d, OF le(2)]
  show ?thesis unfolding count
    by (cases "mode s \<in> {0, 1, 4, 5}"; cases "mode s = 3") (simp_all only: if_True if_False refl vals)
qed

text \<open>
  The counter a program reads. With \<open>d\<close> the ticks since the load, the count is
  \<open>(count - d) mod 65536\<close> in the one-shot modes, which keep running below zero, and
  restarts from the initial count, without ever showing 0, in the periodic modes; the square
  wave counts down by two.
\<close>

theorem pit_counter_value:
  fixes now :: u64
  assumes "pit_ok s"
  defines "d \<equiv> int (unat (pit_elapsed s now))"
  shows "pit_get_count s now =
    (if mode s \<in> {0, 1, 4, 5} then (count s - d) mod 65536
     else if mode s = 3 then count s - (2 * d) mod count s
     else count s - d mod count s)"
  unfolding d_def by (rule pit_count_nat [OF assms(1)])

theorem pit_counter_value_witness:
  "pit_get_count (pit_channel_zero NoTimer\<lparr>mode := 2, count := 100\<rparr>) 1000000 = 7"
proof -
  let ?s = "pit_channel_zero NoTimer\<lparr>mode := 2, count := 100\<rparr>"
  have ok: "pit_ok ?s" by (simp add: pit_ok_def pit_channel_zero_def)
  have "uint (pit_elapsed ?s 1000000) = int 1193"
    unfolding uint_nat pit_elapsed_nat by (simp add: pit_channel_zero_def to_ticks_def)
  with pit_counter_value [OF ok, of 1000000] show ?thesis
    by (simp add: pit_channel_zero_def)
qed
text \<open>
  A latched count stands still. After the latch command for a channel that reads both
  bytes, the two reads of its port return the low and the high byte of the count at the time
  of the command, however late they come, and release the latch.
\<close>

theorem pit_latch_roundtrip:
  fixes t0 t1 t2 :: u64
  assumes "length (channels pit) = 3" "i < 3"
  defines "s \<equiv> channels pit ! i"
  assumes "rw_mode s = RW_STATE_WORD0" "count_latched s = 0" "status_latched s = 0"
  defines "pit1 \<equiv> fst (pit_ioport_write 3 (of_nat (64 * i)) t0 pit)"
  shows "\<exists>lo hi pit2 pit3.
      pit_ioport_read (of_nat i) t1 pit1 = Some (lo, pit2)
    \<and> pit_ioport_read (of_nat i) t2 pit2 = Some (hi, pit3)
    \<and> int (unat lo + 256 * unat hi) = pit_get_count s t0 mod 65536
    \<and> channels pit3 = (channels pit)[i := s\<lparr>latched_count := word_of_int (pit_get_count s t0)\<rparr>]"
proof -
  define l where "l = (word_of_int (pit_get_count s t0) :: u16)"
  have i: "unat (drop_bit 6 (of_nat (64 * i) :: u32)) = i" "drop_bit 4 (of_nat (64 * i) :: u32) AND 3 = 0"
    "unat ((of_nat i :: u32) AND 3) = i"
    using assms(2) by (auto simp: less_Suc_eq numeral_3_eq_3)
  have ch: "channels pit1 = (channels pit)[i := s\<lparr>latched_count := l, count_latched := RW_STATE_WORD0\<rparr>]"
    using assms i by (simp add: pit_ioport_write_def pit_latch_count_def l_def Let_def)
  have len: "i < length (channels pit)" using assms by simp
  let ?lo = "ucast (l AND 0xff) :: u32" and ?hi = "ucast (drop_bit 8 l) :: u32"
  let ?s2 = "s\<lparr>latched_count := l, count_latched := RW_STATE_MSB\<rparr>"
  let ?pit2 = "pit1\<lparr>channels := (channels pit)[i := ?s2]\<rparr>"
  let ?pit3 = "pit1\<lparr>channels := (channels pit)[i := s\<lparr>latched_count := l, count_latched := 0\<rparr>]\<rparr>"
  have r1: "pit_ioport_read (of_nat i) t1 pit1 = Some (?lo, ?pit2)"
    using assms len ch i(3) by (simp add: pit_ioport_read_def pit_channel_read_def rw_states)
  have r2: "pit_ioport_read (of_nat i) t2 ?pit2 = Some (?hi, ?pit3)"
    using assms len i(3) by (simp add: pit_ioport_read_def pit_channel_read_def rw_states)
  have l: "int (unat l) = pit_get_count s t0 mod 65536"
    by (simp add: l_def uint_word_of_int)
  have "unat l < 65536" using unsigned_less [of l, where ?'a = nat] by simp
  then have "unat ?lo = unat l mod 256" "unat ?hi = unat l div 256"
    by (simp_all add: unsigned_ucast_eq take_bit_eq_mod unat_and_numeral unat_drop_bit)
  then have "int (unat ?lo + 256 * unat ?hi) = pit_get_count s t0 mod 65536"
    unfolding l [symmetric] by simp
  moreover have "s\<lparr>latched_count := l, count_latched := 0\<rparr> = s\<lparr>latched_count := l\<rparr>"
    using assms(5) by (intro pit_channel.equality) simp_all
  ultimately show ?thesis using r1 r2
    by (intro exI [of _ ?lo] exI [of _ ?hi] exI [of _ ?pit2] exI [of _ ?pit3]) (simp add: l_def)
qed

theorem pit_latch_roundtrip_witness:
  "\<exists>lo hi pit2 pit3.
      pit_ioport_read 1 2000000 (fst (pit_ioport_write 3 64 1000000
        (pit_initfn\<lparr>channels := replicate 3 (pit_channel_zero NoTimer\<lparr>rw_mode := 3, count := 4660\<rparr>)\<rparr>)))
      = Some (lo, pit2)
    \<and> pit_ioport_read 1 3000000 pit2 = Some (hi, pit3) \<and> int (unat lo + 256 * unat hi) = 3467"
proof -
  let ?c = "pit_channel_zero NoTimer\<lparr>rw_mode := 3, count := 4660\<rparr>"
  let ?p = "pit_initfn\<lparr>channels := replicate 3 ?c\<rparr>"
  have c: "channels ?p ! 1 = ?c" by simp
  have ok: "pit_ok ?c" by (simp add: pit_ok_def pit_channel_zero_def)
  have "uint (pit_elapsed ?c 1000000) = int 1193"
    unfolding uint_nat pit_elapsed_nat by (simp add: pit_channel_zero_def to_ticks_def)
  then have "pit_get_count ?c 1000000 mod 65536 = 3467"
    using pit_count_nat [OF ok, of 1000000] by (simp add: pit_channel_zero_def)
  then show ?thesis
    using pit_latch_roundtrip [of ?p 1, where ?t0.0 = 1000000 and ?t1.0 = 2000000 and ?t2.0 = 3000000] c
    by (simp add: pit_channel_zero_def rw_states numeral_3_eq_3) blast
qed

section \<open>Every reachable state\<close>

datatype pit_event =
    PitWrite u32 u32 u64 | PitRead u32 u64 | PitSetGate nat u8 u64 | PitTimer
  | PitReset u64 | PitHpetDisable | PitHpetEnable u64

inductive pit_step :: "pit_state \<Rightarrow> pit_event \<Rightarrow> pit_state \<Rightarrow> bool" where
  port_write: "unat val < 256 \<Longrightarrow> pit_ioport_write addr val now p = (q, out) \<Longrightarrow> pit_step p (PitWrite addr val now) q"
| port_read: "pit_ioport_read addr now p = Some (v, q) \<Longrightarrow> pit_step p (PitRead addr now) q"
| set_gate: "channel < 3 \<Longrightarrow> pit_set_gate channel val now p = (q, out) \<Longrightarrow> pit_step p (PitSetGate channel val now) q"
| timer: "pit_irq_timer (channels p ! 0) = (s, out)
    \<Longrightarrow> pit_step p PitTimer (p\<lparr>channels := (channels p)[0 := s]\<rparr>)"
| reset: "pit_reset now p = (q, out) \<Longrightarrow> pit_step p (PitReset now) q"
| hpet_disable: "hpet_pit_disable p = q \<Longrightarrow> pit_step p PitHpetDisable q"
| hpet_enable: "hpet_pit_enable now p = (q, out) \<Longrightarrow> pit_step p (PitHpetEnable now) q"

definition channel_wf :: "nat \<Rightarrow> pit_channel \<Rightarrow> bool" where
  "channel_wf i s \<longleftrightarrow> pit_ok s \<and> (0 < i \<longrightarrow> irq_timer s = NoTimer)"

definition pit_wf :: "pit_state \<Rightarrow> bool" where
  "pit_wf p \<longleftrightarrow> length (channels p) = 3 \<and> (\<forall>i<3. channel_wf i (channels p ! i))"

lemma pit_wf_update:
  "pit_wf p \<Longrightarrow> channel_wf i s \<Longrightarrow> pit_wf (p\<lparr>channels := (channels p)[i := s]\<rparr>)"
  unfolding pit_wf_def by (simp, metis nth_list_update_eq nth_list_update_neq)

lemma pit_wf_channel: "pit_wf p \<Longrightarrow> i < 3 \<Longrightarrow> channel_wf i (channels p ! i)"
  by (simp add: pit_wf_def)

lemma pit_irq_timer_update_wf [inv_intros]:
  "channel_wf i s \<Longrightarrow> channel_wf i (fst (pit_irq_timer_update t s))"
  by (auto simp: pit_irq_timer_update_def channel_wf_def pit_ok_def Let_def)

lemma pit_load_count_wf [inv_intros]:
  assumes "0 \<le> val" "val \<le> 65536" "0 < i \<longrightarrow> irq_timer s = NoTimer"
  shows "channel_wf i (fst (pit_load_count val now s))"
  using assms unfolding pit_load_count_def Let_def
  by (intro pit_irq_timer_update_wf) (auto simp: channel_wf_def pit_ok_def)

lemma pit_latch_count_wf [inv_intros]: "channel_wf i s \<Longrightarrow> channel_wf i (pit_latch_count now s)"
  by (simp add: pit_latch_count_def channel_wf_def pit_ok_def)

lemma pit_read_back_wf [inv_intros]: "channel_wf i s \<Longrightarrow> channel_wf i (pit_read_back val now j s)"
  by (simp add: pit_read_back_def pit_latch_count_def channel_wf_def pit_ok_def Let_def)

lemma pit_channel_read_wf [inv_intros]: "channel_wf i s \<Longrightarrow> channel_wf i (snd (pit_channel_read now s))"
  by (simp add: pit_channel_read_def channel_wf_def pit_ok_def Let_def)

lemma pit_set_gate1_wf [inv_intros]: "channel_wf i s \<Longrightarrow> channel_wf i (fst (pit_set_gate1 val now s))"
  using pit_irq_timer_update_wf [of i "s\<lparr>count_load_time := now\<rparr>" now]
  by (auto simp: pit_set_gate1_def channel_wf_def pit_ok_def Let_def split: prod.splits)

text \<open>The value of a data write, by the state of the channel's write sequence.\<close>

definition pit_written :: "u32 \<Rightarrow> pit_channel \<Rightarrow> int" where
  "pit_written val s =
     (if write_state s = RW_STATE_MSB then sint (push_bit 8 val)
      else if write_state s = RW_STATE_WORD1 then sint (ucast (write_latch s) OR push_bit 8 val)
      else sint val)"

lemma pit_written_range:
  assumes "unat val < 256"
  shows "0 \<le> pit_written val s \<and> pit_written val s \<le> 65535"
proof -
  have two: "sint (ucast l OR push_bit 8 val) \<in> {0..int 65535}" for l :: u8
  proof -
    have "unat l < 256" using unsigned_less [of l, where ?'a = nat] by simp
    then have "unat l + 256 * unat val \<le> 65535" using assms by linarith
    then show ?thesis unfolding sint_two_bytes [OF assms] atLeastAtMost_iff of_nat_le_iff by simp
  qed
  have "unat val < 2 ^ 31" "unat val \<le> 65535" using assms by simp_all
  then have "sint val \<in> {0..int 65535}" unfolding atLeastAtMost_iff
    by (simp only: sint_small of_nat_le_iff of_nat_0_le_iff)
  then show ?thesis using two [of 0] two [of "write_latch s"] by (auto simp: pit_written_def)
qed

lemma pit_data_write:
  assumes "addr AND 3 \<noteq> 3"
  shows "fst (pit_ioport_write addr val now p) =
    (let i = unat (addr AND 3); s = channels p ! i
     in p\<lparr>channels := (channels p)[i :=
       if write_state s = RW_STATE_WORD0 then s\<lparr>write_latch := ucast val, write_state := RW_STATE_WORD1\<rparr>
       else let r = fst (pit_load_count (pit_written val s) now s)
            in if write_state s = RW_STATE_WORD1 then r\<lparr>write_state := RW_STATE_WORD0\<rparr> else r]\<rparr>)"
  using assms by (simp add: pit_ioport_write_def pit_written_def Let_def rw_states split: prod.splits)

lemma addr_and_3: "unat ((addr::u32) AND 3) < 4" "addr AND 3 \<noteq> 3 \<Longrightarrow> unat (addr AND 3) < 3"
proof -
  show l: "unat (addr AND 3) < 4" by (simp add: unat_and_numeral)
  assume "addr AND 3 \<noteq> 3"
  then have "unat (addr AND 3) \<noteq> unat (3::u32)" unfolding word_unat_eq_iff .
  then show "unat (addr AND 3) < 3" using l by simp
qed

lemma channel_wf_write_state [inv_intros]:
  "channel_wf i s \<Longrightarrow> channel_wf i (s\<lparr>write_latch := w, write_state := x\<rparr>)"
  "channel_wf i s \<Longrightarrow> channel_wf i (s\<lparr>write_state := x\<rparr>)"
  by (simp_all add: channel_wf_def pit_ok_def)

lemma pit_ioport_write_wf:
  assumes "pit_wf p" "unat val < 256"
  shows "pit_wf (fst (pit_ioport_write addr val now p))"
proof (cases "addr AND 3 = 3")
  case False
  let ?i = "unat (addr AND 3)"
  have s: "channel_wf ?i (channels p ! ?i)" using assms(1) addr_and_3(2) [OF False] by (rule pit_wf_channel)
  have "channel_wf ?i (fst (pit_load_count (pit_written val (channels p ! ?i)) now (channels p ! ?i)))"
    using pit_written_range [OF assms(2), of "channels p ! ?i"] s
    by (intro pit_load_count_wf) (auto simp: channel_wf_def)
  then show ?thesis unfolding pit_data_write [OF False] Let_def
    using s by (intro pit_wf_update [OF assms(1)]) (simp add: channel_wf_write_state)
next
  case True
  let ?i = "unat (drop_bit 6 val)"
  have i: "?i < 4" using assms(2) by (simp add: unat_drop_bit)
  show ?thesis
  proof (cases "?i = 3")
    case True
    show ?thesis using \<open>addr AND 3 = 3\<close> True assms(1)
      by (auto simp: pit_ioport_write_def pit_wf_def intro: pit_read_back_wf)
  next
    case False
    then have "channel_wf ?i (channels p ! ?i)" using i assms(1) by (intro pit_wf_channel) simp_all
    then have "channel_wf ?i (pit_latch_count now (channels p ! ?i))" and
      "channel_wf ?i ((channels p ! ?i)\<lparr>rw_mode := a, read_state := b, write_state := c, mode := m, bcd := d\<rparr>)"
      for a b c m d by (auto simp: channel_wf_def pit_ok_def pit_latch_count_def)
    then show ?thesis using \<open>addr AND 3 = 3\<close> False
      by (simp add: pit_ioport_write_def Let_def pit_wf_update [OF assms(1)])
  qed
qed

lemma pit_reset_wf:
  assumes "length (channels p) = 3" "\<forall>i<3. 0 < i \<longrightarrow> irq_timer (channels p ! i) = NoTimer"
  shows "pit_wf (fst (pit_reset now p))"
  using assms
  by (auto simp: pit_reset_def pit_wf_def pit_reset1_def intro!: pit_load_count_wf simp del: upt_rec_numeral upt_rec)

lemma pit_init_wf: "pit_wf (fst (pit_reset now pit_initfn))"
  by (intro pit_reset_wf) (auto simp: pit_initfn_def pit_channel_zero_def numeral_3_eq_3 less_Suc_eq)

lemma pit_step_wf: "pit_step p e q \<Longrightarrow> pit_wf p \<Longrightarrow> pit_wf q"
proof (induction rule: pit_step.induct)
  case (port_write val addr now p q out)
  then show ?case using pit_ioport_write_wf [of p val addr now] by simp
next
  case (port_read addr now p v q)
  then have i: "unat (addr AND 3) < 3"
    by (auto simp: pit_ioport_read_def Let_def pit_wf_def split: if_splits)
  have "q = p\<lparr>channels := (channels p)[unat (addr AND 3) := snd (pit_channel_read now (channels p ! unat (addr AND 3)))]\<rparr>"
    using port_read(1) by (auto simp: pit_ioport_read_def Let_def split: if_splits prod.splits)
  then show ?case
    using port_read(2) pit_wf_channel [OF port_read(2) i] by (simp add: pit_wf_update pit_channel_read_wf)
next
  case (set_gate channel val now p q out)
  then have "q = p\<lparr>channels := (channels p)[channel := fst (pit_set_gate1 val now (channels p ! channel))]\<rparr>"
    by (auto simp: pit_set_gate_def Let_def split: prod.splits)
  then show ?case using set_gate by (simp add: pit_wf_update pit_set_gate1_wf pit_wf_channel)
next
  case (timer p s out)
  then show ?case
    using pit_irq_timer_update_wf [of 0 "channels p ! 0"] pit_wf_channel [of p 0]
    by (intro pit_wf_update) (auto simp: pit_irq_timer_def, metis fst_conv)
next
  case (reset now p q out)
  then show ?case using pit_reset_wf [of p now] by (simp add: pit_wf_def channel_wf_def)
next
  case (hpet_disable p q)
  then show ?case using pit_wf_channel [of p 0]
    by (auto simp: hpet_pit_disable_def Let_def channel_wf_def pit_ok_def intro!: pit_wf_update)
next
  case (hpet_enable now p q out)
  then have "q = p\<lparr>channels := (channels p)[0 := fst (pit_load_count 0 now ((channels p ! 0)\<lparr>mode := 3, gate := 1\<rparr>))]\<rparr>"
    by (auto simp: hpet_pit_enable_def Let_def split: prod.splits)
  then show ?case using hpet_enable(2) by (simp add: pit_wf_update pit_load_count_wf)
qed

interpretation pit: device "\<lambda>p. \<exists>now. p = fst (pit_reset now pit_initfn)" pit_step pit_wf
  by unfold_locales (auto simp: pit_init_wf intro: pit_step_wf)

lemma pit_count_range:
  assumes "pit_ok s"
  shows "0 \<le> pit_get_count s now \<and> pit_get_count s now \<le> 65536"
proof -
  have c: "0 < count s" "count s \<le> 65536" using assms by (auto simp: pit_ok_def)
  have "0 \<le> y mod count s \<and> y mod count s < count s \<and> 0 \<le> y mod 65536 \<and> y mod 65536 < 65536" for y
    using c by simp
  then show ?thesis unfolding pit_count_nat [OF assms] using c by (smt (verit))
qed

text \<open>
  No division by zero and no count out of range. In every state a guest can bring the
  timer to after a reset, with byte writes to its ports, gate changes, timer expiries and the
  HPET's switch, each of the three channels has an initial count from 1 to 65536 and shows a
  count from 0 to 65536, and only channel 0 has a timer that drives the interrupt line.
\<close>

theorem pit_reachable_counts:
  assumes "reachable (\<lambda>p. \<exists>now. p = fst (pit_reset now pit_initfn)) pit_step p" "i < 3"
  shows "length (channels p) = 3
    \<and> 1 \<le> pit_get_initial_count p i \<and> pit_get_initial_count p i \<le> 65536
    \<and> 0 \<le> pit_get_count (channels p ! i) now \<and> pit_get_count (channels p ! i) now \<le> 65536
    \<and> (0 < i \<longrightarrow> snd (pit_irq_timer_update now (channels p ! i)) = [])"
  using pit_wf_channel [OF pit.reachable_wf [OF assms(1)] assms(2)] pit.reachable_wf [OF assms(1)]
    pit_count_range [of "channels p ! i" now]
  by (auto simp: channel_wf_def pit_ok_def pit_get_initial_count_def pit_irq_timer_update_def pit_wf_def)

theorem pit_reachable_counts_witness:
  "1 \<le> pit_get_initial_count (fst (pit_ioport_write 2 0 5 (fst (pit_reset 0 pit_initfn)))) 2"
proof -
  have "reachable (\<lambda>p. \<exists>now. p = fst (pit_reset now pit_initfn)) pit_step (fst (pit_reset 0 pit_initfn))"
    by (rule reachable.start) blast
  then have "reachable (\<lambda>p. \<exists>now. p = fst (pit_reset now pit_initfn)) pit_step
      (fst (pit_ioport_write 2 0 5 (fst (pit_reset 0 pit_initfn))))"
    by (rule reachable.next_state)
      (rule pit_step.port_write [of 0 2 5 _ _ "snd (pit_ioport_write 2 0 5 (fst (pit_reset 0 pit_initfn)))"], simp_all)
  from pit_reachable_counts [OF this, of 2] show ?thesis by simp
qed
text \<open>
  Programming a channel. The control word for channel \<open>i\<close> and mode \<open>m\<close> with both bytes,
  followed by the low and the high byte of \<open>n\<close>, gives the channel the mode \<open>m\<close>, the
  initial count \<open>n\<close> (65536 for 0) and a load at the time of the second byte, whatever the
  channel was doing before; the other channels keep their state.
\<close>

theorem pit_program_channel:
  fixes t0 t1 t2 :: u64
  assumes "length (channels p) = 3" "i < 3" "m < 8" "n < 65536"
  defines "p1 \<equiv> fst (pit_ioport_write 3 (of_nat (64 * i + 48 + 2 * m)) t0 p)"
  defines "p2 \<equiv> fst (pit_ioport_write (of_nat i) (of_nat (n mod 256)) t1 p1)"
  defines "p3 \<equiv> fst (pit_ioport_write (of_nat i) (of_nat (n div 256)) t2 p2)"
  shows "pit_get_mode p3 i = of_nat m
    \<and> pit_get_initial_count p3 i = (if n = 0 then 65536 else int n)
    \<and> count_load_time (channels p3 ! i) = t2
    \<and> write_state (channels p3 ! i) = RW_STATE_WORD0
    \<and> (\<forall>j. j \<noteq> i \<longrightarrow> channels p3 ! j = channels p ! j)"
proof -
  let ?v = "of_nat (64 * i + 48 + 2 * m) :: u32"
  define s1 where "s1 = (channels p ! i)\<lparr>rw_mode := 3, read_state := 3, write_state := 3, mode := of_nat m, bcd := 0\<rparr>"
  have im: "i \<in> {0, 1, 2}" "m \<in> {0, 1, 2, 3, 4, 5, 6, 7}" using assms(2,3) by auto
  have v: "unat (drop_bit 6 ?v) = i" "drop_bit 4 ?v AND 3 = 3"
    "(ucast (drop_bit 1 ?v AND 7) :: u8) = of_nat m" "?v AND 1 = 0"
    using im by (elim insertE emptyE; simp)+
  have i: "unat ((of_nat i :: u32) AND 3) = i" "(of_nat i :: u32) AND 3 \<noteq> 3"
    using im(1) by auto
  have p1: "channels p1 = (channels p)[i := s1]"
    using assms v by (simp add: pit_ioport_write_def s1_def Let_def p1_def)
  have latch: "ucast (of_nat (n mod 256) :: u32) = (of_nat (n mod 256) :: u8)"
    unfolding word_unat_eq_iff by (simp add: unat_ucast_8 unat_of_nat)
  let ?s2 = "s1\<lparr>write_latch := of_nat (n mod 256), write_state := RW_STATE_WORD1\<rparr>"
  have p2: "channels p2 = (channels p)[i := ?s2]"
    using assms(1,2) p1 by (simp add: p2_def pit_data_write [OF i(2)] i(1) s1_def rw_states Let_def latch)
  have b: "unat (of_nat (n div 256) :: u32) = n div 256" "unat (of_nat (n mod 256) :: u8) = n mod 256"
    "n div 256 < 256" using assms(4) by (auto simp: unat_of_nat)
  then have w: "pit_written (of_nat (n div 256)) ?s2 = int n"
    using sint_two_bytes [of "of_nat (n div 256)" "of_nat (n mod 256)"]
    by (simp add: pit_written_def rw_states)
  have p3: "channels p3 = (channels p)[i := (fst (pit_load_count (int n) t2 ?s2))\<lparr>write_state := RW_STATE_WORD0\<rparr>]"
    using assms(1,2) p2 w by (simp add: p3_def pit_data_write [OF i(2)] i(1) Let_def rw_states)
  show ?thesis using assms(1,2)
    by (simp add: p3 pit_get_mode_def pit_get_initial_count_def pit_load_count_def s1_def Let_def
        pit_irq_timer_update_def)
qed

theorem pit_program_channel_witness:
  "pit_get_initial_count (fst (pit_ioport_write 0 0x12 9 (fst (pit_ioport_write 0 0x34 8
     (fst (pit_ioport_write 3 0x34 7 pit_initfn)))))) 0 = 0x1234"
  using pit_program_channel [where p = pit_initfn and i = 0 and m = 2 and n = "0x1234" and ?t0.0 = 7 and ?t1.0 = 8 and ?t2.0 = 9]
  by (simp add: pit_initfn_def)

text \<open>
  The rate generator can lose a period. The channel waits for the tick after the reload
  and counts on the rounded-down time still showing the reload; when the rounding is exact it
  does not. With the count 59659 loaded at time 0 the expiry after the one at 450000083 ns
  samples 0, the one at exactly 500000000 ns, the tenth reload, samples 0 as well, and the
  timer then waits for the eleventh.
\<close>

theorem pit_rate_generator_skips:
  "let s = pit_channel_zero (Timer None)\<lparr>mode := 2, count := 59659, next_transition_time := 450000083\<rparr>;
       (s1, out1) = pit_irq_timer s; (s2, out2) = pit_irq_timer s1; (s3, out3) = pit_irq_timer s2
   in out1 = [1] \<and> out2 = [0] \<and> next_transition_time s2 = 500000000 \<and> out3 = [0]
      \<and> next_transition_time s3 = 549999916"
proof -
  let ?s = "\<lambda>x y. pit_channel_zero (Timer x)\<lparr>mode := 2, count := 59659, next_transition_time := y\<rparr>"
  have ok: "pit_ok (?s x y)" "pit_time_ok (?s x y) z \<longleftrightarrow> z < 2 ^ 63" for x y z
    by (simp_all add: pit_ok_def pit_time_ok_def pit_channel_zero_def)
  have run: "pit_irq_timer (?s x y) =
      (?s (Some n) n, [c_bool (pit_wave 2 59659 (pit_ticks (unat y)))])"
    if "y < 2 ^ 63" "n = of_nat (max (pit_time (the (pit_next_tick 2 59659 (pit_ticks (unat y))))) (unat y + 1))"
       "n \<noteq> -1" for x y n
  proof -
    have "pit_get_next_transition_time (?s x y) y = n"
      using pit_next_nat [of "?s x y" y, OF ok(1)] that(1,2)
      by (simp add: ok(2), simp add: pit_channel_zero_def pit_next_tick_def)
    moreover have "pit_get_out1 (?s x y) y = c_bool (pit_wave 2 59659 (pit_ticks (unat y)))"
      using pit_out_at [of "?s x y" y, OF ok(1)] by (simp add: pit_channel_zero_def)
    ultimately show ?thesis using that(3)
      by (simp add: pit_irq_timer_def pit_irq_timer_update_def pit_channel_zero_def)
  qed
  have "pit_irq_timer (?s None 450000083) = (?s (Some 499999161) 499999161, [1])"
    by (subst run) (simp_all add: pit_next_tick_def pit_wave_def to_ticks_def to_time_def)
  moreover have "pit_irq_timer (?s (Some 499999161) 499999161) = (?s (Some 500000000) 500000000, [0])"
    by (subst run) (simp_all add: pit_next_tick_def pit_wave_def to_ticks_def to_time_def)
  moreover have "pit_irq_timer (?s (Some 500000000) 500000000) = (?s (Some 549999916) 549999916, [0])"
    by (subst run) (simp_all add: pit_next_tick_def pit_wave_def to_ticks_def to_time_def)
  ultimately show ?thesis by simp
qed

end
