(* ===== verification/Hpet.thy ===== *)
theory Hpet
  imports Qemu_Common
begin

text \<open>
  The high precision event timer (\<open>hw/hpet.c\<close>): the main counter, up to 32 comparators, their
  interrupts over lines or messages, and the legacy replacement of the interval timer and the
  clock. What the device does outside its state is a list of calls, in order. The function \<open>muldiv64\<close>
  converts between ticks of 10 ns and nanoseconds. A periodic comparator is moved past the
  counter by a loop that need not end, so the expiry callback is partial.
  Shown are the counter against the clock, the comparators of a periodic timer, the range of
  everything the device drives, the expiries of the one-shot timer, saving and restoring, and
  three register writes after which the callback never returns.
\<close>

section \<open>Constants\<close>

definition HPET_CLK_PERIOD :: "'a::len word" where "HPET_CLK_PERIOD = 10000000"
definition FS_PER_NS :: "'a::len word" where "FS_PER_NS = 1000000"
definition HPET_MIN_TIMERS :: u8 where "HPET_MIN_TIMERS = 3"
definition HPET_MAX_TIMERS :: u8 where "HPET_MAX_TIMERS = 32"
definition HPET_NUM_IRQ_ROUTES :: nat where "HPET_NUM_IRQ_ROUTES = 32"

abbreviation (input) HPET_CFG_ENABLE :: u64 where "HPET_CFG_ENABLE \<equiv> 0x001"
abbreviation (input) HPET_CFG_LEGACY :: u64 where "HPET_CFG_LEGACY \<equiv> 0x002"

abbreviation (input) HPET_ID :: u64 where "HPET_ID \<equiv> 0x000"
abbreviation (input) HPET_PERIOD :: u64 where "HPET_PERIOD \<equiv> 0x004"
abbreviation (input) HPET_CFG :: u64 where "HPET_CFG \<equiv> 0x010"
abbreviation (input) HPET_STATUS :: u64 where "HPET_STATUS \<equiv> 0x020"
abbreviation (input) HPET_COUNTER :: u64 where "HPET_COUNTER \<equiv> 0x0f0"
abbreviation (input) HPET_TN_CFG :: u64 where "HPET_TN_CFG \<equiv> 0x000"
abbreviation (input) HPET_TN_CMP :: u64 where "HPET_TN_CMP \<equiv> 0x008"
abbreviation (input) HPET_TN_ROUTE :: u64 where "HPET_TN_ROUTE \<equiv> 0x010"
abbreviation (input) HPET_CFG_WRITE_MASK :: u64 where "HPET_CFG_WRITE_MASK \<equiv> 0x3"

abbreviation (input) HPET_TN_TYPE_LEVEL :: u64 where "HPET_TN_TYPE_LEVEL \<equiv> 0x002"
abbreviation (input) HPET_TN_ENABLE :: u64 where "HPET_TN_ENABLE \<equiv> 0x004"
abbreviation (input) HPET_TN_PERIODIC :: u64 where "HPET_TN_PERIODIC \<equiv> 0x008"
abbreviation (input) HPET_TN_PERIODIC_CAP :: u64 where "HPET_TN_PERIODIC_CAP \<equiv> 0x010"
abbreviation (input) HPET_TN_SIZE_CAP :: u64 where "HPET_TN_SIZE_CAP \<equiv> 0x020"
abbreviation (input) HPET_TN_SETVAL :: u64 where "HPET_TN_SETVAL \<equiv> 0x040"
abbreviation (input) HPET_TN_32BIT :: u64 where "HPET_TN_32BIT \<equiv> 0x100"
abbreviation (input) HPET_TN_INT_ROUTE_MASK :: u64 where "HPET_TN_INT_ROUTE_MASK \<equiv> 0x3e00"
abbreviation (input) HPET_TN_FSB_ENABLE :: u64 where "HPET_TN_FSB_ENABLE \<equiv> 0x4000"
abbreviation (input) HPET_TN_FSB_CAP :: u64 where "HPET_TN_FSB_CAP \<equiv> 0x8000"
abbreviation (input) HPET_TN_CFG_WRITE_MASK :: u64 where "HPET_TN_CFG_WRITE_MASK \<equiv> 0x7f4e"

abbreviation (input) RTC_ISA_IRQ :: nat where "RTC_ISA_IRQ \<equiv> 8"

section \<open>State\<close>

record hpet_timer_state =
  tn :: u8
  tn_qemu_timer :: qemu_timer
  tn_config :: u64
  tn_cmp :: u64
  tn_fsb :: u64
  tn_period :: u64
  wrap_flag :: u8

record hpet_state =
  hpet_offset :: u64
  hpet_flags :: u32
  rtc_irq_level :: u8
  num_timers :: u8
  hpet_timers :: "hpet_timer_state list"
  capability :: u64
  hpet_config :: u64
  hpet_isr :: u64
  hpet_counter :: u64
  hpet_id :: u8

text \<open>The calls the device makes: levels on its lines, a message written to memory, the PIT switch.\<close>

datatype hpet_call = Hpet_irq nat int | Hpet_msi u64 u32 | Hpet_pit_disable | Hpet_pit_enable

text \<open>The table of all instances that the firmware reads.\<close>

record hpet_fw_entry =
  event_timer_block_id :: u32
  fw_address :: u64
  min_tick :: u16
  page_prot :: u8

record hpet_fw_config =
  fw_count :: u8
  fw_hpet :: "hpet_fw_entry list"

section \<open>Operations\<close>

definition hpet_in_legacy_mode :: "hpet_state \<Rightarrow> bool" where
  "hpet_in_legacy_mode s \<longleftrightarrow> hpet_config s AND HPET_CFG_LEGACY \<noteq> 0"

definition timer_int_route :: "hpet_timer_state \<Rightarrow> nat" where
  "timer_int_route t = unat (drop_bit 9 (tn_config t AND HPET_TN_INT_ROUTE_MASK))"

definition timer_fsb_route :: "hpet_timer_state \<Rightarrow> bool" where
  "timer_fsb_route t \<longleftrightarrow> tn_config t AND HPET_TN_FSB_ENABLE \<noteq> 0"

definition hpet_enabled :: "hpet_state \<Rightarrow> bool" where
  "hpet_enabled s \<longleftrightarrow> hpet_config s AND HPET_CFG_ENABLE \<noteq> 0"

definition timer_is_periodic :: "hpet_timer_state \<Rightarrow> bool" where
  "timer_is_periodic t \<longleftrightarrow> tn_config t AND HPET_TN_PERIODIC \<noteq> 0"

definition timer_enabled :: "hpet_timer_state \<Rightarrow> bool" where
  "timer_enabled t \<longleftrightarrow> tn_config t AND HPET_TN_ENABLE \<noteq> 0"

text \<open>
  The signed differences are taken to wrap. Where the exact difference does not fit the type the
  behaviour is not defined by the C standard, and the build does not pass \<open>-fwrapv\<close>.
\<close>

definition hpet_time_after :: "u64 \<Rightarrow> u64 \<Rightarrow> bool" where
  "hpet_time_after a b \<longleftrightarrow> sint ((ucast b :: u32) - ucast a) < 0"

definition hpet_time_after64 :: "u64 \<Rightarrow> u64 \<Rightarrow> bool" where
  "hpet_time_after64 a b \<longleftrightarrow> sint (b - a) < 0"

definition ticks_to_ns :: "u64 \<Rightarrow> u64" where
  "ticks_to_ns v = muldiv64 v HPET_CLK_PERIOD FS_PER_NS"

definition ns_to_ticks :: "u64 \<Rightarrow> u64" where
  "ns_to_ticks v = muldiv64 v FS_PER_NS HPET_CLK_PERIOD"

definition hpet_fixup_reg :: "u64 \<Rightarrow> u64 \<Rightarrow> u64 \<Rightarrow> u64" where
  "hpet_fixup_reg new old msk = (new AND msk) OR (old AND NOT msk)"

definition activating_bit :: "u64 \<Rightarrow> u64 \<Rightarrow> u64 \<Rightarrow> bool" where
  "activating_bit old new msk \<longleftrightarrow> old AND msk = 0 \<and> new AND msk \<noteq> 0"

definition deactivating_bit :: "u64 \<Rightarrow> u64 \<Rightarrow> u64 \<Rightarrow> bool" where
  "deactivating_bit old new msk \<longleftrightarrow> old AND msk \<noteq> 0 \<and> new AND msk = 0"

definition hpet_get_ticks :: "u64 \<Rightarrow> hpet_state \<Rightarrow> u64" where
  "hpet_get_ticks now s = ns_to_ticks (now + hpet_offset s)"

definition hpet_calculate_diff :: "hpet_timer_state \<Rightarrow> u64 \<Rightarrow> u64" where
  "hpet_calculate_diff t current =
     (if tn_config t AND HPET_TN_32BIT \<noteq> 0 then
        let diff = (ucast (tn_cmp t) :: u32) - ucast current
        in if sint diff > 0 then ucast diff else 0
      else
        let diff = tn_cmp t - current
        in if sint diff > 0 then diff else 0)"

text \<open>
  A timer is given by its index in the state, which is its number. The mask \<open>1 << tn\<close> is an
  \<open>int\<close>, so that of timer 31 is widened with its sign.
\<close>

abbreviation tmr :: "hpet_state \<Rightarrow> nat \<Rightarrow> hpet_timer_state" where
  "tmr s i \<equiv> hpet_timers s ! i"

definition set_tmr :: "nat \<Rightarrow> hpet_timer_state \<Rightarrow> hpet_state \<Rightarrow> hpet_state" where
  "set_tmr i t s = s\<lparr>hpet_timers := (hpet_timers s)[i := t]\<rparr>"

definition tn_mask :: "u8 \<Rightarrow> u64" where
  "tn_mask n = scast (shl1 (unat n) :: u32)"

definition update_irq :: "nat \<Rightarrow> bool \<Rightarrow> hpet_state \<Rightarrow> hpet_state \<times> hpet_call list" where
  "update_irq i level s =
     (let timer = tmr s i;
          route = (if tn timer \<le> 1 \<and> hpet_in_legacy_mode s
                   then (if tn timer = 0 then 0 else RTC_ISA_IRQ)
                   else timer_int_route timer);
          m = tn_mask (tn timer)
      in if \<not> level \<or> \<not> timer_enabled timer \<or> \<not> hpet_enabled s then
           (s\<lparr>hpet_isr := hpet_isr s AND NOT m\<rparr>,
            if \<not> timer_fsb_route timer then [Hpet_irq route 0] else [])
         else if timer_fsb_route timer then
           (s, [Hpet_msi (drop_bit 32 (tn_fsb timer)) (ucast (tn_fsb timer AND 0xffffffff))])
         else if tn_config timer AND HPET_TN_TYPE_LEVEL \<noteq> 0 then
           (s\<lparr>hpet_isr := hpet_isr s OR m\<rparr>, [Hpet_irq route 1])
         else
           (s\<lparr>hpet_isr := hpet_isr s AND NOT m\<rparr>, [Hpet_irq route 1, Hpet_irq route 0]))"

definition hpet_pre_save :: "u64 \<Rightarrow> hpet_state \<Rightarrow> hpet_state" where
  "hpet_pre_save now s = s\<lparr>hpet_counter := hpet_get_ticks now s\<rparr>"

definition hpet_pre_load :: "hpet_state \<Rightarrow> hpet_state" where
  "hpet_pre_load s = s\<lparr>num_timers := HPET_MIN_TIMERS\<rparr>"

definition set_block_id :: "u8 \<Rightarrow> u32 \<Rightarrow> hpet_fw_config \<Rightarrow> hpet_fw_config" where
  "set_block_id k v c = c\<lparr>fw_hpet := (fw_hpet c)[unat k := (fw_hpet c ! unat k)\<lparr>event_timer_block_id := v\<rparr>]\<rparr>"

definition hpet_post_load :: "u64 \<Rightarrow> hpet_fw_config \<Rightarrow> hpet_state \<Rightarrow> hpet_state \<times> hpet_fw_config" where
  "hpet_post_load now c s =
     (let s = s\<lparr>hpet_offset := ticks_to_ns (hpet_counter s) - now\<rparr>;
          s = s\<lparr>capability := capability s AND NOT 0x1f00\<rparr>;
          s = s\<lparr>capability := capability s OR scast (push_bit 8 (ucast (num_timers s) - 1) :: u32)\<rparr>;
          c = set_block_id (hpet_id s) (ucast (capability s)) c;
          s = s\<lparr>hpet_flags := hpet_flags s AND NOT 1\<rparr>;
          s = (if tn_config (tmr s 0) AND HPET_TN_FSB_CAP \<noteq> 0 then s\<lparr>hpet_flags := hpet_flags s OR 1\<rparr> else s)
      in (s, c))"

text \<open>
  The two loops of the expiry callback. They may run forever, which is the value \<open>None\<close>.
\<close>

partial_function (option) catch_up32 :: "u64 \<Rightarrow> u64 \<Rightarrow> u64 \<Rightarrow> u64 option" where
  "catch_up32 cur_tick period cmp =
     (if hpet_time_after cur_tick cmp then catch_up32 cur_tick period (ucast (ucast (cmp + period) :: u32))
      else Some cmp)"

partial_function (option) catch_up64 :: "u64 \<Rightarrow> u64 \<Rightarrow> u64 \<Rightarrow> u64 option" where
  "catch_up64 cur_tick period cmp =
     (if hpet_time_after64 cur_tick cmp then catch_up64 cur_tick period (cmp + period) else Some cmp)"

definition arm :: "u64 \<Rightarrow> u64 \<Rightarrow> hpet_timer_state \<Rightarrow> hpet_timer_state" where
  "arm now diff t = t\<lparr>tn_qemu_timer := qemu_mod_timer (tn_qemu_timer t) (now + ticks_to_ns diff)\<rparr>"

definition hpet_timer :: "nat \<Rightarrow> u64 \<Rightarrow> hpet_state \<Rightarrow> (hpet_state \<times> hpet_call list) option" where
  "hpet_timer i now s =
     (let t = tmr s i;
          period = tn_period t;
          cur_tick = hpet_get_ticks now s
      in if timer_is_periodic t \<and> period \<noteq> 0 then
           (case (if tn_config t AND HPET_TN_32BIT \<noteq> 0 then catch_up32 cur_tick period (tn_cmp t)
                  else catch_up64 cur_tick period (tn_cmp t)) of
              None \<Rightarrow> None
            | Some cmp \<Rightarrow>
                let t = t\<lparr>tn_cmp := cmp\<rparr>
                in Some (update_irq i True (set_tmr i (arm now (hpet_calculate_diff t cur_tick) t) s)))
         else if tn_config t AND HPET_TN_32BIT \<noteq> 0 \<and> \<not> timer_is_periodic t then
           (if wrap_flag t \<noteq> 0
            then Some (update_irq i True
                   (set_tmr i ((arm now (hpet_calculate_diff t cur_tick) t)\<lparr>wrap_flag := 0\<rparr>) s))
            else Some (update_irq i True s))
         else Some (update_irq i True s))"

definition hpet_set_timer1 :: "u64 \<Rightarrow> u64 \<Rightarrow> hpet_timer_state \<Rightarrow> hpet_timer_state" where
  "hpet_set_timer1 now cur_tick t =
     (let t = t\<lparr>wrap_flag := 0\<rparr>;
          diff = hpet_calculate_diff t cur_tick
      in if tn_config t AND HPET_TN_32BIT \<noteq> 0 \<and> \<not> timer_is_periodic t then
           (let wrap_diff = (0xffffffff :: u32) - ucast cur_tick
            in if wrap_diff < ucast diff then arm now (ucast wrap_diff) (t\<lparr>wrap_flag := 1\<rparr>)
               else arm now diff t)
         else arm now diff t)"

definition hpet_set_timer :: "nat \<Rightarrow> u64 \<Rightarrow> hpet_state \<Rightarrow> hpet_state" where
  "hpet_set_timer i now s = set_tmr i (hpet_set_timer1 now (hpet_get_ticks now s) (tmr s i)) s"

definition hpet_del_timer :: "nat \<Rightarrow> hpet_state \<Rightarrow> hpet_state \<times> hpet_call list" where
  "hpet_del_timer i s =
     update_irq i False
       (set_tmr i ((tmr s i)\<lparr>tn_qemu_timer := qemu_del_timer (tn_qemu_timer (tmr s i))\<rparr>) s)"

definition hpet_ram_readl :: "u64 \<Rightarrow> u64 \<Rightarrow> hpet_state \<Rightarrow> u32" where
  "hpet_ram_readl now addr s =
     (if addr \<ge> 0x100 \<and> addr \<le> 0x3ff then
        let timer_id = (ucast ((addr - 0x100) div 0x20) :: u8);
            timer = tmr s (unat timer_id);
            reg = (addr - 0x100) mod 0x20
        in if timer_id > num_timers s then 0
           else if reg = HPET_TN_CFG then ucast (tn_config timer)
           else if reg = HPET_TN_CFG + 4 then ucast (drop_bit 32 (tn_config timer))
           else if reg = HPET_TN_CMP then ucast (tn_cmp timer)
           else if reg = HPET_TN_CMP + 4 then ucast (drop_bit 32 (tn_cmp timer))
           else if reg = HPET_TN_ROUTE then ucast (tn_fsb timer)
           else if reg = HPET_TN_ROUTE + 4 then ucast (drop_bit 32 (tn_fsb timer))
           else 0
      else if addr = HPET_ID then ucast (capability s)
      else if addr = HPET_PERIOD then ucast (drop_bit 32 (capability s))
      else if addr = HPET_CFG then ucast (hpet_config s)
      else if addr = HPET_CFG + 4 then 0
      else if addr = HPET_COUNTER then
        ucast (if hpet_enabled s then hpet_get_ticks now s else hpet_counter s)
      else if addr = HPET_COUNTER + 4 then
        ucast (drop_bit 32 (if hpet_enabled s then hpet_get_ticks now s else hpet_counter s))
      else if addr = HPET_STATUS then ucast (hpet_isr s)
      else 0)"

text \<open>The largest period that a write can set: the conditional of the source has type \<open>unsigned long long\<close>.\<close>

definition period_mask :: "hpet_timer_state \<Rightarrow> u64" where
  "period_mask t = drop_bit 1 (if tn_config t AND HPET_TN_32BIT \<noteq> 0 then 0xffffffff else NOT 0)"

definition tn_cfg_write :: "nat \<Rightarrow> u64 \<Rightarrow> u64 \<Rightarrow> u64 \<Rightarrow> hpet_state \<Rightarrow> hpet_state \<times> hpet_call list" where
  "tn_cfg_write i now old_val new_val s =
     (let (s, out) = (if activating_bit old_val new_val HPET_TN_FSB_ENABLE then update_irq i False s else (s, []));
          val = hpet_fixup_reg new_val old_val HPET_TN_CFG_WRITE_MASK;
          t = tmr s i;
          t = t\<lparr>tn_config := (tn_config t AND 0xffffffff00000000) OR val\<rparr>;
          t = (if new_val AND HPET_TN_32BIT \<noteq> 0
               then t\<lparr>tn_cmp := ucast (ucast (tn_cmp t) :: u32), tn_period := ucast (ucast (tn_period t) :: u32)\<rparr>
               else t);
          s = set_tmr i t s
      in if activating_bit old_val new_val HPET_TN_ENABLE then (hpet_set_timer i now s, out)
         else if deactivating_bit old_val new_val HPET_TN_ENABLE then
           (let (s, out') = hpet_del_timer i s in (s, out @ out'))
         else (s, out))"

definition rearm_enabled :: "nat \<Rightarrow> u64 \<Rightarrow> hpet_state \<Rightarrow> hpet_state" where
  "rearm_enabled i now s =
     (let s = set_tmr i ((tmr s i)\<lparr>tn_config := tn_config (tmr s i) AND NOT HPET_TN_SETVAL\<rparr>) s
      in if hpet_enabled s then hpet_set_timer i now s else s)"

definition tn_cmp_write :: "nat \<Rightarrow> u64 \<Rightarrow> u64 \<Rightarrow> hpet_state \<Rightarrow> hpet_state" where
  "tn_cmp_write i now new_val s =
     (let t = tmr s i;
          new_val = (if tn_config t AND HPET_TN_32BIT \<noteq> 0 then ucast (ucast new_val :: u32) else new_val);
          t = (if \<not> timer_is_periodic t \<or> tn_config t AND HPET_TN_SETVAL \<noteq> 0
               then t\<lparr>tn_cmp := (tn_cmp t AND 0xffffffff00000000) OR new_val\<rparr> else t);
          t = (if timer_is_periodic t
               then t\<lparr>tn_period := (tn_period t AND 0xffffffff00000000) OR (new_val AND period_mask t)\<rparr> else t)
      in rearm_enabled i now (set_tmr i t s))"

definition tn_cmp_high_write :: "nat \<Rightarrow> u64 \<Rightarrow> u64 \<Rightarrow> hpet_state \<Rightarrow> hpet_state" where
  "tn_cmp_high_write i now new_val s =
     (let t = tmr s i;
          t = (if \<not> timer_is_periodic t \<or> tn_config t AND HPET_TN_SETVAL \<noteq> 0
               then t\<lparr>tn_cmp := (tn_cmp t AND 0xffffffff) OR push_bit 32 new_val\<rparr>
               else t\<lparr>tn_period := (tn_period t AND 0xffffffff) OR push_bit 32 (new_val AND period_mask t)\<rparr>)
      in rearm_enabled i now (set_tmr i t s))"

text \<open>A loop over the timers that collects what the body puts out.\<close>

definition for_timers :: "(nat \<Rightarrow> hpet_state \<Rightarrow> hpet_state \<times> hpet_call list) \<Rightarrow> hpet_state \<Rightarrow> hpet_state \<times> hpet_call list" where
  "for_timers f s =
     fold (\<lambda>i (s, out). let (s, out') = f i s in (s, out @ out')) [0..<unat (num_timers s)] (s, [])"

definition hpet_cfg_write :: "u64 \<Rightarrow> u64 \<Rightarrow> u64 \<Rightarrow> hpet_state \<Rightarrow> hpet_state \<times> hpet_call list" where
  "hpet_cfg_write now old_val new_val s =
     (let val = hpet_fixup_reg new_val old_val HPET_CFG_WRITE_MASK;
          s = s\<lparr>hpet_config := (hpet_config s AND 0xffffffff00000000) OR val\<rparr>;
          (s, out) =
            (if activating_bit old_val new_val HPET_CFG_ENABLE then
               for_timers (\<lambda>i s. (if tn_cmp (tmr s i) \<noteq> NOT 0 then hpet_set_timer i now s else s, []))
                 (s\<lparr>hpet_offset := ticks_to_ns (hpet_counter s) - now\<rparr>)
             else if deactivating_bit old_val new_val HPET_CFG_ENABLE then
               for_timers hpet_del_timer (s\<lparr>hpet_counter := hpet_get_ticks now s\<rparr>)
             else (s, []))
      in if activating_bit old_val new_val HPET_CFG_LEGACY then
           (s, out @ [Hpet_pit_disable, Hpet_irq RTC_ISA_IRQ 0])
         else if deactivating_bit old_val new_val HPET_CFG_LEGACY then
           (s, out @ [Hpet_pit_enable, Hpet_irq RTC_ISA_IRQ (int (unat (rtc_irq_level s)))])
         else (s, out))"

definition hpet_status_write :: "u64 \<Rightarrow> hpet_state \<Rightarrow> hpet_state \<times> hpet_call list" where
  "hpet_status_write new_val s =
     (let val = new_val AND hpet_isr s
      in for_timers (\<lambda>i s. if val AND tn_mask (of_nat i) \<noteq> 0 then update_irq i False s else (s, [])) s)"

definition hpet_ram_writel :: "u64 \<Rightarrow> u64 \<Rightarrow> u32 \<Rightarrow> hpet_state \<Rightarrow> hpet_state \<times> hpet_call list" where
  "hpet_ram_writel now addr val s =
     (let old_val = ucast (hpet_ram_readl now addr s);
          new_val = (ucast val :: u64)
      in if addr \<ge> 0x100 \<and> addr \<le> 0x3ff then
           let timer_id = (ucast ((addr - 0x100) div 0x20) :: u8);
               i = unat timer_id;
               reg = (addr - 0x100) mod 0x20;
               t = tmr s i
           in if timer_id > num_timers s then (s, [])
              else if reg = HPET_TN_CFG then tn_cfg_write i now old_val new_val s
              else if reg = HPET_TN_CFG + 4 then (s, [])
              else if reg = HPET_TN_CMP then (tn_cmp_write i now new_val s, [])
              else if reg = HPET_TN_CMP + 4 then (tn_cmp_high_write i now new_val s, [])
              else if reg = HPET_TN_ROUTE then
                (set_tmr i (t\<lparr>tn_fsb := (tn_fsb t AND 0xffffffff00000000) OR new_val\<rparr>) s, [])
              else if reg = HPET_TN_ROUTE + 4 then
                (set_tmr i (t\<lparr>tn_fsb := push_bit 32 new_val OR (tn_fsb t AND 0xffffffff)\<rparr>) s, [])
              else (s, [])
         else if addr = HPET_ID then (s, [])
         else if addr = HPET_CFG then hpet_cfg_write now old_val new_val s
         else if addr = HPET_CFG + 4 then (s, [])
         else if addr = HPET_STATUS then hpet_status_write new_val s
         else if addr = HPET_COUNTER then
           (s\<lparr>hpet_counter := (hpet_counter s AND 0xffffffff00000000) OR new_val\<rparr>, [])
         else if addr = HPET_COUNTER + 4 then
           (s\<lparr>hpet_counter := (hpet_counter s AND 0xffffffff) OR push_bit 32 new_val\<rparr>, [])
         else (s, []))"

definition reset_timer :: "nat \<Rightarrow> hpet_state \<Rightarrow> hpet_state \<times> hpet_call list" where
  "reset_timer i s =
     (let (s, out) = hpet_del_timer i s;
          t = (tmr s i)\<lparr>tn_cmp := NOT 0, tn_config := HPET_TN_PERIODIC_CAP OR HPET_TN_SIZE_CAP\<rparr>;
          t = (if hpet_flags s AND 1 \<noteq> 0 then t\<lparr>tn_config := tn_config t OR HPET_TN_FSB_CAP\<rparr> else t);
          t = t\<lparr>tn_config := tn_config t OR push_bit 32 0x00000004\<rparr>
      in (set_tmr i (t\<lparr>tn_period := 0, wrap_flag := 0\<rparr>) s, out))"

text \<open>
  The function-local \<open>static int count\<close> is an argument and returned; the address is where the
  board maps the registers.
\<close>

definition hpet_reset ::
    "u64 \<Rightarrow> int \<Rightarrow> hpet_fw_config \<Rightarrow> hpet_state \<Rightarrow> int \<times> hpet_fw_config \<times> hpet_state \<times> hpet_call list" where
  "hpet_reset mmio_addr count c s =
     (let (s, out) = for_timers reset_timer s;
          s = s\<lparr>hpet_counter := 0, hpet_offset := 0, hpet_config := 0\<rparr>;
          out = out @ (if count > 0 then [Hpet_pit_enable] else []);
          c = set_block_id (hpet_id s) (ucast (capability s)) c;
          c = c\<lparr>fw_hpet := (fw_hpet c)[unat (hpet_id s) := (fw_hpet c ! unat (hpet_id s))\<lparr>fw_address := mmio_addr\<rparr>]\<rparr>
      in (1, c, s, out))"

definition hpet_handle_rtc_irq :: "int \<Rightarrow> hpet_state \<Rightarrow> hpet_state \<times> hpet_call list" where
  "hpet_handle_rtc_irq level s =
     (let s = s\<lparr>rtc_irq_level := word_of_int level\<rparr>
      in (s, if \<not> hpet_in_legacy_mode s then [Hpet_irq RTC_ISA_IRQ level] else []))"

text \<open>The structure before initialisation: zero but for the two properties of the device.\<close>

definition hpet_timer_zero :: hpet_timer_state where
  "hpet_timer_zero = \<lparr>tn = 0, tn_qemu_timer = NoTimer, tn_config = 0, tn_cmp = 0, tn_fsb = 0,
     tn_period = 0, wrap_flag = 0\<rparr>"

definition hpet_zero :: "u8 \<Rightarrow> u32 \<Rightarrow> hpet_state" where
  "hpet_zero n f = \<lparr>hpet_offset = 0, hpet_flags = f, rtc_irq_level = 0, num_timers = n,
     hpet_timers = replicate 32 hpet_timer_zero, capability = 0, hpet_config = 0, hpet_isr = 0,
     hpet_counter = 0, hpet_id = 0\<rparr>"

definition hpet_init :: "hpet_fw_config \<Rightarrow> hpet_state \<Rightarrow> (hpet_fw_config \<times> hpet_state) option" where
  "hpet_init c s =
     (let c = (if fw_count c = 255 then c\<lparr>fw_count := 0\<rparr> else c)
      in if fw_count c = 8 then None
         else
           let s = s\<lparr>hpet_id := fw_count c\<rparr>;
               c = c\<lparr>fw_count := fw_count c + 1\<rparr>;
               s = (if num_timers s < HPET_MIN_TIMERS then s\<lparr>num_timers := HPET_MIN_TIMERS\<rparr>
                    else if num_timers s > HPET_MAX_TIMERS then s\<lparr>num_timers := HPET_MAX_TIMERS\<rparr> else s);
               s = s\<lparr>hpet_timers := map (\<lambda>i. (tmr s i)\<lparr>tn_qemu_timer := Timer None, tn := of_nat i\<rparr>) [0..<32]\<rparr>;
               s = s\<lparr>capability := 0x8086a001\<rparr>;
               s = s\<lparr>capability := capability s OR scast (push_bit 8 (ucast (num_timers s) - 1) :: u32)\<rparr>;
               s = s\<lparr>capability := capability s OR push_bit 32 HPET_CLK_PERIOD\<rparr>
           in Some (c, s))"

section \<open>Ticks and nanoseconds\<close>

lemma ticks_to_ns_eq: "ticks_to_ns v = 10 * v"
proof -
  have "unat (ticks_to_ns v) = unat v * 10000000 div 1000000 mod 2 ^ 64"
    unfolding ticks_to_ns_def by (subst muldiv64_exact) (simp_all add: HPET_CLK_PERIOD_def FS_PER_NS_def)
  also have "unat v * 10000000 div 1000000 = 10 * unat v" by simp
  finally show ?thesis by (simp add: word_unat_eq_iff unat_word_ariths)
qed

lemma ns_to_ticks_eq: "ns_to_ticks v = v div 10"
proof -
  have "unat (ns_to_ticks v) = unat v * 1000000 div 10000000 mod 2 ^ 64"
    unfolding ns_to_ticks_def by (subst muldiv64_exact) (simp_all add: HPET_CLK_PERIOD_def FS_PER_NS_def)
  also have "unat v * 1000000 div 10000000 = unat v div 10"
    using div_mult_mult2 [of "1000000::nat" "unat v" 10] by simp
  also have "\<dots> mod 2 ^ 64 = unat v div 10"
    using unsigned_less [of v, where ?'a = nat] by simp
  finally show ?thesis by (simp add: word_unat_eq_iff unat_div)
qed

section \<open>The loops of the periodic timer\<close>

text \<open>A negative difference moves towards zero by a step of less than half the range.\<close>

lemma sint_step:
  fixes x p :: "'a::len word"
  assumes "sint x < 0" "0 < sint p"
  shows "sint (x + p) = sint x + sint p"
proof -
  have "- (2 ^ (LENGTH('a) - 1)) \<le> sint x" "sint p < 2 ^ (LENGTH('a) - 1)"
    by (simp_all add: sint_greater_eq sint_less)
  then have "signed_take_bit (LENGTH('a) - 1) (sint x + sint p) = sint x + sint p"
    using assms by (intro signed_take_bit_int_eq_self) linarith+
  then show ?thesis by (simp add: sint_word_ariths)
qed

text \<open>
  What both loops compute, on the signed distance \<open>d\<close> of the comparator from the counter:
  the first of \<open>d\<close>, \<open>d + p\<close>, \<open>d + 2 p\<close>, \dots that is not negative.
\<close>

definition periods_missed :: "int \<Rightarrow> int \<Rightarrow> nat" where
  "periods_missed d p = (if d < 0 then nat ((p - 1 - d) div p) else 0)"

lemma periods_missed_step:
  assumes "d < 0" "0 < p"
  shows "periods_missed d p = Suc (periods_missed (d + p) p)"
proof (cases "d + p < 0")
  case True
  have "(p - 1 - d) div p = ((- 1 - d) + p) div p" by (simp add: algebra_simps)
  also have "\<dots> = (- 1 - d) div p + 1" using assms by (intro div_add_self2) simp
  finally have "(p - 1 - d) div p = (- 1 - d) div p + 1" .
  moreover have "0 \<le> (- 1 - d) div p" using assms by (simp add: pos_imp_zdiv_nonneg_iff)
  ultimately show ?thesis using assms True by (simp add: periods_missed_def nat_add_distrib)
next
  case False
  have "(p - 1 - d) div p = 1" using False assms by (intro int_div_pos_eq [where r = "- 1 - d"]) auto
  then show ?thesis using assms False by (simp add: periods_missed_def)
qed

lemma catch_up64_eq:
  assumes "0 < sint p"
  shows "catch_up64 cur p cmp = Some (cmp + of_nat (periods_missed (sint (cmp - cur)) (sint p)) * p)"
proof (induction "periods_missed (sint (cmp - cur)) (sint p)" arbitrary: cmp)
  case 0
  then have "\<not> sint (cmp - cur) < 0" using periods_missed_step assms by fastforce
  then show ?case by (subst catch_up64.simps) (simp add: hpet_time_after64_def periods_missed_def)
next
  case (Suc n)
  then have neg: "sint (cmp - cur) < 0" by (simp add: periods_missed_def split: if_splits)
  have "cmp + p - cur = (cmp - cur) + p" by simp
  then have "sint (cmp + p - cur) = sint (cmp - cur) + sint p" using sint_step [OF neg assms] by metis
  then have k: "periods_missed (sint (cmp - cur)) (sint p) = Suc (periods_missed (sint (cmp + p - cur)) (sint p))"
    using periods_missed_step [OF neg assms] by simp
  then have "catch_up64 cur p (cmp + p)
    = Some (cmp + p + of_nat (periods_missed (sint (cmp + p - cur)) (sint p)) * p)"
    using Suc(1) [of "cmp + p"] Suc(2) by simp
  then show ?case using neg by (subst catch_up64.simps) (simp add: hpet_time_after64_def k algebra_simps)
qed

lemma ucast_u64_u32_add: "(ucast (x + y :: u64) :: u32) = ucast x + ucast y"
  by (simp add: word_unat_eq_iff unat_word_ariths unsigned_ucast_eq take_bit_eq_mod mod_simps mod_mod_cancel)

lemma ucast_u32_u64_u32 [simp]: "(ucast (ucast (x::u32) :: u64) :: u32) = x"
  by (rule bit_word_eqI) (simp add: bit_simps)

lemma catch_up32_eq:
  assumes "0 < sint (ucast p :: u32)"
  shows "\<exists>c. catch_up32 cur p cmp = Some c
    \<and> (ucast c :: u32) = ucast cmp + of_nat (periods_missed (sint ((ucast cmp :: u32) - ucast cur)) (sint (ucast p :: u32))) * ucast p"
proof (induction "periods_missed (sint ((ucast cmp :: u32) - ucast cur)) (sint (ucast p :: u32))" arbitrary: cmp)
  case 0
  then have "\<not> sint ((ucast cmp :: u32) - ucast cur) < 0" using periods_missed_step assms by fastforce
  then show ?case by (subst catch_up32.simps) (simp add: hpet_time_after_def periods_missed_def)
next
  case (Suc n)
  let ?d = "(ucast cmp :: u32) - ucast cur" and ?c = "ucast (ucast (cmp + p) :: u32) :: u64"
  have neg: "sint ?d < 0" using Suc(2) by (simp add: periods_missed_def split: if_splits)
  have "(ucast ?c :: u32) - ucast cur = ?d + ucast p" by (simp add: ucast_u64_u32_add)
  then have "sint ((ucast ?c :: u32) - ucast cur) = sint ?d + sint (ucast p :: u32)"
    using sint_step [OF neg assms] by metis
  then have k: "periods_missed (sint ?d) (sint (ucast p :: u32))
    = Suc (periods_missed (sint ((ucast ?c :: u32) - ucast cur)) (sint (ucast p :: u32)))"
    using periods_missed_step [OF neg assms] by simp
  then obtain c where "catch_up32 cur p ?c = Some c"
    "(ucast c :: u32) = ucast ?c + of_nat (periods_missed (sint ((ucast ?c :: u32) - ucast cur)) (sint (ucast p :: u32))) * ucast p"
    using Suc(1) [of ?c] Suc(2) by auto
  then show ?case using neg
    by (subst catch_up32.simps) (simp add: hpet_time_after_def k ucast_u64_u32_add algebra_simps)
qed

lemma periods_missed_reaches:
  assumes "0 < p"
  shows "0 \<le> d + int (periods_missed d p) * p" "d < 0 \<Longrightarrow> d + int (periods_missed d p) * p < p"
proof -
  have *: "(p - 1 - d) div p * p = p - 1 - d - (p - 1 - d) mod p" by (simp add: minus_mod_eq_div_mult)
  have "0 \<le> (p - 1 - d) mod p" "(p - 1 - d) mod p < p" using assms by simp_all
  moreover have "d < 0 \<Longrightarrow> 0 \<le> (p - 1 - d) div p" using assms by (simp add: pos_imp_zdiv_nonneg_iff)
  ultimately show "0 \<le> d + int (periods_missed d p) * p" "d < 0 \<Longrightarrow> d + int (periods_missed d p) * p < p"
    using * by (auto simp: periods_missed_def)
qed

section \<open>What the operations leave alone\<close>

lemma update_irq_keeps [simp]:
  "hpet_timers (fst (update_irq i l s)) = hpet_timers s"
  "hpet_offset (fst (update_irq i l s)) = hpet_offset s"
  "hpet_flags (fst (update_irq i l s)) = hpet_flags s"
  "rtc_irq_level (fst (update_irq i l s)) = rtc_irq_level s"
  "num_timers (fst (update_irq i l s)) = num_timers s"
  "capability (fst (update_irq i l s)) = capability s"
  "hpet_config (fst (update_irq i l s)) = hpet_config s"
  "hpet_counter (fst (update_irq i l s)) = hpet_counter s"
  "hpet_id (fst (update_irq i l s)) = hpet_id s"
  by (simp_all add: update_irq_def Let_def)

lemma set_tmr_keeps [simp]:
  "hpet_timers (set_tmr i t s) = (hpet_timers s)[i := t]"
  "hpet_offset (set_tmr i t s) = hpet_offset s"
  "hpet_flags (set_tmr i t s) = hpet_flags s"
  "rtc_irq_level (set_tmr i t s) = rtc_irq_level s"
  "num_timers (set_tmr i t s) = num_timers s"
  "capability (set_tmr i t s) = capability s"
  "hpet_config (set_tmr i t s) = hpet_config s"
  "hpet_isr (set_tmr i t s) = hpet_isr s"
  "hpet_counter (set_tmr i t s) = hpet_counter s"
  "hpet_id (set_tmr i t s) = hpet_id s"
  by (simp_all add: set_tmr_def)

lemma arm_keeps [simp]:
  "tn (arm now d t) = tn t" "tn_config (arm now d t) = tn_config t" "tn_cmp (arm now d t) = tn_cmp t"
  "tn_fsb (arm now d t) = tn_fsb t" "tn_period (arm now d t) = tn_period t" "wrap_flag (arm now d t) = wrap_flag t"
  "tn_qemu_timer (arm now d t) = qemu_mod_timer (tn_qemu_timer t) (now + 10 * d)"
  by (simp_all add: arm_def ticks_to_ns_eq)

section \<open>Periodic timers\<close>

text \<open>
  The distance of a comparator from the counter and the period, both in the width the timer is
  set to.
\<close>

definition tn_distance :: "hpet_timer_state \<Rightarrow> u64 \<Rightarrow> int" where
  "tn_distance t cur =
     (if tn_config t AND HPET_TN_32BIT \<noteq> 0 then sint ((ucast (tn_cmp t) :: u32) - ucast cur)
      else sint (tn_cmp t - cur))"

definition tn_step :: "hpet_timer_state \<Rightarrow> int" where
  "tn_step t = (if tn_config t AND HPET_TN_32BIT \<noteq> 0 then sint (ucast (tn_period t) :: u32) else sint (tn_period t))"

lemma sint_add_steps:
  fixes d p :: "'a::len word"
  assumes "0 < sint p"
  shows "sint (d + of_nat (periods_missed (sint d) (sint p)) * p)
    = sint d + int (periods_missed (sint d) (sint p)) * sint p"
proof -
  let ?k = "periods_missed (sint d) (sint p)" and ?x = "sint d + int (periods_missed (sint d) (sint p)) * sint p"
  have "d + of_nat ?k * p = word_of_int ?x" by simp
  then have "sint (d + of_nat ?k * p) = signed_take_bit (LENGTH('a) - 1) ?x" by (simp only: sint_sbintrunc')
  also have "\<dots> = ?x"
  proof (rule signed_take_bit_int_eq_self)
    have "- (2 ^ (LENGTH('a) - 1)) \<le> (0::int)" by simp
    then show "- (2 ^ (LENGTH('a) - 1)) \<le> ?x" using periods_missed_reaches(1) [OF assms, of "sint d"]
      by (rule order_trans)
    have "sint p < 2 ^ (LENGTH('a) - 1)" "sint d < 2 ^ (LENGTH('a) - 1)" by (simp_all add: sint_less)
    then show "?x < 2 ^ (LENGTH('a) - 1)"
      using periods_missed_reaches(2) [OF assms, of "sint d"] by (cases "sint d < 0") (simp_all add: periods_missed_def)
  qed
  finally show ?thesis .
qed

lemma sint_eq_0 [simp]: "sint (x :: 'a::len word) = 0 \<longleftrightarrow> x = 0"
proof
  assume "sint x = 0"
  then have "word_of_int (sint x) = (0 :: 'a word)" by simp
  then show "x = 0" by simp
qed simp

lemma calculate_diff_distance:
  assumes "0 \<le> tn_distance t cur"
  shows "hpet_calculate_diff t cur = word_of_int (tn_distance t cur)"
proof -
  have u: "ucast x = (word_of_int (sint x) :: u64)" if "0 \<le> sint x" for x :: u32
  proof -
    have "sint x < 2 ^ 31" using sint_less [of x] by simp
    then have "take_bit 32 (sint x) = sint x" using that by (simp add: take_bit_int_eq_self)
    then have "uint x = sint x" using uint_sint [of x] by simp
    moreover have "ucast x = (word_of_int (uint x) :: u64)" by simp
    ultimately show ?thesis by (simp only:)
  qed
  show ?thesis
  proof (cases "tn_config t AND HPET_TN_32BIT = 0")
    case True
    then show ?thesis using assms by (cases "tn_cmp t = cur") (simp_all add: hpet_calculate_diff_def tn_distance_def Let_def)
  next
    case False
    then show ?thesis
      using assms u [of "(ucast (tn_cmp t) :: u32) - ucast cur"]
      by (cases "(ucast (tn_cmp t) :: u32) - ucast cur = 0") (simp_all add: hpet_calculate_diff_def tn_distance_def Let_def)
  qed
qed

lemma catch_up_distance:
  assumes "0 < tn_step t"
  shows "\<exists>c. (if tn_config t AND HPET_TN_32BIT \<noteq> 0 then catch_up32 cur (tn_period t) (tn_cmp t)
              else catch_up64 cur (tn_period t) (tn_cmp t)) = Some c
    \<and> tn_distance (t\<lparr>tn_cmp := c\<rparr>) cur
      = tn_distance t cur + int (periods_missed (tn_distance t cur) (tn_step t)) * tn_step t"
proof (cases "tn_config t AND HPET_TN_32BIT = 0")
  case True
  let ?d = "tn_cmp t - cur" and ?p = "tn_period t"
  have p: "0 < sint ?p" using assms True by (simp add: tn_step_def)
  have "tn_cmp t + of_nat (periods_missed (sint ?d) (sint ?p)) * ?p - cur
    = ?d + of_nat (periods_missed (sint ?d) (sint ?p)) * ?p" by simp
  then have "sint (tn_cmp t + of_nat (periods_missed (sint ?d) (sint ?p)) * ?p - cur)
    = sint ?d + int (periods_missed (sint ?d) (sint ?p)) * sint ?p"
    using sint_add_steps [OF p, of ?d] by (simp only:)
  then show ?thesis using True catch_up64_eq [OF p, of cur "tn_cmp t"]
    by (simp add: tn_distance_def tn_step_def)
next
  case False
  let ?d = "(ucast (tn_cmp t) :: u32) - ucast cur" and ?p = "ucast (tn_period t) :: u32"
  have p: "0 < sint ?p" using assms False by (simp add: tn_step_def)
  obtain c where c: "catch_up32 cur (tn_period t) (tn_cmp t) = Some c"
    "(ucast c :: u32) = ucast (tn_cmp t) + of_nat (periods_missed (sint ?d) (sint ?p)) * ?p"
    using catch_up32_eq [OF p] by blast
  then have "(ucast c :: u32) - ucast cur = ?d + of_nat (periods_missed (sint ?d) (sint ?p)) * ?p" by simp
  then have "sint ((ucast c :: u32) - ucast cur) = sint ?d + int (periods_missed (sint ?d) (sint ?p)) * sint ?p"
    using sint_add_steps [OF p, of ?d] by (simp only:)
  then show ?thesis using False c(1) by (simp add: tn_distance_def tn_step_def)
qed

text \<open>
  C16: The expiry callback of a periodic timer returns and keeps the timer in step. For a period
  below half the range of the timer's width, the callback moves the comparator by a whole number
  of periods to the first value that is not before the main counter, however late it runs, and
  sets the timer for exactly the tick of that value.
\<close>

theorem hpet_periodic_in_step:
  fixes now :: u64
  assumes "i < length (hpet_timers s)" "timer_is_periodic (tmr s i)" "0 < tn_step (tmr s i)"
    "tn_qemu_timer (tmr s i) \<noteq> NoTimer"
  defines "cur \<equiv> hpet_get_ticks now s"
  shows "\<exists>s' out k. hpet_timer i now s = Some (s', out)
    \<and> tn_distance (tmr s' i) cur = tn_distance (tmr s i) cur + int k * tn_step (tmr s i)
    \<and> 0 \<le> tn_distance (tmr s' i) cur \<and> (k = 0 \<or> tn_distance (tmr s' i) cur < tn_step (tmr s i))
    \<and> tn_qemu_timer (tmr s' i) = Timer (Some (now + 10 * word_of_int (tn_distance (tmr s' i) cur)))"
proof -
  let ?t = "tmr s i"
  let ?k = "periods_missed (tn_distance ?t cur) (tn_step ?t)"
  obtain c where c: "(if tn_config ?t AND HPET_TN_32BIT \<noteq> 0 then catch_up32 cur (tn_period ?t) (tn_cmp ?t)
      else catch_up64 cur (tn_period ?t) (tn_cmp ?t)) = Some c"
    "tn_distance (?t\<lparr>tn_cmp := c\<rparr>) cur = tn_distance ?t cur + int ?k * tn_step ?t"
    using catch_up_distance [OF assms(3)] by blast
  let ?t' = "?t\<lparr>tn_cmp := c\<rparr>"
  let ?r = "update_irq i True (set_tmr i (arm now (hpet_calculate_diff ?t' cur) ?t') s)"
  have "tn_period ?t \<noteq> 0" using assms(3) by (auto simp: tn_step_def split: if_splits)
  then have r: "hpet_timer i now s = Some ?r"
    unfolding hpet_timer_def Let_def cur_def [symmetric] using assms(2) c(1) by simp
  have t': "tmr (fst ?r) i = arm now (hpet_calculate_diff ?t' cur) ?t'" using assms(1) by simp
  have d: "tn_distance (tmr (fst ?r) i) cur = tn_distance ?t' cur" by (simp only: t' tn_distance_def arm_keeps)
  have nn: "0 \<le> tn_distance ?t' cur" using periods_missed_reaches(1) [OF assms(3)] c(2) by simp
  have "?k = 0 \<or> tn_distance ?t' cur < tn_step ?t"
    using periods_missed_reaches(2) [OF assms(3)] c(2) by (auto simp: periods_missed_def)
  moreover have "tn_qemu_timer (tmr (fst ?r) i) = Timer (Some (now + 10 * word_of_int (tn_distance ?t' cur)))"
    using assms(1,4) by (cases "tn_qemu_timer ?t") (simp_all add: calculate_diff_distance [OF nn])
  ultimately have "tn_distance (tmr (fst ?r) i) cur = tn_distance ?t cur + int ?k * tn_step ?t
    \<and> 0 \<le> tn_distance (tmr (fst ?r) i) cur \<and> (?k = 0 \<or> tn_distance (tmr (fst ?r) i) cur < tn_step ?t)
    \<and> tn_qemu_timer (tmr (fst ?r) i) = Timer (Some (now + 10 * word_of_int (tn_distance (tmr (fst ?r) i) cur)))"
    unfolding d using c(2) nn by blast
  then show ?thesis using r by (metis prod.collapse)
qed

text \<open>A periodic 32 bit timer with period 1000 whose callback runs 2500 ticks after its comparator.\<close>

definition hpet_late :: hpet_state where
  "hpet_late = (hpet_zero 3 0)\<lparr>hpet_config := 1,
     hpet_timers := replicate 32 (hpet_timer_zero\<lparr>tn_config := 0x10c, tn_cmp := 500, tn_period := 1000, tn_qemu_timer := Timer None\<rparr>)\<rparr>"

theorem hpet_periodic_in_step_witness:
  "\<exists>s' out. hpet_timer 0 30000 hpet_late = Some (s', out) \<and> tn_qemu_timer (tmr s' 0) = Timer (Some 35000)"
proof -
  have cur: "hpet_get_ticks 30000 hpet_late = 3000" by code_simp
  have t: "timer_is_periodic (tmr hpet_late 0)" "tn_step (tmr hpet_late 0) = 1000"
    "tn_distance (tmr hpet_late 0) 3000 = - 2500" "tn_qemu_timer (tmr hpet_late 0) \<noteq> NoTimer"
    "0 < length (hpet_timers hpet_late)" by code_simp+
  obtain s' out k where r: "hpet_timer 0 30000 hpet_late = Some (s', out)"
    "tn_distance (tmr s' 0) 3000 = - 2500 + int k * 1000" "0 \<le> tn_distance (tmr s' 0) 3000"
    "k = 0 \<or> tn_distance (tmr s' 0) 3000 < 1000"
    "tn_qemu_timer (tmr s' 0) = Timer (Some (30000 + 10 * word_of_int (tn_distance (tmr s' 0) 3000)))"
    using hpet_periodic_in_step [of 0 hpet_late 30000] t cur by auto
  have "k = 3" using r(2-4) by linarith
  then have "tn_distance (tmr s' 0) 3000 = 500" using r(2) by simp
  then show ?thesis using r(1,5) by simp
qed

section \<open>A callback that never returns\<close>

lemma catch_up32_diverges:
  assumes "hpet_time_after cur cmp" "(ucast p :: u32) = 0"
  shows "catch_up32 cur p cmp = None"
proof (rule ccontr)
  assume "catch_up32 cur p cmp \<noteq> None"
  then obtain c where "catch_up32 cur p cmp = Some c" by blast
  then have "\<not> (hpet_time_after cur cmp \<and> (ucast p :: u32) = 0)"
  proof (rule catch_up32.raw_induct [rotated])
    fix f :: "u64 \<Rightarrow> u64 \<Rightarrow> u64 \<Rightarrow> u64 option" and a p b c
    assume IH: "\<And>a p b c. f a p b = Some c \<Longrightarrow> \<not> (hpet_time_after a b \<and> (ucast p :: u32) = 0)"
      and step: "(if hpet_time_after a b then f a p (ucast (ucast (b + p) :: u32)) else Some b) = Some c"
    show "\<not> (hpet_time_after a b \<and> (ucast p :: u32) = 0)"
    proof
      assume *: "hpet_time_after a b \<and> (ucast p :: u32) = 0"
      then have "f a p (ucast (ucast (b + p) :: u32)) = Some c" using step by simp
      moreover have "hpet_time_after a (ucast (ucast (b + p) :: u32))"
        using * by (simp add: hpet_time_after_def ucast_u64_u32_add)
      ultimately show False using IH * by blast
    qed
  qed
  then show False using assms by blast
qed

text \<open>The device as the board leaves it: created with three timers and reset.\<close>

definition fw_start :: hpet_fw_config where
  "fw_start = \<lparr>fw_count = 255, fw_hpet = replicate 8 \<lparr>event_timer_block_id = 0, fw_address = 0, min_tick = 0, page_prot = 0\<rparr>\<rparr>"

definition hpet_boot :: hpet_state where
  "hpet_boot = (case hpet_init fw_start (hpet_zero 3 0) of
     Some (c, s) \<Rightarrow> fst (snd (snd (hpet_reset 0xfed00000 0 c s))))"

definition hpet_writes :: "u64 \<Rightarrow> (u64 \<times> u32) list \<Rightarrow> hpet_state \<Rightarrow> hpet_state" where
  "hpet_writes now = fold (\<lambda>(a, v) s. fst (hpet_ram_writel now a v s))"

definition hung_writes :: "(u64 \<times> u32) list" where
  "hung_writes = [(0x100 + HPET_TN_CFG, 0x10c), (0x100 + HPET_TN_CMP + 4, 1), (HPET_CFG, 1)]"

lemma hpet_boot_timer0:
  "tmr hpet_boot 0 = \<lparr>tn = 0, tn_qemu_timer = Timer None, tn_config = 0x400000030, tn_cmp = NOT 0, tn_fsb = 0, tn_period = 0, wrap_flag = 0\<rparr>"
  "hpet_config hpet_boot = 0" "hpet_counter hpet_boot = 0" "num_timers hpet_boot = 3" "length (hpet_timers hpet_boot) = 32"
  "tn_cmp (tmr hpet_boot 1) = NOT 0" "tn_cmp (tmr hpet_boot 2) = NOT 0"
  by code_simp+

lemma cast_all_ones: "(ucast (ucast (- 1 :: u64) :: u32) :: u64) = 0xffffffff"
  by code_simp

lemma activating_simps:
  "activating_bit 0x30 0x10c HPET_TN_FSB_ENABLE = False" "activating_bit 0x30 0x10c HPET_TN_ENABLE = True"
  "activating_bit 0 1 HPET_CFG_ENABLE = True" "activating_bit 0 1 HPET_CFG_LEGACY = False" "deactivating_bit 0 1 HPET_CFG_LEGACY = False"
  by code_simp+

lemma hung_after_two:
  fixes now :: u64
  defines "s \<equiv> hpet_writes now (take 2 hung_writes) hpet_boot"
  shows "hpet_config s = 0" "hpet_counter s = 0" "num_timers s = 3" "length (hpet_timers s) = 32"
    "tn_config (tmr s 0) = 0x40000013c" "tn_cmp (tmr s 0) = 0xffffffff" "tn_period (tmr s 0) = 0x100000000"
    "tn_qemu_timer (tmr s 0) \<noteq> NoTimer" "tn_cmp (tmr s 1) = NOT 0" "tn_cmp (tmr s 2) = NOT 0"
  by (simp_all add: s_def hung_writes_def hpet_writes_def hpet_ram_writel_def hpet_ram_readl_def Let_def
      hpet_boot_timer0 tn_cfg_write_def tn_cmp_high_write_def hpet_fixup_reg_def activating_simps
      hpet_set_timer_def hpet_set_timer1_def hpet_calculate_diff_def timer_is_periodic_def period_mask_def
      rearm_enabled_def hpet_enabled_def cast_all_ones hpet_boot_timer0(6) [simplified])

lemma for_timers_3:
  assumes "num_timers s = 3"
  shows "for_timers f s = (let (s, a) = f 0 s; (s, b) = f 1 s; (s, c) = f 2 s in (s, a @ b @ c))"
proof -
  have "[0..<unat (3::u8)] = [0, 1, 2]" by code_simp
  then show ?thesis by (simp add: for_timers_def assms split_beta Let_def)
qed

lemma hung_state:
  fixes now :: u64
  defines "s \<equiv> hpet_writes now hung_writes hpet_boot"
  shows "tn_config (tmr s 0) = 0x40000013c" "tn_cmp (tmr s 0) = 0xffffffff" "tn_period (tmr s 0) = 0x100000000"
    "hpet_offset s = - now" "tn_qemu_timer (tmr s 0) = Timer (Some now)"
proof -
  let ?u = "hpet_writes now (take 2 hung_writes) hpet_boot"
  let ?v = "?u\<lparr>hpet_config := 1, hpet_offset := - now\<rparr>"
  have "hpet_writes now hung_writes hpet_boot = fst (hpet_ram_writel now HPET_CFG 1 ?u)"
    by (simp add: hung_writes_def hpet_writes_def)
  also have "\<dots> = fst (hpet_cfg_write now 0 1 ?u)"
    by (simp add: hpet_ram_writel_def hpet_ram_readl_def Let_def hung_after_two)
  also have "\<dots> = hpet_set_timer 0 now ?v"
    by (simp add: hpet_cfg_write_def Let_def activating_simps hpet_fixup_reg_def hung_after_two
        for_timers_3 ticks_to_ns_eq split_beta hpet_set_timer_def hung_after_two(9) [simplified])
  finally have s: "s = hpet_set_timer 0 now ?v" by (simp add: s_def)
  have cur: "hpet_get_ticks now ?v = 0" by (simp add: hpet_get_ticks_def ns_to_ticks_eq)
  have t: "tmr s 0 = hpet_set_timer1 now 0 (tmr ?u 0)" "hpet_offset s = - now"
    using hung_after_two(4) by (simp_all add: s hpet_set_timer_def cur)
  have d: "hpet_calculate_diff (tmr ?u 0\<lparr>wrap_flag := 0\<rparr>) 0 = 0"
    by (simp add: hpet_calculate_diff_def Let_def hung_after_two)
  have a: "tmr s 0 = arm now 0 (tmr ?u 0\<lparr>wrap_flag := 0\<rparr>)"
    by (simp add: t hpet_set_timer1_def Let_def d timer_is_periodic_def hung_after_two)
  show "tn_config (tmr s 0) = 0x40000013c" "tn_cmp (tmr s 0) = 0xffffffff" "tn_period (tmr s 0) = 0x100000000"
    "hpet_offset s = - now"
    by (simp_all add: a t(2) hung_after_two)
  show "tn_qemu_timer (tmr s 0) = Timer (Some now)"
    using hung_after_two(8) [of now] by (cases "tn_qemu_timer (tmr ?u 0)") (simp_all add: a)
qed

text \<open>
  C37: Three register writes hang the emulator. After reset, a write of 0x10c to the configuration
  of timer 0 (periodic, 32 bit, enabled), of 1 to the upper half of its comparator and of 1 to the
  general configuration set the timer for the present moment with a period whose lower half is
  zero; the callback that then runs, within 21 seconds, never leaves its loop.
\<close>

theorem hpet_zero_period_hangs:
  assumes "unat (later - now) < 10 * 2 ^ 31"
  defines "s \<equiv> hpet_writes now hung_writes hpet_boot"
  shows "tn_qemu_timer (tmr s 0) = Timer (Some now) \<and> hpet_timer 0 later s = None"
proof -
  let ?cur = "hpet_get_ticks later s"
  note st = hung_state [of now, folded s_def]
  have cur: "unat ?cur < 2 ^ 31"
    using assms(1) by (simp add: hpet_get_ticks_def st(4) ns_to_ticks_eq unat_div)
  have ones: "(ucast (0xffffffff :: u64) :: u32) = - 1" by simp
  have "unat (ucast ?cur :: u32) < 2 ^ 31" using cur by (simp add: unsigned_ucast_eq take_bit_eq_mod)
  then have "sint (- 1 - (ucast ?cur :: u32)) < 0"
  proof -
    assume "unat (ucast ?cur :: u32) < 2 ^ 31"
    from sint_small [OF this] have c: "0 \<le> sint (ucast ?cur :: u32)" "sint (ucast ?cur :: u32) < 2 ^ 31"
      using sint_less [of "ucast ?cur :: u32"] by simp_all
    then have "signed_take_bit 31 (- 1 - sint (ucast ?cur :: u32)) = - 1 - sint (ucast ?cur :: u32)"
      by (intro signed_take_bit_int_eq_self) simp_all
    then have "sint (- 1 - (ucast ?cur :: u32)) = - 1 - sint (ucast ?cur :: u32)" by (simp add: sint_word_ariths)
    then show ?thesis using c by simp
  qed
  then have "hpet_time_after ?cur (tn_cmp (tmr s 0))" by (simp only: hpet_time_after_def st(2) ones)
  then have "catch_up32 ?cur (tn_period (tmr s 0)) (tn_cmp (tmr s 0)) = None"
    by (rule catch_up32_diverges) (simp add: st(3))
  then have "hpet_timer 0 later s = None" by (simp add: hpet_timer_def Let_def timer_is_periodic_def st(1,3))
  then show ?thesis using st(5) by simp
qed

theorem hpet_zero_period_hangs_witness: "hpet_timer 0 5000 (hpet_writes 5000 hung_writes hpet_boot) = None"
  using hpet_zero_period_hangs [of 5000 5000] by simp

section \<open>Types of the state and of the calls\<close>

definition tn_ok :: "nat \<Rightarrow> hpet_timer_state \<Rightarrow> bool" where
  "tn_ok i t \<longleftrightarrow> tn t = of_nat i \<and> tn_qemu_timer t \<noteq> NoTimer \<and> wrap_flag t \<le> 1"

definition hpet_wf :: "hpet_state \<Rightarrow> bool" where
  "hpet_wf s \<longleftrightarrow> length (hpet_timers s) = 32 \<and> 3 \<le> num_timers s \<and> num_timers s \<le> 32 \<and> rtc_irq_level s \<le> 1
     \<and> (\<forall>i<32. tn_ok i (tmr s i))"

primrec call_ok :: "hpet_call \<Rightarrow> bool" where
  "call_ok (Hpet_irq n l) \<longleftrightarrow> n < HPET_NUM_IRQ_ROUTES \<and> (l = 0 \<or> l = 1)"
| "call_ok (Hpet_msi a v) \<longleftrightarrow> unat a < 2 ^ 32"
| "call_ok Hpet_pit_disable \<longleftrightarrow> True"
| "call_ok Hpet_pit_enable \<longleftrightarrow> True"

definition result_ok :: "hpet_state \<times> hpet_call list \<Rightarrow> bool" where
  "result_ok r \<longleftrightarrow> hpet_wf (fst r) \<and> list_all call_ok (snd r)"

lemma result_okI [intro]: "hpet_wf s \<Longrightarrow> list_all call_ok out \<Longrightarrow> result_ok (s, out)"
  by (simp add: result_ok_def)

text \<open>The states of the emulator: created, then used through registers, expiries and the clock's line.\<close>

datatype hpet_event =
  HpetWrite u64 u64 u32 | HpetExpire nat u64 | HpetRtc bool | HpetReset u64 int hpet_fw_config | HpetSave u64

inductive hpet_step :: "hpet_state \<Rightarrow> hpet_event \<Rightarrow> hpet_state \<Rightarrow> bool" where
  write_reg: "hpet_ram_writel now addr v s = (t, out) \<Longrightarrow> hpet_step s (HpetWrite now addr v) t"
| expire: "i < 32 \<Longrightarrow> hpet_timer i now s = Some (t, out) \<Longrightarrow> hpet_step s (HpetExpire i now) t"
| rtc: "hpet_handle_rtc_irq (of_bool l) s = (t, out) \<Longrightarrow> hpet_step s (HpetRtc l) t"
| reset: "hpet_reset a n c s = (n', c', t, out) \<Longrightarrow> hpet_step s (HpetReset a n c) t"
| save: "hpet_pre_save now s = t \<Longrightarrow> hpet_step s (HpetSave now) t"

definition hpet_created :: "hpet_state \<Rightarrow> bool" where
  "hpet_created s \<longleftrightarrow> (\<exists>c n f c'. hpet_init c (hpet_zero n f) = Some (c', s))"

lemma init_timers:
  assumes "hpet_init c (hpet_zero n f) = Some (c', s)"
  shows "hpet_timers s = map (\<lambda>i. hpet_timer_zero\<lparr>tn_qemu_timer := Timer None, tn := of_nat i\<rparr>) [0..<32]"
    "num_timers s = (if n < 3 then 3 else if n > 32 then 32 else n)" "rtc_irq_level s = 0"
  using assms
  by (auto simp: hpet_init_def Let_def hpet_zero_def HPET_MIN_TIMERS_def HPET_MAX_TIMERS_def
      simp del: upt_rec_numeral split: if_splits)

lemma created_wf: "hpet_created s \<Longrightarrow> hpet_wf s"
proof -
  assume "hpet_created s"
  then obtain c n f c' where i: "hpet_init c (hpet_zero n f) = Some (c', s)" by (auto simp: hpet_created_def)
  have "3 \<le> num_timers s \<and> num_timers s \<le> 32" unfolding init_timers(2) [OF i] by (simp add: not_less)
  then show ?thesis
    by (simp add: hpet_wf_def init_timers(1,3) [OF i] tn_ok_def hpet_timer_zero_def del: upt_rec_numeral)
qed

lemma int_route_less: "timer_int_route t < 32"
proof -
  have "drop_bit 9 (tn_config t AND HPET_TN_INT_ROUTE_MASK) = drop_bit 9 (tn_config t) AND mask 5"
    by (simp add: drop_bit_and mask_eq_exp_minus_1)
  then have "timer_int_route t = unat (drop_bit 9 (tn_config t)) mod 2 ^ 5"
    by (simp only: timer_int_route_def unat_and_mask)
  then show ?thesis by simp
qed

lemma wf_isr [simp]: "hpet_wf (s\<lparr>hpet_isr := v\<rparr>) = hpet_wf s"
  by (simp add: hpet_wf_def)

lemma wf_regs [simp]:
  "hpet_wf (s\<lparr>hpet_config := v\<rparr>) = hpet_wf s" "hpet_wf (s\<lparr>hpet_counter := v\<rparr>) = hpet_wf s"
  "hpet_wf (s\<lparr>hpet_offset := v\<rparr>) = hpet_wf s"
  by (simp_all add: hpet_wf_def)

lemma high_half_less: "unat (drop_bit 32 (x :: u64)) < 2 ^ 32"
  using unsigned_less [of x, where ?'a = nat] by (simp add: unat_drop_bit div_less_iff_less_mult)

lemma update_irq_ok: "hpet_wf s \<Longrightarrow> result_ok (update_irq i l s)"
  using int_route_less [of "tmr s i"] high_half_less [of "tn_fsb (tmr s i)"]
  by (simp add: update_irq_def Let_def result_ok_def HPET_NUM_IRQ_ROUTES_def)

lemma wf_set_tmr: "hpet_wf s \<Longrightarrow> i < 32 \<Longrightarrow> tn_ok i t \<Longrightarrow> hpet_wf (set_tmr i t s)"
  by (auto simp: hpet_wf_def nth_list_update_if)

lemma wf_tmr: "hpet_wf s \<Longrightarrow> i < 32 \<Longrightarrow> tn_ok i (tmr s i)"
  by (simp add: hpet_wf_def)

lemma tn_ok_update [simp]:
  "tn_ok i (t\<lparr>tn_config := v\<rparr>) = tn_ok i t" "tn_ok i (t\<lparr>tn_cmp := v\<rparr>) = tn_ok i t"
  "tn_ok i (t\<lparr>tn_fsb := v\<rparr>) = tn_ok i t" "tn_ok i (t\<lparr>tn_period := v\<rparr>) = tn_ok i t"
  by (simp_all add: tn_ok_def)

lemma mod_timer_exists [simp]:
  "qemu_mod_timer tm v = NoTimer \<longleftrightarrow> tm = NoTimer" "qemu_del_timer tm = NoTimer \<longleftrightarrow> tm = NoTimer"
  by (cases tm; simp)+

lemma tn_ok_arm [simp]: "tn_ok i (arm now d t) = tn_ok i t"
  by (simp add: tn_ok_def)

lemma tn_ok_wrap: "tn_ok i t \<Longrightarrow> w \<le> 1 \<Longrightarrow> tn_ok i (t\<lparr>wrap_flag := w\<rparr>)"
  by (simp add: tn_ok_def)

lemma set_timer1_ok: "tn_ok i t \<Longrightarrow> tn_ok i (hpet_set_timer1 now cur t)"
  by (simp add: hpet_set_timer1_def Let_def tn_ok_wrap)

lemma set_timer_wf: "hpet_wf s \<Longrightarrow> i < 32 \<Longrightarrow> hpet_wf (hpet_set_timer i now s)"
  by (simp add: hpet_set_timer_def wf_set_tmr set_timer1_ok wf_tmr)

lemma del_timer_ok: "hpet_wf s \<Longrightarrow> i < 32 \<Longrightarrow> result_ok (hpet_del_timer i s)"
  using wf_tmr [of s i]
  by (simp add: hpet_del_timer_def update_irq_ok wf_set_tmr tn_ok_def)

lemma for_timers_ok:
  assumes "hpet_wf s" "\<And>i s. i < 32 \<Longrightarrow> hpet_wf s \<Longrightarrow> result_ok (f i s)"
  shows "result_ok (for_timers f s)"
proof -
  have *: "result_ok (fold (\<lambda>i (s, out). let (s, out') = f i s in (s, out @ out')) is r)"
    if "result_ok r" "\<forall>i\<in>set is. i < 32" for "is" r
    using that
  proof (induction "is" arbitrary: r)
    case (Cons i "is")
    have "result_ok (f i (fst r))" using Cons.prems assms(2) by (simp add: result_ok_def)
    then have "result_ok (fst (f i (fst r)), snd r @ snd (f i (fst r)))"
      using Cons.prems by (simp add: result_ok_def)
    then show ?case using Cons by (simp add: split_beta Let_def)
  qed simp
  have "unat (num_timers s) \<le> 32" using assms(1) by (simp add: hpet_wf_def word_le_nat_alt)
  then have "\<forall>i\<in>set [0..<unat (num_timers s)]. i < 32" by auto
  moreover have "result_ok (s, [])" using assms(1) by auto
  ultimately show ?thesis unfolding for_timers_def by (intro *)
qed

lemma timers_window_less:
  assumes "0x100 \<le> addr" "addr \<le> (0x3ff :: u64)"
  shows "unat (ucast ((addr - 0x100) div 0x20) :: u8) < 24"
proof -
  have "unat (addr - 0x100) = unat addr - 256" using assms(1) by (simp add: unat_sub)
  moreover have "unat addr \<le> 0x3ff" using assms(2) by (simp add: word_le_nat_alt)
  ultimately have "unat ((addr - 0x100) div 0x20) < 24" by (simp add: unat_div)
  then show ?thesis by (simp add: unat_ucast_8)
qed

lemma result_ok_append:
  "result_ok r \<Longrightarrow> list_all call_ok out \<Longrightarrow> result_ok (fst r, out @ snd r)"
  "result_ok r \<Longrightarrow> list_all call_ok out \<Longrightarrow> result_ok (fst r, snd r @ out)"
  by (simp_all add: result_ok_def)

lemma tn_cfg_write_ok:
  assumes "hpet_wf s" "i < 32"
  shows "result_ok (tn_cfg_write i now old new s)"
proof -
  define r where "r = (if activating_bit old new HPET_TN_FSB_ENABLE then update_irq i False s else (s, []))"
  define t where "t = (let t = (tmr (fst r) i)\<lparr>tn_config := (tn_config (tmr (fst r) i) AND 0xffffffff00000000) OR hpet_fixup_reg new old HPET_TN_CFG_WRITE_MASK\<rparr>
    in if new AND HPET_TN_32BIT \<noteq> 0
       then t\<lparr>tn_cmp := ucast (ucast (tn_cmp t) :: u32), tn_period := ucast (ucast (tn_period t) :: u32)\<rparr> else t)"
  have r: "result_ok r" using assms(1) by (auto simp: r_def update_irq_ok)
  then have "tn_ok i t" using assms(2) wf_tmr [of "fst r" i] by (simp add: t_def Let_def result_ok_def)
  then have wf: "hpet_wf (set_tmr i t (fst r))" using r assms(2) by (simp add: wf_set_tmr result_ok_def)
  have out: "list_all call_ok (snd r)" using r by (simp add: result_ok_def)
  have "tn_cfg_write i now old new s =
    (if activating_bit old new HPET_TN_ENABLE then (hpet_set_timer i now (set_tmr i t (fst r)), snd r)
     else if deactivating_bit old new HPET_TN_ENABLE then
       (fst (hpet_del_timer i (set_tmr i t (fst r))), snd r @ snd (hpet_del_timer i (set_tmr i t (fst r))))
     else (set_tmr i t (fst r), snd r))"
    unfolding tn_cfg_write_def r_def [symmetric] by (simp add: Let_def split_beta t_def)
  then show ?thesis
    using wf out set_timer_wf [OF wf assms(2)] result_ok_append(1) [OF del_timer_ok [OF wf assms(2)] out] by auto
qed

lemma rearm_enabled_wf: "hpet_wf s \<Longrightarrow> i < 32 \<Longrightarrow> hpet_wf (rearm_enabled i now s)"
  by (simp add: rearm_enabled_def Let_def wf_set_tmr wf_tmr set_timer_wf)

lemma tn_cmp_write_wf: "hpet_wf s \<Longrightarrow> i < 32 \<Longrightarrow> hpet_wf (tn_cmp_write i now v s)"
  by (simp add: tn_cmp_write_def Let_def rearm_enabled_wf wf_set_tmr wf_tmr)

lemma tn_cmp_high_write_wf: "hpet_wf s \<Longrightarrow> i < 32 \<Longrightarrow> hpet_wf (tn_cmp_high_write i now v s)"
  by (simp add: tn_cmp_high_write_def Let_def rearm_enabled_wf wf_set_tmr wf_tmr)

lemma wf_rtc_level: "hpet_wf s \<Longrightarrow> rtc_irq_level s = 0 \<or> rtc_irq_level s = 1"
proof -
  assume "hpet_wf s"
  then have "unat (rtc_irq_level s) \<le> 1" by (simp add: hpet_wf_def word_le_nat_alt)
  then have "unat (rtc_irq_level s) = 0 \<or> unat (rtc_irq_level s) = 1" by linarith
  then show ?thesis by (simp add: word_unat_eq_iff)
qed

lemma hpet_cfg_write_ok:
  assumes "hpet_wf s"
  shows "result_ok (hpet_cfg_write now old new s)"
proof -
  let ?s = "s\<lparr>hpet_config := (hpet_config s AND 0xffffffff00000000) OR hpet_fixup_reg new old HPET_CFG_WRITE_MASK\<rparr>"
  define r where "r = (if activating_bit old new HPET_CFG_ENABLE then
       for_timers (\<lambda>i s. (if tn_cmp (tmr s i) \<noteq> NOT 0 then hpet_set_timer i now s else s, []))
         (?s\<lparr>hpet_offset := ticks_to_ns (hpet_counter ?s) - now\<rparr>)
     else if deactivating_bit old new HPET_CFG_ENABLE then
       for_timers hpet_del_timer (?s\<lparr>hpet_counter := hpet_get_ticks now ?s\<rparr>)
     else (?s, []))"
  have r: "result_ok r" unfolding r_def using assms
    by (auto intro!: for_timers_ok del_timer_ok simp: set_timer_wf)
  then have "hpet_wf (fst r)" by (simp add: result_ok_def)
  from wf_rtc_level [OF this] have l: "call_ok (Hpet_irq RTC_ISA_IRQ (int (unat (rtc_irq_level (fst r)))))"
    by (auto simp: HPET_NUM_IRQ_ROUTES_def)
  have "hpet_cfg_write now old new s =
    (if activating_bit old new HPET_CFG_LEGACY then (fst r, snd r @ [Hpet_pit_disable, Hpet_irq RTC_ISA_IRQ 0])
     else if deactivating_bit old new HPET_CFG_LEGACY then
       (fst r, snd r @ [Hpet_pit_enable, Hpet_irq RTC_ISA_IRQ (int (unat (rtc_irq_level (fst r))))])
     else r)"
    unfolding hpet_cfg_write_def Let_def r_def [symmetric] by (simp add: split_beta)
  then show ?thesis using r l
      result_ok_append(2) [OF r, of "[Hpet_pit_disable, Hpet_irq RTC_ISA_IRQ 0]"]
      result_ok_append(2) [OF r, of "[Hpet_pit_enable, Hpet_irq RTC_ISA_IRQ (int (unat (rtc_irq_level (fst r))))]"]
    by (simp add: HPET_NUM_IRQ_ROUTES_def)
qed

lemma hpet_status_write_ok: "hpet_wf s \<Longrightarrow> result_ok (hpet_status_write v s)"
  unfolding hpet_status_write_def Let_def by (rule for_timers_ok) (auto simp: update_irq_ok)

lemma hpet_ram_writel_ok:
  assumes "hpet_wf s"
  shows "result_ok (hpet_ram_writel now addr v s)"
proof (cases "addr \<ge> 0x100 \<and> addr \<le> 0x3ff")
  case True
  let ?i = "unat (ucast ((addr - 0x100) div 0x20) :: u8)"
  have i: "?i < 32" using timers_window_less True by fastforce
  have fsb: "hpet_wf (set_tmr ?i (tmr s ?i\<lparr>tn_fsb := w\<rparr>) s)" for w
    using wf_set_tmr [OF assms i] wf_tmr [OF assms i] by simp
  show ?thesis
    using True assms tn_cfg_write_ok [OF assms i] tn_cmp_write_wf [OF assms i] tn_cmp_high_write_wf [OF assms i] fsb
    by (simp add: hpet_ram_writel_def Let_def result_okI)
next
  case False
  show ?thesis unfolding hpet_ram_writel_def Let_def if_not_P [OF False] using assms
    by (simp add: result_okI hpet_cfg_write_ok hpet_status_write_ok)
qed

lemma hpet_timer_ok:
  assumes "hpet_wf s" "i < 32" "hpet_timer i now s = Some r"
  shows "result_ok r"
  using assms wf_tmr [OF assms(1,2)]
  by (auto simp: hpet_timer_def Let_def wf_set_tmr tn_ok_wrap intro!: update_irq_ok split: if_splits option.splits)

lemma reset_timer_ok: "hpet_wf s \<Longrightarrow> i < 32 \<Longrightarrow> result_ok (reset_timer i s)"
proof -
  assume wf: "hpet_wf s" and i: "i < 32"
  note d = del_timer_ok [OF wf i]
  then have "tn_ok i (tmr (fst (hpet_del_timer i s)) i)" using i by (simp add: wf_tmr result_ok_def)
  then show ?thesis using d i
    by (auto simp: reset_timer_def Let_def split_beta result_ok_def wf_set_tmr tn_ok_wrap)
qed

lemma hpet_reset_ok:
  assumes "hpet_wf s" "hpet_reset a n c s = (n', c', t, out)"
  shows "result_ok (t, out)"
  using assms for_timers_ok [OF assms(1) reset_timer_ok]
  by (auto simp: hpet_reset_def Let_def split_beta result_ok_def split: if_splits)

lemma hpet_rtc_ok: "hpet_wf s \<Longrightarrow> result_ok (hpet_handle_rtc_irq (of_bool l) s)"
  by (auto simp: hpet_handle_rtc_irq_def Let_def result_ok_def hpet_wf_def HPET_NUM_IRQ_ROUTES_def)

lemma hpet_step_wf: "hpet_step s e t \<Longrightarrow> hpet_wf s \<Longrightarrow> hpet_wf t"
proof (induction rule: hpet_step.induct)
  case (write_reg now addr v s t out)
  then show ?case using hpet_ram_writel_ok [of s now addr v] by (simp add: result_ok_def)
next
  case (expire i now s t out)
  then show ?case using hpet_timer_ok [of s i now "(t, out)"] by (simp add: result_ok_def)
next
  case (rtc l s t out)
  then show ?case using hpet_rtc_ok [of s l] by (simp add: result_ok_def)
next
  case (reset a n c s n' c' t out)
  then show ?case using hpet_reset_ok [of s a n c n' c' t out] by (simp add: result_ok_def)
next
  case (save now s t)
  then show ?case by (auto simp: hpet_pre_save_def)
qed

interpretation hpet_dev: device hpet_created hpet_step hpet_wf
  by unfold_locales (auto intro: created_wf hpet_step_wf)

text \<open>
  C24: The event timer stays well formed and drives only what exists. In every reachable state
  there are 32 timers, each with its number and its host timer, of which 3 to 32 are in use; every
  address of the register window selects one of the 32; and every register write and every expiry
  that returns drives only the 32 interrupt lines, with levels 0 and 1, and sends messages only to
  addresses below 4 GB.
\<close>

theorem hpet_well_formed:
  assumes "reachable hpet_created hpet_step s"
  shows "hpet_wf s
    \<and> (0x100 \<le> addr \<and> addr \<le> 0x3ff \<longrightarrow> unat (ucast ((addr - 0x100) div 0x20 :: u64) :: u8) < length (hpet_timers s))
    \<and> list_all call_ok (snd (hpet_ram_writel now addr v s))
    \<and> (\<forall>i<32. case hpet_timer i now s of None \<Rightarrow> True | Some (t, out) \<Rightarrow> list_all call_ok out)"
proof -
  have wf: "hpet_wf s" by (rule hpet_dev.reachable_wf [OF assms])
  then have "length (hpet_timers s) = 32" by (simp add: hpet_wf_def)
  moreover have "list_all call_ok (snd (hpet_ram_writel now addr v s))"
    using hpet_ram_writel_ok [OF wf] by (simp add: result_ok_def)
  moreover have "\<forall>i<32. case hpet_timer i now s of None \<Rightarrow> True | Some (t, out) \<Rightarrow> list_all call_ok out"
    using hpet_timer_ok [OF wf] by (fastforce simp: result_ok_def split: option.split)
  moreover have "0x100 \<le> addr \<and> addr \<le> 0x3ff \<longrightarrow> unat (ucast ((addr - 0x100) div 0x20 :: u64) :: u8) < 32"
    using timers_window_less [of addr] by fastforce
  ultimately show ?thesis using wf by simp
qed

text \<open>The created device, reset once.\<close>

definition hpet_new :: hpet_state where
  "hpet_new = (case hpet_init fw_start (hpet_zero 3 0) of Some (c, s) \<Rightarrow> s)"

lemma hpet_new_reachable: "reachable hpet_created hpet_step hpet_new"
proof (rule reachable.start)
  have "hpet_init fw_start (hpet_zero 3 0) \<noteq> None" by code_simp
  then obtain c where "hpet_init fw_start (hpet_zero 3 0) = Some (c, hpet_new)"
    by (auto simp: hpet_new_def split: option.splits)
  then show "hpet_created hpet_new" unfolding hpet_created_def by blast
qed

theorem hpet_well_formed_witness: "hpet_wf hpet_new \<and> list_all call_ok (snd (hpet_ram_writel 0 0x10 1 hpet_new))"
  using hpet_well_formed [OF hpet_new_reachable, of "0x10" 0 1] by blast

section \<open>One-shot timers\<close>

text \<open>When \<open>d\<close> ticks have passed, the counter has advanced by \<open>d\<close>.\<close>

lemma ticks_advance:
  assumes "unat (now + off) + 10 * unat d < 2 ^ 64"
  shows "ns_to_ticks (now + 10 * d + off) = ns_to_ticks (now + off) + d"
    "unat (now + 10 * d + off) = unat (now + off) + 10 * unat d"
proof -
  have "unat (10 * d) = 10 * unat d" using assms by (simp add: unat_word_ariths(2))
  moreover have "now + 10 * d + off = (now + off) + 10 * d" by simp
  ultimately show e: "unat (now + 10 * d + off) = unat (now + off) + 10 * unat d"
    using assms by (simp only: unat_word_ariths(1)) simp
  have "unat ((now + 10 * d + off) div 10) = unat (now + off) div 10 + unat d"
    by (simp only: unat_div e) simp
  moreover have "unat ((now + off) div 10 + d) = unat (now + off) div 10 + unat d"
    using assms by (simp only: unat_word_ariths(1) unat_div) simp
  ultimately show "ns_to_ticks (now + 10 * d + off) = ns_to_ticks (now + off) + d"
    by (simp only: ns_to_ticks_eq word_unat_eq_iff)
qed

lemma sint_pos_unat:
  fixes x :: "'a::len word"
  assumes "0 < sint x"
  shows "sint x = int (unat x)"
proof -
  have "take_bit LENGTH('a) (sint x) = sint x"
  proof (rule take_bit_int_eq_self)
    have "(2::int) ^ (LENGTH('a) - Suc 0) \<le> 2 ^ LENGTH('a)" by (rule power_increasing) simp_all
    with sint_less [of x] show "sint x < 2 ^ LENGTH('a)" by (rule less_le_trans)
  qed (use assms in simp)
  then show ?thesis using uint_sint [of x] by simp
qed

lemma sint_pos_small: "0 < unat x \<Longrightarrow> unat (x::u32) < 2 ^ 31 \<Longrightarrow> 0 < sint x"
  by (simp only: sint_small)

text \<open>The timer fires at time \<open>e\<close> and the counter then matches its comparator.\<close>

definition matches_at :: "hpet_state \<Rightarrow> nat \<Rightarrow> u64 \<Rightarrow> bool" where
  "matches_at s i e \<longleftrightarrow> tn_qemu_timer (tmr s i) = Timer (Some e) \<and> tn_distance (tmr s i) (hpet_get_ticks e s) = 0"

lemma matches_at_cong:
  assumes "tn_qemu_timer (tmr s i) = tn_qemu_timer (tmr s' i)" "tn_config (tmr s i) = tn_config (tmr s' i)"
    "tn_cmp (tmr s i) = tn_cmp (tmr s' i)" "hpet_offset s = hpet_offset s'"
  shows "matches_at s i e = matches_at s' i e"
  by (simp only: matches_at_def tn_distance_def hpet_get_ticks_def assms)

lemma armed_timer:
  "tn_qemu_timer t \<noteq> NoTimer \<Longrightarrow> tn_qemu_timer (arm now d t) = Timer (Some (now + 10 * d))"
  by (cases "tn_qemu_timer t") simp_all

lemma one_shot_64:
  assumes "i < length (hpet_timers s)" "tn_qemu_timer (tmr s i) \<noteq> NoTimer" "tn_config (tmr s i) AND HPET_TN_32BIT = 0"
    "0 < tn_distance (tmr s i) (hpet_get_ticks now s)"
    "unat (now + hpet_offset s) + 10 * nat (tn_distance (tmr s i) (hpet_get_ticks now s)) < 2 ^ 64"
  shows "\<exists>e. matches_at (hpet_set_timer i now s) i e \<and> wrap_flag (tmr (hpet_set_timer i now s) i) = 0"
proof -
  let ?t = "tmr s i" and ?cur = "hpet_get_ticks now s"
  let ?d = "tn_cmp ?t - ?cur"
  have d: "0 < sint ?d" using assms(3,4) by (simp add: tn_distance_def)
  have "hpet_calculate_diff (?t\<lparr>wrap_flag := 0\<rparr>) ?cur = ?d" using assms(3) d by (simp add: hpet_calculate_diff_def)
  then have t: "tmr (hpet_set_timer i now s) i = arm now ?d (?t\<lparr>wrap_flag := 0\<rparr>)"
    using assms(1,3) by (simp add: hpet_set_timer_def hpet_set_timer1_def)
  have "unat (now + hpet_offset s) + 10 * unat ?d < 2 ^ 64"
    using assms(3,5) sint_pos_unat [OF d] by (simp add: tn_distance_def)
  from ticks_advance(1) [OF this] have "hpet_get_ticks (now + 10 * ?d) (hpet_set_timer i now s) = tn_cmp ?t"
    by (simp add: hpet_get_ticks_def hpet_set_timer_def)
  then have "matches_at (hpet_set_timer i now s) i (now + 10 * ?d)"
    using armed_timer [of "?t\<lparr>wrap_flag := 0\<rparr>" now ?d] assms(2,3) unfolding matches_at_def t
    by (simp add: tn_distance_def)
  then show ?thesis using t by auto
qed

lemma one_shot_32_armed:
  fixes c d :: u32
  assumes "i < length (hpet_timers s)" "tn_qemu_timer t \<noteq> NoTimer" "tn_config t AND HPET_TN_32BIT \<noteq> 0"
    "d = ucast (tn_cmp t) - ucast (hpet_get_ticks now s)" "unat (now + hpet_offset s) + 10 * unat d < 2 ^ 64"
  shows "matches_at (set_tmr i (arm now (ucast d) t) s) i (now + 10 * ucast d)"
proof -
  have u: "unat (ucast d :: u64) = unat d" by (rule unat_u32_u64)
  have "hpet_get_ticks (now + 10 * ucast d) (set_tmr i (arm now (ucast d) t) s) = hpet_get_ticks now s + ucast d"
    using ticks_advance(1) [of now "hpet_offset s" "ucast d"] assms(5) by (simp add: hpet_get_ticks_def u)
  then have "(ucast (hpet_get_ticks (now + 10 * ucast d) (set_tmr i (arm now (ucast d) t) s)) :: u32) = ucast (tn_cmp t)"
    by (simp add: ucast_u64_u32_add assms(4))
  then show ?thesis using assms(1,3) armed_timer [OF assms(2), of now "ucast d"]
    by (simp add: matches_at_def tn_distance_def)
qed

lemma one_shot_wrap:
  fixes now :: u64
  assumes "i < length (hpet_timers s)" "tn_qemu_timer (tmr s i) \<noteq> NoTimer" "tn_config (tmr s i) AND HPET_TN_32BIT \<noteq> 0"
    "\<not> timer_is_periodic (tmr s i)"
  defines "cur \<equiv> hpet_get_ticks now s"
  defines "d \<equiv> (ucast (tn_cmp (tmr s i)) :: u32) - ucast cur"
  defines "w \<equiv> (0xffffffff :: u32) - ucast cur"
  assumes "0 < sint d" "w < d" "unat (now + hpet_offset s) + 10 * unat d < 2 ^ 64"
  defines "s1 \<equiv> set_tmr i (arm now (ucast w) ((tmr s i)\<lparr>wrap_flag := 1\<rparr>)) s"
  defines "e \<equiv> now + 10 * ucast w"
  shows "tn_qemu_timer (tmr s1 i) = Timer (Some e)" "(ucast (hpet_get_ticks e s1) :: u32) = 0xffffffff"
    "\<exists>s2 out e2. hpet_timer i e s1 = Some (s2, out) \<and> matches_at s2 i e2 \<and> wrap_flag (tmr s2 i) = 0"
proof -
  let ?t = "tmr s i"
  let ?t1 = "arm now (ucast w) (?t\<lparr>wrap_flag := 1\<rparr>)"
  have uw: "unat (ucast w :: u64) = unat w" by (rule unat_u32_u64)
  have wd: "unat w < unat d" using assms(9) by (simp add: word_less_nat_alt)
  have bw: "unat (now + hpet_offset s) + 10 * unat (ucast w :: u64) < 2 ^ 64" using assms(10) wd by (simp add: uw)
  have t1: "tmr s1 i = ?t1" using assms(1) by (simp add: s1_def)
  show "tn_qemu_timer (tmr s1 i) = Timer (Some e)"
    using armed_timer [of "?t\<lparr>wrap_flag := 1\<rparr>" now "ucast w"] assms(2) by (simp only: t1 e_def) simp
  have cur1: "hpet_get_ticks e s1 = cur + ucast w"
    using ticks_advance(1) [OF bw] by (simp add: hpet_get_ticks_def s1_def e_def cur_def)
  then show u1: "(ucast (hpet_get_ticks e s1) :: u32) = 0xffffffff" by (simp add: ucast_u64_u32_add w_def)
  have dd: "(ucast (tn_cmp ?t1) :: u32) - ucast (hpet_get_ticks e s1) = d - w"
    using cur1 by (simp add: ucast_u64_u32_add d_def)
  have ud: "unat (d - w) = unat d - unat w" using assms(9) by (simp add: unat_sub less_imp_le)
  have "sint d < int (2 ^ 31)" using sint_less [of d] by simp
  then have "unat d < 2 ^ 31" by (simp only: sint_pos_unat [OF assms(8)] of_nat_less_iff)
  then have "0 < sint (d - w)" using wd ud by (intro sint_pos_small) simp_all
  then have diff: "hpet_calculate_diff ?t1 (hpet_get_ticks e s1) = ucast (d - w)"
    unfolding hpet_calculate_diff_def dd using assms(3) by simp
  let ?s2 = "set_tmr i ((arm e (ucast (d - w)) ?t1)\<lparr>wrap_flag := 0\<rparr>) s1"
  have r: "hpet_timer i e s1 = Some (update_irq i True ?s2)"
    using assms(3,4) diff by (simp add: hpet_timer_def Let_def t1 timer_is_periodic_def)
  have "unat (e + hpet_offset s1) + 10 * unat (d - w) < 2 ^ 64"
    using ticks_advance(2) [OF bw] wd assms(10) by (simp add: e_def s1_def ud uw)
  moreover have "tn_qemu_timer ?t1 \<noteq> NoTimer" "tn_config ?t1 AND HPET_TN_32BIT \<noteq> 0" "i < length (hpet_timers s1)"
    using assms(1-3) by (simp_all add: s1_def)
  ultimately have "matches_at (set_tmr i (arm e (ucast (d - w)) ?t1) s1) i (e + 10 * ucast (d - w))"
    using dd by (intro one_shot_32_armed) simp_all
  then have "matches_at (fst (update_irq i True ?s2)) i (e + 10 * ucast (d - w))"
    by (rule matches_at_cong [THEN iffD2, rotated 4]) (use \<open>i < length (hpet_timers s1)\<close> in simp_all)
  moreover have "wrap_flag (tmr (fst (update_irq i True ?s2)) i) = 0"
    using \<open>i < length (hpet_timers s1)\<close> by simp
  ultimately show "\<exists>s2 out e2. hpet_timer i e s1 = Some (s2, out) \<and> matches_at s2 i e2 \<and> wrap_flag (tmr s2 i) = 0"
    using r by (metis prod.collapse)
qed

text \<open>
  C28: A one-shot timer fires when the counter reaches its comparator. Setting a one-shot timer
  whose comparator lies ahead arms it for a moment at which the counter matches the comparator in
  the timer's width. If a 32 bit counter wraps before, the timer is instead armed for the moment
  the counter reads 0xffffffff, and the callback there sets it for the match.
\<close>

theorem hpet_one_shot_matches:
  fixes now :: u64
  assumes "i < length (hpet_timers s)" "tn_qemu_timer (tmr s i) \<noteq> NoTimer" "\<not> timer_is_periodic (tmr s i)"
    "0 < tn_distance (tmr s i) (hpet_get_ticks now s)"
    "unat (now + hpet_offset s) + 10 * nat (tn_distance (tmr s i) (hpet_get_ticks now s)) < 2 ^ 64"
  defines "s1 \<equiv> hpet_set_timer i now s"
  shows "if wrap_flag (tmr s1 i) = 0 then \<exists>e. matches_at s1 i e
    else \<exists>e s2 out e2. tn_qemu_timer (tmr s1 i) = Timer (Some e) \<and> (ucast (hpet_get_ticks e s1) :: u32) = 0xffffffff
      \<and> hpet_timer i e s1 = Some (s2, out) \<and> matches_at s2 i e2 \<and> wrap_flag (tmr s2 i) = 0"
proof (cases "tn_config (tmr s i) AND HPET_TN_32BIT = 0")
  case True
  then show ?thesis using one_shot_64 [OF assms(1,2) True assms(4,5)] by (auto simp: s1_def)
next
  case False
  let ?cur = "hpet_get_ticks now s"
  let ?d = "(ucast (tn_cmp (tmr s i)) :: u32) - ucast ?cur" and ?w = "(0xffffffff :: u32) - ucast ?cur"
  have d: "0 < sint ?d" using assms(4) False by (simp add: tn_distance_def)
  have b: "unat (now + hpet_offset s) + 10 * unat ?d < 2 ^ 64"
    using assms(5) False sint_pos_unat [OF d] by (simp add: tn_distance_def)
  have c: "hpet_calculate_diff (tmr s i\<lparr>wrap_flag := 0\<rparr>) ?cur = ucast ?d"
    unfolding hpet_calculate_diff_def Let_def using False d by simp
  have s1: "s1 = set_tmr i (if ?w < ?d then arm now (ucast ?w) (tmr s i\<lparr>wrap_flag := 1\<rparr>)
      else arm now (ucast ?d) (tmr s i\<lparr>wrap_flag := 0\<rparr>)) s"
    unfolding s1_def hpet_set_timer_def hpet_set_timer1_def Let_def c
    using False assms(3) by (simp only: ucast_u32_u64_u32 timer_is_periodic_def hpet_timer_state.simps) simp
  show ?thesis
  proof (cases "?w < ?d")
    case w: True
    then have s1': "s1 = set_tmr i (arm now (ucast ?w) (tmr s i\<lparr>wrap_flag := 1\<rparr>)) s" using s1 by simp
    note * = one_shot_wrap [OF assms(1,2) False assms(3) d w b, folded s1']
    have "wrap_flag (tmr s1 i) \<noteq> 0" using assms(1) by (simp add: s1')
    then show ?thesis using * by (simp only: if_False) blast
  next
    case w: False
    then have s1': "s1 = set_tmr i (arm now (ucast ?d) (tmr s i\<lparr>wrap_flag := 0\<rparr>)) s" using s1 by simp
    have "matches_at s1 i (now + 10 * ucast ?d)"
      unfolding s1' using assms(1,2) False b by (intro one_shot_32_armed) simp_all
    moreover have "wrap_flag (tmr s1 i) = 0" using assms(1) by (simp add: s1')
    ultimately show ?thesis by auto
  qed
qed

text \<open>A 32 bit counter 100 ticks before it wraps, and a comparator 150 ticks ahead.\<close>

definition hpet_near_wrap :: hpet_state where
  "hpet_near_wrap = (hpet_zero 3 0)\<lparr>hpet_config := 1, hpet_offset := 10 * 0xffffff9c,
     hpet_timers := replicate 32 (hpet_timer_zero\<lparr>tn_config := 0x104, tn_cmp := 50, tn_qemu_timer := Timer None\<rparr>)\<rparr>"

theorem hpet_one_shot_matches_witness:
  "\<exists>e s2 out e2. tn_qemu_timer (tmr (hpet_set_timer 0 0 hpet_near_wrap) 0) = Timer (Some e)
    \<and> hpet_timer 0 e (hpet_set_timer 0 0 hpet_near_wrap) = Some (s2, out) \<and> matches_at s2 0 e2"
proof -
  have h: "0 < length (hpet_timers hpet_near_wrap)" "tn_qemu_timer (tmr hpet_near_wrap 0) \<noteq> NoTimer"
    "\<not> timer_is_periodic (tmr hpet_near_wrap 0)" by code_simp+
  have d: "tn_distance (tmr hpet_near_wrap 0) (hpet_get_ticks 0 hpet_near_wrap) = 150"
    "hpet_offset hpet_near_wrap = 42949671960" "wrap_flag (tmr (hpet_set_timer 0 0 hpet_near_wrap) 0) = 1"
    by code_simp+
  show ?thesis using hpet_one_shot_matches [OF h, of 0] by (simp add: d) blast
qed

section \<open>The main counter\<close>

definition read_counter :: "u64 \<Rightarrow> hpet_state \<Rightarrow> u64" where
  "read_counter now s = push_bit 32 (ucast (hpet_ram_readl now (HPET_COUNTER + 4) s)) OR ucast (hpet_ram_readl now HPET_COUNTER s)"

lemma halves_together: "push_bit 32 (ucast (ucast (drop_bit 32 (x::u64)) :: u32)) OR ucast (ucast x :: u32) = x"
  by (rule bit_word_eqI) (auto simp: bit_simps)

lemma read_counter_eq: "read_counter now s = (if hpet_enabled s then hpet_get_ticks now s else hpet_counter s)"
  using halves_together by (simp add: read_counter_def hpet_ram_readl_def)

lemma for_timers_keeps:
  assumes "\<And>i s. g (fst (f i s)) = g s"
  shows "g (fst (for_timers f s)) = g s"
proof -
  have "g (fst (fold (\<lambda>i (s, out). let (s, out') = f i s in (s, out @ out')) is r)) = g (fst r)" for "is" r
    by (induction "is" arbitrary: r) (simp_all add: split_beta Let_def assms)
  then show ?thesis unfolding for_timers_def by (metis fst_conv)
qed

lemma set_timer_keeps [simp]:
  "hpet_offset (hpet_set_timer i now s) = hpet_offset s" "hpet_config (hpet_set_timer i now s) = hpet_config s"
  "hpet_counter (hpet_set_timer i now s) = hpet_counter s"
  "hpet_offset (fst (hpet_del_timer i s)) = hpet_offset s" "hpet_config (fst (hpet_del_timer i s)) = hpet_config s"
  "hpet_counter (fst (hpet_del_timer i s)) = hpet_counter s"
  by (simp_all add: hpet_set_timer_def hpet_del_timer_def)

lemma cfg_old_bit: "(ucast (ucast (x::u64) :: u32) :: u64) AND HPET_CFG_ENABLE = x AND HPET_CFG_ENABLE"
proof -
  have "(ucast (ucast x :: u32) :: u64) AND mask 1 = x AND mask 1"
    by (rule bit_word_eqI) (auto simp: bit_simps simp del: mask_Suc_0)
  then show ?thesis by simp
qed

lemma cfg_new_bit: "((x AND 0xffffffff00000000) OR hpet_fixup_reg n old HPET_CFG_WRITE_MASK) AND HPET_CFG_ENABLE = n AND (HPET_CFG_ENABLE :: u64)"
proof -
  have "bit (0x3 :: u64) 0" "\<not> bit (0xffffffff00000000 :: u64) 0" by simp_all
  then have "bit ((x AND 0xffffffff00000000) OR hpet_fixup_reg n old HPET_CFG_WRITE_MASK) 0 = bit n 0"
    by (simp only: hpet_fixup_reg_def bit_or_iff bit_and_iff bit_not_iff) simp
  then show ?thesis by (simp only: and_one_eq bit_0 mod_2_eq_odd)
qed

text \<open>Starting and stopping the counter through the configuration register.\<close>

lemma cfg_write_enable:
  fixes now :: u64
  assumes "\<not> hpet_enabled s" "v AND 1 \<noteq> 0"
  defines "s1 \<equiv> fst (hpet_ram_writel now HPET_CFG v s)"
  shows "hpet_enabled s1" "hpet_offset s1 = 10 * hpet_counter s - now"
proof -
  let ?o = "ucast (ucast (hpet_config s) :: u32) :: u64" and ?n = "ucast v :: u64"
  have n: "?n AND HPET_CFG_ENABLE \<noteq> 0"
  proof -
    have "bit v 0" using assms(2) and_exp_eq_0 [of v 0] by simp
    then have "bit ?n 0" by (simp add: bit_simps)
    then show ?thesis using and_exp_eq_0 [of ?n 0] by simp
  qed
  have a: "activating_bit ?o ?n HPET_CFG_ENABLE"
    using assms(1) n by (simp add: activating_bit_def cfg_old_bit hpet_enabled_def)
  define u where "u = s\<lparr>hpet_config := (hpet_config s AND 0xffffffff00000000) OR hpet_fixup_reg ?n ?o HPET_CFG_WRITE_MASK,
    hpet_offset := 10 * hpet_counter s - now\<rparr>"
  let ?f = "\<lambda>i s. (if tn_cmp (tmr s i) \<noteq> NOT 0 then hpet_set_timer i now s else s, [] :: hpet_call list)"
  have "s1 = fst (for_timers ?f u)"
    unfolding s1_def u_def using a
    by (simp add: hpet_ram_writel_def hpet_ram_readl_def hpet_cfg_write_def Let_def split_beta ticks_to_ns_eq)
  then have "hpet_config s1 = hpet_config u" "hpet_offset s1 = hpet_offset u"
    using for_timers_keeps [of hpet_config ?f u] for_timers_keeps [of hpet_offset ?f u] by simp_all
  then show "hpet_enabled s1" "hpet_offset s1 = 10 * hpet_counter s - now"
    using n cfg_new_bit [of "hpet_config s" ?n ?o] by (simp_all add: hpet_enabled_def u_def)
qed

lemma cfg_write_disable:
  fixes now :: u64
  assumes "hpet_enabled s" "v AND 1 = 0"
  defines "s1 \<equiv> fst (hpet_ram_writel now HPET_CFG v s)"
  shows "\<not> hpet_enabled s1" "hpet_counter s1 = hpet_get_ticks now s"
proof -
  let ?o = "ucast (ucast (hpet_config s) :: u32) :: u64" and ?n = "ucast v :: u64"
  have n: "?n AND HPET_CFG_ENABLE = 0"
  proof -
    have "\<not> bit v 0" using assms(2) and_exp_eq_0 [of v 0] by simp
    then have "\<not> bit ?n 0" by (simp add: bit_simps)
    then show ?thesis using and_exp_eq_0 [of ?n 0] by simp
  qed
  have a: "\<not> activating_bit ?o ?n HPET_CFG_ENABLE" "deactivating_bit ?o ?n HPET_CFG_ENABLE"
    using assms(1) n by (simp_all add: activating_bit_def deactivating_bit_def cfg_old_bit hpet_enabled_def)
  define u where "u = s\<lparr>hpet_config := (hpet_config s AND 0xffffffff00000000) OR hpet_fixup_reg ?n ?o HPET_CFG_WRITE_MASK,
    hpet_counter := hpet_get_ticks now s\<rparr>"
  have "s1 = fst (for_timers hpet_del_timer u)"
    unfolding s1_def u_def using a
    by (simp add: hpet_ram_writel_def hpet_ram_readl_def hpet_cfg_write_def Let_def split_beta hpet_get_ticks_def)
  then have "hpet_config s1 = hpet_config u" "hpet_counter s1 = hpet_counter u"
    using for_timers_keeps [of hpet_config hpet_del_timer u] for_timers_keeps [of hpet_counter hpet_del_timer u] by simp_all
  then show "\<not> hpet_enabled s1" "hpet_counter s1 = hpet_get_ticks now s"
    using n cfg_new_bit [of "hpet_config s" ?n ?o] by (simp_all add: hpet_enabled_def u_def)
qed

text \<open>
  The main counter runs with the clock, stops and goes on. From the write that enables the
  device the two halves of the counter register read the preset value plus one for every ten
  nanoseconds passed; a write that disables it freezes the value, whenever it is read.
\<close>

theorem hpet_counter_follows_clock:
  fixes t now :: u64
  assumes "\<not> hpet_enabled s" "v AND 1 \<noteq> 0" "10 * unat (hpet_counter s) + unat (t - now) < 2 ^ 64"
  defines "s1 \<equiv> fst (hpet_ram_writel now HPET_CFG v s)"
  shows "read_counter t s1 = hpet_counter s + (t - now) div 10
    \<and> (w AND 1 = 0 \<longrightarrow> read_counter later (fst (hpet_ram_writel t HPET_CFG w s1)) = hpet_counter s + (t - now) div 10)"
proof -
  note on = cfg_write_enable [OF assms(1,2), of now, folded s1_def]
  have o: "t + hpet_offset s1 = (t - now) + 10 * hpet_counter s + 0" by (simp add: on)
  have "unat (t - now) + 10 * unat (hpet_counter s) < 2 ^ 64" using assms(3) by simp
  then have ticks: "hpet_get_ticks t s1 = hpet_counter s + (t - now) div 10"
    unfolding hpet_get_ticks_def o using ticks_advance(1) [of "t - now" 0 "hpet_counter s"] by (simp add: ns_to_ticks_eq)
  moreover have "read_counter later (fst (hpet_ram_writel t HPET_CFG w s1)) = hpet_get_ticks t s1" if w: "w AND 1 = 0"
    using cfg_write_disable [OF on(1) w, of t] by (simp add: read_counter_eq)
  ultimately show ?thesis by (simp add: read_counter_eq on(1))
qed

theorem hpet_counter_follows_clock_witness:
  "read_counter 2000 (fst (hpet_ram_writel 1000 0x10 1 (hpet_zero 3 0))) = 100"
  using hpet_counter_follows_clock [of "hpet_zero 3 0" 1 2000 1000]
  by (simp add: hpet_enabled_def hpet_zero_def)

section \<open>Saving and restoring\<close>

lemma ticks_of_ticks: "ns_to_ticks (10 * ns_to_ticks x) = ns_to_ticks x"
proof -
  have "unat (10 * (x div 10)) = 10 * (unat x div 10)"
    using unsigned_less [of x, where ?'a = nat]
    by (simp only: unat_word_ariths(2) unat_div) (simp add: order.strict_trans1 [OF times_div_less_eq_dividend])
  then have "unat (10 * (x div 10) div 10) = unat (x div 10)" by (simp only: unat_div) simp
  then show ?thesis by (simp only: ns_to_ticks_eq word_unat_eq_iff)
qed

text \<open>
  C38: Saving and restoring keeps a running counter and spoils a halted one. A snapshot taken at one
  time and restored at another continues with the same value if the counter runs. If it is
  halted, its value is replaced by what it would read if it ran, which is the value of the clock
  in ticks after a reset; a device that was never enabled shows 100 in place of 0 when it is saved
  after 1000 nanoseconds.
\<close>

theorem hpet_save_restore_counter:
  "(let s' = fst (hpet_post_load now' c (hpet_pre_save now s))
    in read_counter now' s' = hpet_get_ticks now s \<and> (hpet_enabled s \<longrightarrow> read_counter now' s' = read_counter now s))
   \<and> read_counter 1000 hpet_boot = 0 \<and> read_counter now' (hpet_pre_save 1000 hpet_boot) = 100"
proof -
  let ?s = "hpet_pre_save now s"
  let ?s' = "fst (hpet_post_load now' c ?s)"
  have k: "hpet_config ?s' = hpet_config s" "hpet_counter ?s' = hpet_get_ticks now s"
    "hpet_offset ?s' = 10 * hpet_get_ticks now s - now'"
    by (simp_all add: hpet_post_load_def Let_def hpet_pre_save_def ticks_to_ns_eq)
  have "hpet_get_ticks now' ?s' = ns_to_ticks (10 * hpet_get_ticks now s)" by (simp add: hpet_get_ticks_def k(3))
  then have "hpet_get_ticks now' ?s' = hpet_get_ticks now s" by (simp add: hpet_get_ticks_def ticks_of_ticks)
  then have "read_counter now' ?s' = hpet_get_ticks now s"
    by (simp add: read_counter_eq k(2))
  moreover have "hpet_offset hpet_boot = 0" by code_simp
  then have "read_counter 1000 hpet_boot = 0" "read_counter now' (hpet_pre_save 1000 hpet_boot) = 100"
    by (simp_all add: read_counter_eq hpet_enabled_def hpet_boot_timer0 hpet_pre_save_def hpet_get_ticks_def ns_to_ticks_eq)
  ultimately show ?thesis by (simp add: read_counter_eq Let_def)
qed

theorem hpet_save_restore_counter_witness:
  "read_counter 70 (fst (hpet_post_load 70 fw_start (hpet_pre_save 1000 (hpet_zero 3 0\<lparr>hpet_config := 1\<rparr>)))) = 100"
  using hpet_save_restore_counter [of 70 fw_start 1000 "hpet_zero 3 0\<lparr>hpet_config := 1\<rparr>"]
  by (simp add: hpet_get_ticks_def ns_to_ticks_eq hpet_zero_def Let_def)

text \<open>
  The guard on the timer number admits one timer more than the device has: with three timers the
  fourth is written, but reset and the enabling of the counter pass it by.
\<close>

lemma hpet_extra_timer:
  "tn_cmp (tmr (fst (hpet_ram_writel now 0x168 7 hpet_boot)) 3) = 7"
  "tn_cmp (tmr hpet_boot 3) = 0"
  "fst (hpet_ram_writel now 0x188 7 hpet_boot) = hpet_boot"
proof -
  have b: "tmr hpet_boot 3 = hpet_timer_zero\<lparr>tn := 3, tn_qemu_timer := Timer None\<rparr>" by code_simp
  show "tn_cmp (tmr hpet_boot 3) = 0" "fst (hpet_ram_writel now 0x188 7 hpet_boot) = hpet_boot"
    by (simp_all add: b hpet_timer_zero_def hpet_ram_writel_def Let_def hpet_boot_timer0)
  show "tn_cmp (tmr (fst (hpet_ram_writel now 0x168 7 hpet_boot)) 3) = 7"
    by (simp add: hpet_ram_writel_def Let_def hpet_boot_timer0 tn_cmp_write_def rearm_enabled_def hpet_enabled_def
        b hpet_timer_zero_def timer_is_periodic_def)
qed

end
