(* ===== verification/Mc146818rtc.thy ===== *)
theory Mc146818rtc
  imports Qemu_Common
begin

text \<open>
  The MC146818 real-time clock (\<open>hw/mc146818rtc.c\<close>): the CMOS bytes behind the index and
  data ports, the calendar in \<open>current_tm\<close>, the periodic, update and alarm interrupts and
  the reinjection of coalesced interrupts (the \<open>TARGET_I386\<close> build). The clock is the argument
  \<open>now\<close>; the answer of \<open>apic_get_irq_delivered\<close>, the \<open>rtc_td_hack\<close> option and the
  host's date are arguments as well. Operations return the new state and the calls on the
  two lines of the chip. Shown are that the calendar advances by exactly one second over the
  Gregorian calendar, that the register file and the calendar convert into each other, that
  the periodic interrupt does not drift, and what the register file guards.
\<close>

section \<open>Definitions\<close>

record tm =
  tm_sec :: int
  tm_min :: int
  tm_hour :: int
  tm_wday :: int
  tm_mday :: int
  tm_mon :: int
  tm_year :: int

record rtc_state =
  cmos_data :: "u8 list"
  cmos_index :: u8
  current_tm :: tm
  base_year :: int
  sqw_irq :: bool
  periodic_timer :: qemu_timer
  next_periodic_time :: u64
  next_second_time :: u64
  irq_reinject_on_ack_count :: u16
  irq_coalesced :: u32
  rtc_period :: u32
  coalesced_timer :: qemu_timer
  second_timer :: qemu_timer
  second_timer2 :: qemu_timer

datatype rtc_out = RtcIrq int | SqwIrq int

definition RTC_REINJECT_ON_ACK_COUNT :: u16 where "RTC_REINJECT_ON_ACK_COUNT = 20"

definition RTC_SECONDS :: nat where "RTC_SECONDS = 0"

definition RTC_SECONDS_ALARM :: nat where "RTC_SECONDS_ALARM = 1"

definition RTC_MINUTES :: nat where "RTC_MINUTES = 2"

definition RTC_MINUTES_ALARM :: nat where "RTC_MINUTES_ALARM = 3"

definition RTC_HOURS :: nat where "RTC_HOURS = 4"

definition RTC_HOURS_ALARM :: nat where "RTC_HOURS_ALARM = 5"

definition RTC_DAY_OF_WEEK :: nat where "RTC_DAY_OF_WEEK = 6"

definition RTC_DAY_OF_MONTH :: nat where "RTC_DAY_OF_MONTH = 7"

definition RTC_MONTH :: nat where "RTC_MONTH = 8"

definition RTC_YEAR :: nat where "RTC_YEAR = 9"

definition RTC_REG_A :: nat where "RTC_REG_A = 10"

definition RTC_REG_B :: nat where "RTC_REG_B = 11"

definition RTC_REG_C :: nat where "RTC_REG_C = 12"

definition RTC_REG_D :: nat where "RTC_REG_D = 13"

lemmas rtc_regs = RTC_SECONDS_def RTC_SECONDS_ALARM_def RTC_MINUTES_def RTC_MINUTES_ALARM_def
  RTC_HOURS_def RTC_HOURS_ALARM_def RTC_DAY_OF_WEEK_def RTC_DAY_OF_MONTH_def RTC_MONTH_def
  RTC_YEAR_def RTC_REG_A_def RTC_REG_B_def RTC_REG_C_def RTC_REG_D_def

definition REG_A_UIP :: "'a::len word" where "REG_A_UIP = 0x80"

definition REG_B_SET :: "'a::len word" where "REG_B_SET = 0x80"

definition REG_B_PIE :: "'a::len word" where "REG_B_PIE = 0x40"

definition REG_B_AIE :: "'a::len word" where "REG_B_AIE = 0x20"

definition REG_B_UIE :: "'a::len word" where "REG_B_UIE = 0x10"

definition REG_B_SQWE :: "'a::len word" where "REG_B_SQWE = 0x08"

definition REG_B_DM :: "'a::len word" where "REG_B_DM = 0x04"

definition REG_B_24H :: "'a::len word" where "REG_B_24H = 0x02"

definition REG_C_UF :: "'a::len word" where "REG_C_UF = 0x10"

definition REG_C_IRQF :: "'a::len word" where "REG_C_IRQF = 0x80"

definition REG_C_PF :: "'a::len word" where "REG_C_PF = 0x40"

definition REG_C_AF :: "'a::len word" where "REG_C_AF = 0x20"

lemmas rtc_bits = REG_A_UIP_def REG_B_SET_def REG_B_PIE_def REG_B_AIE_def REG_B_UIE_def
  REG_B_SQWE_def REG_B_DM_def REG_B_24H_def REG_C_UF_def REG_C_IRQF_def REG_C_PF_def REG_C_AF_def

text \<open>Reading and writing one CMOS byte.\<close>

definition cmos :: "rtc_state \<Rightarrow> nat \<Rightarrow> u8" where
  "cmos s i = cmos_data s ! i"

definition set_cmos :: "nat \<Rightarrow> u8 \<Rightarrow> rtc_state \<Rightarrow> rtc_state" where
  "set_cmos i v s = s\<lparr>cmos_data := (cmos_data s)[i := v]\<rparr>"

definition rtc_coalesced_timer_update :: "u64 \<Rightarrow> rtc_state \<Rightarrow> rtc_state" where
  "rtc_coalesced_timer_update now s =
     (if irq_coalesced s = 0 then s\<lparr>coalesced_timer := qemu_del_timer (coalesced_timer s)\<rparr>
      else
        (let c = min (irq_coalesced s) 7 + 1;
             next_clock = now + muldiv64 (ucast (rtc_period s div c)) get_ticks_per_sec 32768
         in s\<lparr>coalesced_timer := qemu_mod_timer (coalesced_timer s) next_clock\<rparr>))"

definition rtc_coalesced_timer :: "bool \<Rightarrow> u64 \<Rightarrow> rtc_state \<Rightarrow> rtc_state \<times> rtc_out list" where
  "rtc_coalesced_timer delivered now s =
     (if irq_coalesced s \<noteq> 0 then
        (let s = set_cmos RTC_REG_C (cmos s RTC_REG_C OR 0xc0) s;
             s = (if delivered then s\<lparr>irq_coalesced := irq_coalesced s - 1\<rparr> else s)
         in (rtc_coalesced_timer_update now s, [RtcIrq 1]))
      else (rtc_coalesced_timer_update now s, []))"

text \<open>The period in cycles of the 32 kHz clock that a rate code selects.\<close>

definition period_of_code :: "u8 \<Rightarrow> u32" where
  "period_of_code period_code =
     (let period_code = (if period_code \<le> 2 then period_code + 7 else period_code)
      in push_bit (unat (period_code - 1)) 1)"

definition rtc_timer_update :: "u64 \<Rightarrow> rtc_state \<Rightarrow> rtc_state" where
  "rtc_timer_update current_time s =
     (let period_code = cmos s RTC_REG_A AND 0x0f
      in if period_code \<noteq> 0 \<and> (cmos s RTC_REG_B AND REG_B_PIE \<noteq> 0
             \<or> cmos s RTC_REG_B AND REG_B_SQWE \<noteq> 0 \<and> sqw_irq s) then
           (let period = period_of_code period_code;
                s = (if period \<noteq> rtc_period s
                     then s\<lparr>irq_coalesced := irq_coalesced s * rtc_period s div period\<rparr> else s);
                s = s\<lparr>rtc_period := period\<rparr>;
                cur_clock = muldiv64 current_time 32768 get_ticks_per_sec;
                next_irq_clock = (cur_clock AND NOT (ucast (period - 1))) + ucast period;
                s = s\<lparr>next_periodic_time := muldiv64 next_irq_clock get_ticks_per_sec 32768 + 1\<rparr>
            in s\<lparr>periodic_timer := qemu_mod_timer (periodic_timer s) (next_periodic_time s)\<rparr>)
         else s\<lparr>irq_coalesced := 0, periodic_timer := qemu_del_timer (periodic_timer s)\<rparr>)"

definition rtc_periodic_timer :: "bool \<Rightarrow> bool \<Rightarrow> u64 \<Rightarrow> rtc_state \<Rightarrow> rtc_state \<times> rtc_out list" where
  "rtc_periodic_timer rtc_td_hack delivered now s =
     (let s = rtc_timer_update (next_periodic_time s) s;
          (s, out) =
            (if cmos s RTC_REG_B AND REG_B_PIE \<noteq> 0 then
               (let s = set_cmos RTC_REG_C (cmos s RTC_REG_C OR 0xc0) s
                in if rtc_td_hack then
                     (let s = (if irq_reinject_on_ack_count s \<ge> RTC_REINJECT_ON_ACK_COUNT
                               then s\<lparr>irq_reinject_on_ack_count := 0\<rparr> else s);
                          s = (if \<not> delivered
                               then rtc_coalesced_timer_update now (s\<lparr>irq_coalesced := irq_coalesced s + 1\<rparr>)
                               else s)
                      in (s, [RtcIrq 1]))
                   else (s, [RtcIrq 1]))
             else (s, []))
      in (s, if cmos s RTC_REG_B AND REG_B_SQWE \<noteq> 0 \<and> sqw_irq s then out @ [SqwIrq 1] else out))"

definition rtc_to_bcd :: "rtc_state \<Rightarrow> int \<Rightarrow> int" where
  "rtc_to_bcd s a =
     (if cmos s RTC_REG_B AND REG_B_DM \<noteq> 0 then a
      else push_bit 4 (c_div a 10) OR c_mod a 10)"

definition rtc_from_bcd :: "rtc_state \<Rightarrow> int \<Rightarrow> int" where
  "rtc_from_bcd s a =
     (if cmos s RTC_REG_B AND REG_B_DM \<noteq> 0 then a
      else drop_bit 4 a * 10 + (a AND 0x0f))"

text \<open>The monitor event that \<open>rtc_set_time\<close> also sends does not change the clock.\<close>

definition rtc_set_time :: "rtc_state \<Rightarrow> rtc_state" where
  "rtc_set_time s =
     (let bcd = (\<lambda>i. rtc_from_bcd s (uint (cmos s i)));
          hour = rtc_from_bcd s (uint (cmos s RTC_HOURS AND 0x7f));
          hour = (if cmos s RTC_REG_B AND REG_B_24H = 0 \<and> cmos s RTC_HOURS AND 0x80 \<noteq> 0
                  then hour + 12 else hour)
      in s\<lparr>current_tm := \<lparr>tm_sec = bcd RTC_SECONDS, tm_min = bcd RTC_MINUTES, tm_hour = hour,
            tm_wday = bcd RTC_DAY_OF_WEEK - 1, tm_mday = bcd RTC_DAY_OF_MONTH,
            tm_mon = bcd RTC_MONTH - 1, tm_year = bcd RTC_YEAR + base_year s - 1900\<rparr>\<rparr>)"

definition rtc_copy_date :: "rtc_state \<Rightarrow> rtc_state" where
  "rtc_copy_date s =
     (let tm = current_tm s; bcd = (\<lambda>a. word_of_int (rtc_to_bcd s a) :: u8);
          s = set_cmos RTC_SECONDS (bcd (tm_sec tm)) s;
          s = set_cmos RTC_MINUTES (bcd (tm_min tm)) s;
          s = (if cmos s RTC_REG_B AND REG_B_24H \<noteq> 0
               then set_cmos RTC_HOURS (bcd (tm_hour tm)) s
               else
                 (let s = set_cmos RTC_HOURS (bcd (c_mod (tm_hour tm) 12)) s
                  in if tm_hour tm \<ge> 12 then set_cmos RTC_HOURS (cmos s RTC_HOURS OR 0x80) s else s));
          s = set_cmos RTC_DAY_OF_WEEK (bcd (tm_wday tm + 1)) s;
          s = set_cmos RTC_DAY_OF_MONTH (bcd (tm_mday tm)) s;
          s = set_cmos RTC_MONTH (bcd (tm_mon tm + 1)) s;
          year = c_mod (tm_year tm - base_year s) 100;
          year = (if year < 0 then year + 100 else year)
      in set_cmos RTC_YEAR (bcd year) s)"

definition cmos_ioport_write :: "u32 \<Rightarrow> u32 \<Rightarrow> u64 \<Rightarrow> rtc_state \<Rightarrow> rtc_state" where
  "cmos_ioport_write addr data now s =
     (if addr AND 1 = 0 then s\<lparr>cmos_index := ucast (data AND 0x7f)\<rparr>
      else
        (let i = unat (cmos_index s)
         in if i = RTC_SECONDS_ALARM \<or> i = RTC_MINUTES_ALARM \<or> i = RTC_HOURS_ALARM then
              set_cmos i (ucast data) s
            else if i = RTC_SECONDS \<or> i = RTC_MINUTES \<or> i = RTC_HOURS \<or> i = RTC_DAY_OF_WEEK
                 \<or> i = RTC_DAY_OF_MONTH \<or> i = RTC_MONTH \<or> i = RTC_YEAR then
              (let s = set_cmos i (ucast data) s
               in if cmos s RTC_REG_B AND REG_B_SET = 0 then rtc_set_time s else s)
            else if i = RTC_REG_A then
              rtc_timer_update now
                (set_cmos RTC_REG_A (ucast (data AND NOT REG_A_UIP) OR (cmos s RTC_REG_A AND REG_A_UIP)) s)
            else if i = RTC_REG_B then
              (let (s, data) =
                 (if data AND REG_B_SET \<noteq> 0 then
                    (set_cmos RTC_REG_A (cmos s RTC_REG_A AND NOT REG_A_UIP) s, data AND NOT REG_B_UIE)
                  else (if cmos s RTC_REG_B AND REG_B_SET \<noteq> 0 then rtc_set_time s else s, data));
                   s = (if (ucast (cmos s RTC_REG_B) XOR data) AND (REG_B_DM OR REG_B_24H) \<noteq> 0
                           \<and> data AND REG_B_SET = 0
                        then rtc_copy_date (set_cmos RTC_REG_B (ucast data) s)
                        else set_cmos RTC_REG_B (ucast data) s)
               in rtc_timer_update now s)
            else if i = RTC_REG_C \<or> i = RTC_REG_D then s
            else set_cmos i (ucast data) s))"

text \<open>The month is between 0 and 11; other values get 31 days.\<close>

definition get_days_in_month :: "int \<Rightarrow> int \<Rightarrow> int" where
  "get_days_in_month month year =
     (if month < 0 \<or> month \<ge> 12 then 31
      else
        (let d = [31, 28, 31, 30, 31, 30, 31, 31, 30, 31, 30, 31] ! nat month
         in if month = 1 \<and> c_mod year 4 = 0 \<and> (c_mod year 100 \<noteq> 0 \<or> c_mod year 400 = 0)
            then d + 1 else d))"

text \<open>A cast to \<open>unsigned\<close> makes negative values large: \<open>(unsigned)x >= n\<close>.\<close>

definition unsigned_ge :: "int \<Rightarrow> int \<Rightarrow> bool" where
  "unsigned_ge x n \<longleftrightarrow> x < 0 \<or> x \<ge> n"

definition rtc_next_second :: "tm \<Rightarrow> tm" where
  "rtc_next_second tm =
     (let tm = tm\<lparr>tm_sec := tm_sec tm + 1\<rparr>
      in if unsigned_ge (tm_sec tm) 60 then
        (let tm = tm\<lparr>tm_sec := 0, tm_min := tm_min tm + 1\<rparr>
         in if unsigned_ge (tm_min tm) 60 then
           (let tm = tm\<lparr>tm_min := 0, tm_hour := tm_hour tm + 1\<rparr>
            in if unsigned_ge (tm_hour tm) 24 then
              (let tm = tm\<lparr>tm_hour := 0, tm_wday := tm_wday tm + 1\<rparr>;
                   tm = (if unsigned_ge (tm_wday tm) 7 then tm\<lparr>tm_wday := 0\<rparr> else tm);
                   days_in_month = get_days_in_month (tm_mon tm) (tm_year tm + 1900);
                   tm = tm\<lparr>tm_mday := tm_mday tm + 1\<rparr>
               in if tm_mday tm < 1 then tm\<lparr>tm_mday := 1\<rparr>
                  else if tm_mday tm > days_in_month then
                    (let tm = tm\<lparr>tm_mday := 1, tm_mon := tm_mon tm + 1\<rparr>
                     in if tm_mon tm \<ge> 12 then tm\<lparr>tm_mon := 0, tm_year := tm_year tm + 1\<rparr> else tm)
                  else tm)
            else tm)
         else tm)
      else tm)"

definition rtc_update_second :: "rtc_state \<Rightarrow> rtc_state" where
  "rtc_update_second s =
     (if cmos s RTC_REG_A AND 0x70 \<noteq> 0x20 then
        (let s = s\<lparr>next_second_time := next_second_time s + get_ticks_per_sec\<rparr>
         in s\<lparr>second_timer := qemu_mod_timer (second_timer s) (next_second_time s)\<rparr>)
      else
        (let s = s\<lparr>current_tm := rtc_next_second (current_tm s)\<rparr>;
             s = (if cmos s RTC_REG_B AND REG_B_SET = 0
                  then set_cmos RTC_REG_A (cmos s RTC_REG_A OR REG_A_UIP) s else s);
             delay = get_ticks_per_sec div 100;
             delay = (if delay < 1 then 1 else delay)
         in s\<lparr>second_timer2 := qemu_mod_timer (second_timer2 s) (next_second_time s + delay)\<rparr>))"

text \<open>One field of the alarm matches: it is \<open>don't care\<close> or equal to the time.\<close>

definition alarm_matches :: "rtc_state \<Rightarrow> nat \<Rightarrow> int \<Rightarrow> bool" where
  "alarm_matches s i v \<longleftrightarrow> cmos s i AND 0xc0 = 0xc0 \<or> rtc_from_bcd s (uint (cmos s i)) = v"

definition rtc_update_second2 :: "rtc_state \<Rightarrow> rtc_state \<times> rtc_out list" where
  "rtc_update_second2 s =
     (let s = (if cmos s RTC_REG_B AND REG_B_SET = 0 then rtc_copy_date s else s);
          (s, out1) =
            (if cmos s RTC_REG_B AND REG_B_AIE \<noteq> 0
                \<and> alarm_matches s RTC_SECONDS_ALARM (tm_sec (current_tm s))
                \<and> alarm_matches s RTC_MINUTES_ALARM (tm_min (current_tm s))
                \<and> alarm_matches s RTC_HOURS_ALARM (tm_hour (current_tm s))
             then (set_cmos RTC_REG_C (cmos s RTC_REG_C OR 0xa0) s, [RtcIrq 1])
             else (s, []));
          s = set_cmos RTC_REG_C (cmos s RTC_REG_C OR REG_C_UF) s;
          (s, out2) =
            (if cmos s RTC_REG_B AND REG_B_UIE \<noteq> 0
             then (set_cmos RTC_REG_C (cmos s RTC_REG_C OR REG_C_IRQF) s, [RtcIrq 1])
             else (s, []));
          s = set_cmos RTC_REG_A (cmos s RTC_REG_A AND NOT REG_A_UIP) s;
          s = s\<lparr>next_second_time := next_second_time s + get_ticks_per_sec\<rparr>
      in (s\<lparr>second_timer := qemu_mod_timer (second_timer s) (next_second_time s)\<rparr>, out1 @ out2))"

definition cmos_ioport_read :: "u32 \<Rightarrow> bool \<Rightarrow> rtc_state \<Rightarrow> u32 \<times> rtc_state \<times> rtc_out list" where
  "cmos_ioport_read addr delivered s =
     (if addr AND 1 = 0 then (0xff, s, [])
      else
        (let i = unat (cmos_index s); ret = ucast (cmos s i) :: u32
         in if i = RTC_REG_C then
              (if irq_coalesced s \<noteq> 0 \<and> irq_reinject_on_ack_count s < RTC_REINJECT_ON_ACK_COUNT then
                 (let s = s\<lparr>irq_reinject_on_ack_count := irq_reinject_on_ack_count s + 1\<rparr>;
                      s = (if delivered then s\<lparr>irq_coalesced := irq_coalesced s - 1\<rparr> else s)
                  in (ret, s, [RtcIrq 0, RtcIrq 1]))
               else (ret, set_cmos RTC_REG_C 0 s, [RtcIrq 0]))
            else (ret, s, [])))"

definition rtc_set_memory :: "int \<Rightarrow> int \<Rightarrow> rtc_state \<Rightarrow> rtc_state" where
  "rtc_set_memory addr val s =
     (if addr \<ge> 0 \<and> addr \<le> 127 then set_cmos (nat addr) (word_of_int val) s else s)"

definition rtc_set_date :: "tm \<Rightarrow> rtc_state \<Rightarrow> rtc_state" where
  "rtc_set_date tm s = rtc_copy_date (s\<lparr>current_tm := tm\<rparr>)"

text \<open>The host's date, as \<open>qemu_get_timedate\<close> gives it, is the argument \<open>tm\<close>.\<close>

definition rtc_set_date_from_host :: "tm \<Rightarrow> rtc_state \<Rightarrow> rtc_state" where
  "rtc_set_date_from_host tm s =
     (let s = rtc_set_date tm s;
          val = rtc_to_bcd s (c_div (tm_year tm) 100 + 19)
      in rtc_set_memory 0x37 val (rtc_set_memory 0x32 val s))"

definition rtc_post_load :: "bool \<Rightarrow> int \<Rightarrow> u64 \<Rightarrow> rtc_state \<Rightarrow> rtc_state" where
  "rtc_post_load rtc_td_hack version_id now s =
     (if version_id \<ge> 2 \<and> rtc_td_hack then rtc_coalesced_timer_update now s else s)"

definition rtc_notify_clock_reset :: "bool \<Rightarrow> tm \<Rightarrow> u64 \<Rightarrow> u64 \<Rightarrow> rtc_state \<Rightarrow> rtc_state" where
  "rtc_notify_clock_reset rtc_td_hack host_tm clock now s =
     (let s = rtc_set_date_from_host host_tm s;
          s = s\<lparr>next_second_time := now + get_ticks_per_sec * 99 div 100\<rparr>;
          s = s\<lparr>second_timer2 := qemu_mod_timer (second_timer2 s) (next_second_time s)\<rparr>;
          s = rtc_timer_update now s
      in if rtc_td_hack then rtc_coalesced_timer_update clock s else s)"

definition rtc_reset :: "bool \<Rightarrow> rtc_state \<Rightarrow> rtc_state \<times> rtc_out list" where
  "rtc_reset rtc_td_hack s =
     (let s = set_cmos RTC_REG_B (cmos s RTC_REG_B AND NOT (REG_B_PIE OR REG_B_AIE OR REG_B_SQWE)) s;
          s = set_cmos RTC_REG_C (cmos s RTC_REG_C AND NOT (REG_C_UF OR REG_C_IRQF OR REG_C_PF OR REG_C_AF)) s
      in (if rtc_td_hack then s\<lparr>irq_coalesced := 0\<rparr> else s, [RtcIrq 0]))"

definition rtc_initfn :: "bool \<Rightarrow> int \<Rightarrow> tm \<Rightarrow> u64 \<Rightarrow> rtc_state" where
  "rtc_initfn rtc_td_hack year host_tm now =
     (let s = \<lparr>cmos_data = replicate 128 0, cmos_index = 0, current_tm = host_tm, base_year = year,
            sqw_irq = False, periodic_timer = NoTimer, next_periodic_time = 0, next_second_time = 0,
            irq_reinject_on_ack_count = 0, irq_coalesced = 0, rtc_period = 0, coalesced_timer = NoTimer,
            second_timer = NoTimer, second_timer2 = NoTimer\<rparr>;
          s = set_cmos RTC_REG_A 0x26 s; s = set_cmos RTC_REG_B 0x02 s;
          s = set_cmos RTC_REG_C 0x00 s; s = set_cmos RTC_REG_D 0x80 s;
          s = rtc_set_date_from_host host_tm s;
          s = s\<lparr>periodic_timer := Timer None,
                coalesced_timer := (if rtc_td_hack then Timer None else coalesced_timer s),
                second_timer := Timer None, second_timer2 := Timer None,
                next_second_time := now + get_ticks_per_sec * 99 div 100\<rparr>
      in s\<lparr>second_timer2 := qemu_mod_timer (second_timer2 s) (next_second_time s)\<rparr>)"

section \<open>The calendar\<close>

text \<open>
  Days since 1 January of year 0 of the Gregorian calendar, and seconds since then: the
  number that a correct clock advances by one. That day is a Saturday.
\<close>

definition leap :: "int \<Rightarrow> bool" where
  "leap y \<longleftrightarrow> 4 dvd y \<and> (\<not> 100 dvd y \<or> 400 dvd y)"

definition days_before_year :: "int \<Rightarrow> int" where
  "days_before_year y = 365 * y + (y + 3) div 4 - (y + 99) div 100 + (y + 399) div 400"

definition days_before_month :: "int \<Rightarrow> int \<Rightarrow> int" where
  "days_before_month m y = (\<Sum>k\<leftarrow>[0..m - 1]. get_days_in_month k y)"

definition tm_days :: "tm \<Rightarrow> int" where
  "tm_days tm = days_before_year (tm_year tm + 1900)
     + days_before_month (tm_mon tm) (tm_year tm + 1900) + tm_mday tm - 1"

definition tm_seconds :: "tm \<Rightarrow> int" where
  "tm_seconds tm = ((tm_days tm * 24 + tm_hour tm) * 60 + tm_min tm) * 60 + tm_sec tm"

definition tm_valid :: "tm \<Rightarrow> bool" where
  "tm_valid tm \<longleftrightarrow> 0 \<le> tm_sec tm \<and> tm_sec tm < 60 \<and> 0 \<le> tm_min tm \<and> tm_min tm < 60
     \<and> 0 \<le> tm_hour tm \<and> tm_hour tm < 24 \<and> 0 \<le> tm_mon tm \<and> tm_mon tm < 12
     \<and> 1 \<le> tm_mday tm \<and> tm_mday tm \<le> get_days_in_month (tm_mon tm) (tm_year tm + 1900)
     \<and> 0 \<le> tm_year tm + 1900 \<and> tm_wday tm = (tm_days tm + 6) mod 7"

lemma days_before_year_Suc: "days_before_year (y + 1) = days_before_year y + (if leap y then 366 else 365)"
proof -
  have step: "(y + 1 + (k - 1)) div k = (y + (k - 1)) div k + (if k dvd y then 1 else 0)" if "0 < k" for k
  proof -
    have "(y + k) div k = y div k + 1" using that by (subst div_add_self2) simp_all
    moreover have "(y + (k - 1)) div k = y div k + (if k dvd y then 0 else 1)"
    proof (cases "k dvd y")
      case True
      then show ?thesis using that by (auto elim!: dvdE)
    next
      case False
      then have "0 < y mod k" "y mod k < k" using that by (simp_all add: dvd_eq_mod_eq_0 order_le_neq_trans)
      moreover have "y + (k - 1) = k * (y div k + 1) + (y mod k - 1)" by (simp add: algebra_simps)
      ultimately have "(y + (k - 1)) div k = y div k + 1" by (intro int_div_pos_eq [of _ k _ "y mod k - 1"]) simp_all
      then show ?thesis using False by simp
    qed
    ultimately show ?thesis by simp
  qed
  have steps: "(y + 1 + 3) div 4 = (y + 3) div 4 + (if 4 dvd y then 1 else 0)"
    "(y + 1 + 99) div 100 = (y + 99) div 100 + (if 100 dvd y then 1 else 0)"
    "(y + 1 + 399) div 400 = (y + 399) div 400 + (if 400 dvd y then 1 else 0)"
    using step [of 4] step [of 100] step [of 400] by simp_all
  have "100 dvd y \<Longrightarrow> 4 dvd y" "400 dvd y \<Longrightarrow> 100 dvd y"
    by (rule dvd_trans [of 4 100], simp, assumption, rule dvd_trans [of 100 400], simp)
  then show ?thesis unfolding days_before_year_def leap_def steps
    by (cases "4 dvd y"; cases "100 dvd y"; cases "400 dvd y") simp_all
qed

lemma get_days_leap:
  "0 \<le> y \<Longrightarrow> get_days_in_month k y = (if k < 0 \<or> 12 \<le> k then 31
     else [31, if leap y then 29 else 28, 31, 30, 31, 30, 31, 31, 30, 31, 30, 31] ! nat k)"
proof -
  assume "0 \<le> y"
  then have "(c_mod y 4 = 0 \<and> (c_mod y 100 \<noteq> 0 \<or> c_mod y 400 = 0)) = leap y"
    by (simp add: leap_def dvd_eq_mod_eq_0)
  moreover have "k < 0 \<or> 12 \<le> k \<or> k \<in> {0, 1, 2, 3, 4, 5, 6, 7, 8, 9, 10, 11}" by simp arith
  ultimately show ?thesis by (auto simp: get_days_in_month_def Let_def)
qed

lemma days_before_month_Suc:
  "0 \<le> m \<Longrightarrow> days_before_month (m + 1) y = days_before_month m y + get_days_in_month m y"
  by (simp add: days_before_month_def upto_rec2)

lemma days_of_year: "0 \<le> y \<Longrightarrow> days_before_month 12 y = (if leap y then 366 else 365)"
  by (simp add: days_before_month_def upto.simps get_days_leap)

lemma days_in_month_pos: "0 \<le> y \<Longrightarrow> 28 \<le> get_days_in_month k y \<and> get_days_in_month k y \<le> 31"
proof -
  assume "0 \<le> y"
  moreover have "k < 0 \<or> 12 \<le> k \<or> k \<in> {0, 1, 2, 3, 4, 5, 6, 7, 8, 9, 10, 11}" by simp arith
  ultimately show ?thesis by (auto simp: get_days_leap)
qed

text \<open>Midnight: the next day of the calendar.\<close>

definition next_day :: "tm \<Rightarrow> tm" where
  "next_day tm =
     (let tm = tm\<lparr>tm_wday := if tm_wday tm = 6 then 0 else tm_wday tm + 1\<rparr>
      in if tm_mday tm < get_days_in_month (tm_mon tm) (tm_year tm + 1900) then tm\<lparr>tm_mday := tm_mday tm + 1\<rparr>
         else if tm_mon tm < 11 then tm\<lparr>tm_mday := 1, tm_mon := tm_mon tm + 1\<rparr>
         else tm\<lparr>tm_mday := 1, tm_mon := 0, tm_year := tm_year tm + 1\<rparr>)"

lemma rtc_next_second_cases:
  assumes "tm_valid tm"
  shows "rtc_next_second tm =
    (if tm_sec tm < 59 then tm\<lparr>tm_sec := tm_sec tm + 1\<rparr>
     else if tm_min tm < 59 then tm\<lparr>tm_sec := 0, tm_min := tm_min tm + 1\<rparr>
     else if tm_hour tm < 23 then tm\<lparr>tm_sec := 0, tm_min := 0, tm_hour := tm_hour tm + 1\<rparr>
     else next_day (tm\<lparr>tm_sec := 0, tm_min := 0, tm_hour := 0\<rparr>))"
proof -
  have v: "0 \<le> tm_sec tm" "0 \<le> tm_min tm" "0 \<le> tm_hour tm" "0 \<le> tm_wday tm" "tm_wday tm < 7"
    "1 \<le> tm_mday tm" "tm_mon tm < 12"
    and top: "tm_sec tm < 59 \<or> tm_sec tm = 59" "tm_min tm < 59 \<or> tm_min tm = 59"
    "tm_hour tm < 23 \<or> tm_hour tm = 23"
    using assms by (auto simp: tm_valid_def)
  show ?thesis
  proof (cases "tm_sec tm < 59 \<or> tm_min tm < 59 \<or> tm_hour tm < 23")
    case True
    then show ?thesis using v top by (auto simp: rtc_next_second_def unsigned_ge_def)
  next
    case False
    then have "tm_sec tm = 59" "tm_min tm = 59" "tm_hour tm = 23" using top by simp_all
    moreover have "(tm_mon tm + 1 \<ge> 12) = (\<not> tm_mon tm < 11)" "(tm_wday tm + 1 \<ge> 7) = (tm_wday tm = 6)"
      using v by auto
    ultimately show ?thesis using v
      by (simp add: rtc_next_second_def unsigned_ge_def next_day_def Let_def)
  qed
qed

lemma next_day_cases:
  assumes "tm_valid tm"
  obtains (day) "tm_mday tm < get_days_in_month (tm_mon tm) (tm_year tm + 1900)"
      "next_day tm = tm\<lparr>tm_wday := (tm_wday tm + 1) mod 7, tm_mday := tm_mday tm + 1\<rparr>"
  | (month) "tm_mday tm = get_days_in_month (tm_mon tm) (tm_year tm + 1900)" "tm_mon tm < 11"
      "next_day tm = tm\<lparr>tm_wday := (tm_wday tm + 1) mod 7, tm_mday := 1, tm_mon := tm_mon tm + 1\<rparr>"
  | (year) "tm_mday tm = get_days_in_month (tm_mon tm) (tm_year tm + 1900)" "tm_mon tm = 11"
      "next_day tm = tm\<lparr>tm_wday := (tm_wday tm + 1) mod 7, tm_mday := 1, tm_mon := 0, tm_year := tm_year tm + 1\<rparr>"
proof -
  have "0 \<le> tm_wday tm" "tm_wday tm < 7" using assms by (simp_all add: tm_valid_def)
  then have w: "(if tm_wday tm = 6 then 0 else tm_wday tm + 1) = (tm_wday tm + 1) mod 7" by simp
  have "tm_mday tm \<le> get_days_in_month (tm_mon tm) (tm_year tm + 1900)" "tm_mon tm < 12"
    using assms by (simp_all add: tm_valid_def)
  then consider "tm_mday tm < get_days_in_month (tm_mon tm) (tm_year tm + 1900)"
    | "tm_mday tm = get_days_in_month (tm_mon tm) (tm_year tm + 1900)" "tm_mon tm < 11"
    | "tm_mday tm = get_days_in_month (tm_mon tm) (tm_year tm + 1900)" "tm_mon tm = 11"
    by linarith
  then show thesis using that by cases (simp_all add: next_day_def w)
qed

lemma next_day_days:
  assumes "tm_valid tm"
  shows "tm_days (next_day tm) = tm_days tm + 1"
proof -
  define y where "y = tm_year tm + 1900"
  have v: "0 \<le> y" "0 \<le> tm_mon tm" using assms by (simp_all add: tm_valid_def y_def)
  have m: "days_before_month (tm_mon tm + 1) y = days_before_month (tm_mon tm) y + get_days_in_month (tm_mon tm) y"
    using v(2) by (rule days_before_month_Suc)
  have z: "days_before_month 0 x = 0" for x by (simp add: days_before_month_def)
  from assms show ?thesis
  proof (cases rule: next_day_cases)
    case day
    then show ?thesis by (simp add: tm_days_def)
  next
    case month
    then show ?thesis using m by (simp add: tm_days_def y_def)
  next
    case year
    then show ?thesis using m z days_of_year [OF v(1)] days_before_year_Suc [of y]
      by (simp add: tm_days_def y_def add.commute)
  qed
qed

lemma next_day_valid:
  assumes "tm_valid tm"
  shows "tm_valid (next_day tm)"
proof -
  have "tm_wday (next_day tm) = (tm_wday tm + 1) mod 7" using assms by (cases rule: next_day_cases) simp_all
  also have "\<dots> = (tm_days (next_day tm) + 6) mod 7"
    unfolding next_day_days [OF assms] using assms by (simp add: tm_valid_def mod_simps)
  finally have d: "tm_wday (next_day tm) = (tm_days (next_day tm) + 6) mod 7" .
  have y: "0 \<le> tm_year tm + 1900" using assms by (simp add: tm_valid_def)
  from assms show ?thesis
  proof (cases rule: next_day_cases)
    case day
    then show ?thesis using assms d by (simp add: tm_valid_def)
  next
    case month
    then show ?thesis using assms d days_in_month_pos [OF y, of "tm_mon tm + 1"] by (simp add: tm_valid_def)
  next
    case year
    then show ?thesis using assms d days_in_month_pos [of "tm_year tm + 1 + 1900" 0] by (simp add: tm_valid_def)
  qed
qed

lemma rtc_next_second_step:
  assumes "tm_valid tm"
  shows "tm_valid (rtc_next_second tm)" "tm_seconds (rtc_next_second tm) = tm_seconds tm + 1"
proof -
  have mid: "tm_valid (tm\<lparr>tm_sec := 0, tm_min := 0, tm_hour := 0\<rparr>)"
    using assms by (simp add: tm_valid_def tm_days_def)
  have fields: "tm_sec (next_day t) = tm_sec t" "tm_min (next_day t) = tm_min t" "tm_hour (next_day t) = tm_hour t" for t
    by (simp_all add: next_day_def Let_def)
  show "tm_valid (rtc_next_second tm)"
    using assms next_day_valid [OF mid]
    by (simp add: rtc_next_second_cases) (simp add: tm_valid_def tm_days_def)
  have "tm_days (tm\<lparr>tm_sec := 0, tm_min := 0, tm_hour := 0\<rparr>) = tm_days tm" by (simp add: tm_days_def)
  then show "tm_seconds (rtc_next_second tm) = tm_seconds tm + 1"
    using assms next_day_days [OF mid]
    by (auto simp: rtc_next_second_cases tm_seconds_def fields tm_valid_def tm_days_def)
qed

lemma rtc_next_second_iter:
  assumes "tm_valid tm"
  shows "tm_valid ((rtc_next_second ^^ n) tm) \<and> tm_seconds ((rtc_next_second ^^ n) tm) = tm_seconds tm + int n"
  by (induction n) (simp_all add: assms rtc_next_second_step)

text \<open>
  C10: The clock keeps the Gregorian calendar. From a valid date, \<open>n\<close> updates give a valid
  date, with the right day of the week, exactly \<open>n\<close> seconds later.
\<close>

theorem rtc_keeps_time:
  assumes "tm_valid tm"
  shows "tm_valid ((rtc_next_second ^^ n) tm)
    \<and> tm_seconds ((rtc_next_second ^^ n) tm) = tm_seconds tm + int n"
  using assms by (rule rtc_next_second_iter)

theorem rtc_keeps_time_witness:
  "tm_valid (rtc_next_second \<lparr>tm_sec = 59, tm_min = 59, tm_hour = 23, tm_wday = 6, tm_mday = 31,
      tm_mon = 11, tm_year = 111\<rparr>)"
proof -
  have "tm_valid \<lparr>tm_sec = 59, tm_min = 59, tm_hour = 23, tm_wday = 6, tm_mday = 31,
      tm_mon = 11, tm_year = 111\<rparr>"
    by (simp add: tm_valid_def tm_days_def days_before_year_def days_before_month_def upto.simps
        get_days_in_month_def)
  from rtc_keeps_time [OF this, of 1] show ?thesis by simp
qed
section \<open>Register file and calendar\<close>

lemma cmos_set_cmos [simp]:
  "i < length (cmos_data s) \<Longrightarrow> cmos (set_cmos i v s) i = v"
  "i \<noteq> j \<Longrightarrow> cmos (set_cmos i v s) j = cmos s j"
  "length (cmos_data (set_cmos i v s)) = length (cmos_data s)"
  by (simp_all add: cmos_def set_cmos_def)

lemma set_cmos_fields [simp]:
  "current_tm (set_cmos i v s) = current_tm s" "base_year (set_cmos i v s) = base_year s"
  "cmos_index (set_cmos i v s) = cmos_index s" "irq_coalesced (set_cmos i v s) = irq_coalesced s"
  "rtc_period (set_cmos i v s) = rtc_period s" "sqw_irq (set_cmos i v s) = sqw_irq s"
  "next_second_time (set_cmos i v s) = next_second_time s"
  "next_periodic_time (set_cmos i v s) = next_periodic_time s"
  "periodic_timer (set_cmos i v s) = periodic_timer s" "second_timer (set_cmos i v s) = second_timer s"
  "second_timer2 (set_cmos i v s) = second_timer2 s" "coalesced_timer (set_cmos i v s) = coalesced_timer s"
  "irq_reinject_on_ack_count (set_cmos i v s) = irq_reinject_on_ack_count s"
  by (simp_all add: set_cmos_def)

text \<open>Field updates keep the CMOS bytes.\<close>

lemma cmos_cong: "cmos_data t = cmos_data s \<Longrightarrow> cmos t = cmos s"
  by (rule ext) (simp add: cmos_def)

lemma bcd_roundtrip:
  assumes "0 \<le> a" "a < 100"
  shows "rtc_from_bcd s (uint (word_of_int (rtc_to_bcd s a) :: u8)) = a"
proof -
  have "a \<in> set [0..99]" using assms by simp
  moreover have "list_all (\<lambda>a. let x = push_bit 4 (a div 10) OR a mod 10
      in drop_bit 4 (uint (word_of_int x :: u8)) * 10 + (uint (word_of_int x :: u8) AND 15) = (a::int)) [0..99]"
    by code_simp
  ultimately show ?thesis using assms
    by (auto simp: list_all_iff Let_def rtc_to_bcd_def rtc_from_bcd_def uint_word_of_int)
qed

text \<open>The byte that \<open>rtc_copy_date\<close> leaves in the hours register, and how it reads back.\<close>

definition hours_byte :: "rtc_state \<Rightarrow> int \<Rightarrow> u8" where
  "hours_byte s h =
     (if cmos s RTC_REG_B AND REG_B_24H \<noteq> 0 then word_of_int (rtc_to_bcd s h)
      else if 12 \<le> h then word_of_int (rtc_to_bcd s (c_mod h 12)) OR 0x80
      else word_of_int (rtc_to_bcd s (c_mod h 12)))"

definition hours_value :: "rtc_state \<Rightarrow> u8 \<Rightarrow> int" where
  "hours_value s b =
     (if cmos s RTC_REG_B AND REG_B_24H = 0 \<and> b AND 0x80 \<noteq> 0
      then rtc_from_bcd s (uint (b AND 0x7f)) + 12 else rtc_from_bcd s (uint (b AND 0x7f)))"

lemma hours_roundtrip:
  assumes "0 \<le> h" "h < 24"
  shows "hours_value s (hours_byte s h) = h"
proof -
  have "h \<in> {0, 1, 2, 3, 4, 5, 6, 7, 8, 9, 10, 11, 12, 13, 14, 15, 16, 17, 18, 19, 20, 21, 22, 23}"
    using assms by simp arith
  then show ?thesis
    by (cases "cmos s RTC_REG_B AND REG_B_24H = 0"; cases "cmos s RTC_REG_B AND REG_B_DM = 0")
      (elim insertE emptyE; simp add: hours_value_def hours_byte_def rtc_to_bcd_def rtc_from_bcd_def)+
qed

lemma c_mod_wrap: "(if c_mod y 100 < 0 then c_mod y 100 + 100 else c_mod y 100) = y mod 100"
proof (cases "y < 0")
  case True
  then have "c_mod y 100 = - ((- y) mod 100)"
    by (simp add: c_mod_def c_div_def minus_div_mult_eq_mod [symmetric])
  moreover have "y mod 100 = (if (- y) mod 100 = 0 then 0 else 100 - (- y) mod 100)"
    using zmod_zminus1_eq_if [of "- y" 100] by simp
  ultimately show ?thesis using pos_mod_sign [of 100 "- y"] by (simp add: order_less_le)
qed simp

lemma rtc_copy_date_regs:
  assumes "length (cmos_data s) = 128"
  defines "t \<equiv> rtc_copy_date s" and "tm \<equiv> current_tm s"
  shows "cmos t RTC_SECONDS = word_of_int (rtc_to_bcd s (tm_sec tm))"
    "cmos t RTC_MINUTES = word_of_int (rtc_to_bcd s (tm_min tm))"
    "cmos t RTC_HOURS = hours_byte s (tm_hour tm)"
    "cmos t RTC_DAY_OF_WEEK = word_of_int (rtc_to_bcd s (tm_wday tm + 1))"
    "cmos t RTC_DAY_OF_MONTH = word_of_int (rtc_to_bcd s (tm_mday tm))"
    "cmos t RTC_MONTH = word_of_int (rtc_to_bcd s (tm_mon tm + 1))"
    "cmos t RTC_YEAR = word_of_int (rtc_to_bcd s ((tm_year tm - base_year s) mod 100))"
    "i \<notin> {0, 2, 4, 6, 7, 8, 9} \<Longrightarrow> cmos t i = cmos s i"
    "length (cmos_data t) = 128" "current_tm t = tm" "base_year t = base_year s"
  using assms(1)
  by (simp_all add: t_def tm_def rtc_copy_date_def hours_byte_def rtc_regs Let_def c_mod_wrap)

lemma rtc_set_time_tm:
  "current_tm (rtc_set_time s) =
    \<lparr>tm_sec = rtc_from_bcd s (uint (cmos s RTC_SECONDS)), tm_min = rtc_from_bcd s (uint (cmos s RTC_MINUTES)),
     tm_hour = hours_value s (cmos s RTC_HOURS), tm_wday = rtc_from_bcd s (uint (cmos s RTC_DAY_OF_WEEK)) - 1,
     tm_mday = rtc_from_bcd s (uint (cmos s RTC_DAY_OF_MONTH)), tm_mon = rtc_from_bcd s (uint (cmos s RTC_MONTH)) - 1,
     tm_year = rtc_from_bcd s (uint (cmos s RTC_YEAR)) + base_year s - 1900\<rparr>"
  by (simp add: rtc_set_time_def hours_value_def Let_def)

text \<open>
  C20: The date survives the register file. In each of the four formats (BCD or binary, 12 or
  24 hours), loading the calendar from the registers that \<^const>\<open>rtc_copy_date\<close> filled
  gives the date back, for every valid date in the century that starts at the base year.
\<close>

theorem rtc_date_roundtrip:
  assumes "length (cmos_data s) = 128" "tm_valid (current_tm s)"
    "base_year s \<le> tm_year (current_tm s) + 1900" "tm_year (current_tm s) + 1900 < base_year s + 100"
  shows "current_tm (rtc_set_time (rtc_copy_date s)) = current_tm s"
proof -
  define t where "t = rtc_copy_date s"
  note regs = rtc_copy_date_regs [OF assms(1), folded t_def]
  have B: "cmos t RTC_REG_B = cmos s RTC_REG_B" using regs(8) [of RTC_REG_B] by (simp add: RTC_REG_B_def)
  then have fmt: "rtc_from_bcd t = rtc_from_bcd s" "hours_value t = hours_value s"
    by (simp_all add: rtc_from_bcd_def hours_value_def fun_eq_iff)
  have v: "tm_valid (current_tm s)" by (rule assms(2))
  have wd: "0 \<le> tm_wday (current_tm s)" "tm_wday (current_tm s) < 7" using v by (simp_all add: tm_valid_def)
  have md: "tm_mday (current_tm s) \<le> 31"
    using v days_in_month_pos [of "tm_year (current_tm s) + 1900" "tm_mon (current_tm s)"]
    by (simp add: tm_valid_def)
  have "(tm_year (current_tm s) - base_year s) mod 100 = (tm_year (current_tm s) + 1900 - base_year s) mod 100"
    using mod_mult_self1 [of "tm_year (current_tm s) - base_year s" 19 100] by (simp add: algebra_simps)
  also have "\<dots> = tm_year (current_tm s) + 1900 - base_year s" using assms(3,4) by simp
  finally have yr: "(tm_year (current_tm s) - base_year s) mod 100 = tm_year (current_tm s) + 1900 - base_year s" .
  have bcd: "rtc_from_bcd s (uint (word_of_int (rtc_to_bcd s (tm_sec (current_tm s))) :: u8)) = tm_sec (current_tm s)"
    "rtc_from_bcd s (uint (word_of_int (rtc_to_bcd s (tm_min (current_tm s))) :: u8)) = tm_min (current_tm s)"
    "rtc_from_bcd s (uint (word_of_int (rtc_to_bcd s (tm_wday (current_tm s) + 1)) :: u8)) = tm_wday (current_tm s) + 1"
    "rtc_from_bcd s (uint (word_of_int (rtc_to_bcd s (tm_mday (current_tm s))) :: u8)) = tm_mday (current_tm s)"
    "rtc_from_bcd s (uint (word_of_int (rtc_to_bcd s (tm_mon (current_tm s) + 1)) :: u8)) = tm_mon (current_tm s) + 1"
    using v wd md by (intro bcd_roundtrip; simp add: tm_valid_def)+
  have "rtc_from_bcd s (uint (word_of_int (rtc_to_bcd s ((tm_year (current_tm s) - base_year s) mod 100)) :: u8))
      = tm_year (current_tm s) + 1900 - base_year s"
    unfolding yr using assms(3,4) by (intro bcd_roundtrip) simp_all
  then show ?thesis unfolding t_def [symmetric] rtc_set_time_tm fmt regs bcd
    using v by (intro tm.equality) (simp_all add: hours_roundtrip tm_valid_def)
qed

section \<open>The periodic interrupt\<close>

abbreviation rtc_ticks :: "nat \<Rightarrow> nat" where
  "rtc_ticks \<equiv> to_ticks 32768 1000000000"

abbreviation rtc_time :: "nat \<Rightarrow> nat" where
  "rtc_time \<equiv> to_time 32768 1000000000"

interpretation rtc_clock: tick_clock 32768 1000000000
  by unfold_locales simp_all

definition rtc_rate :: "rtc_state \<Rightarrow> nat" where
  "rtc_rate s = unat (period_of_code (cmos s RTC_REG_A AND 0x0f))"

text \<open>The period is a power of two of at most \<open>2^14\<close> cycles.\<close>

lemma period_of_code_exp:
  assumes "c \<noteq> 0" "unat c < 16"
  obtains j where "j < 15" "period_of_code c = 2 ^ j" "unat (period_of_code c) = 2 ^ j"
proof -
  define d where "d = (if c \<le> 2 then c + 7 else c)"
  have "d \<noteq> 0 \<and> unat d < 16"
  proof (cases "c \<le> 2")
    case True
    then have "unat c \<le> 2" by (simp add: word_le_nat_alt)
    then have "unat d = unat c + 7" using True by (simp add: d_def unat_word_ariths(1))
    then show ?thesis using \<open>unat c \<le> 2\<close> by (auto simp: unat_eq_zero [symmetric])
  qed (use assms in \<open>simp add: d_def\<close>)
  then have "unat (d - 1) < 15" using unat_minus_one [of d] by simp arith
  moreover have "period_of_code c = 2 ^ unat (d - 1)" by (simp add: period_of_code_def d_def Let_def push_bit_eq_mult)
  ultimately show thesis using that by (simp add: unat_exp)
qed

lemma and_not_period:
  fixes w :: u64
  assumes "j < 32"
  shows "unat (w AND NOT (ucast ((2 ^ j :: u32) - 1))) = unat w div 2 ^ j * 2 ^ j"
proof -
  have "w AND NOT (ucast ((2 ^ j :: u32) - 1)) = push_bit j (drop_bit j w)"
    unfolding mask_eq_exp_minus_1 [symmetric]
    using assms by (intro bit_word_eqI) (auto simp: bit_simps)
  also have "unat \<dots> = unat w div 2 ^ j * 2 ^ j"
  proof -
    have "unat w div 2 ^ j * 2 ^ j \<le> unat w" by (rule div_times_less_eq_dividend)
    also have "\<dots> < 2 ^ 64" using unsigned_less [of w, where ?'a = nat] by simp
    finally show ?thesis
      by (subst unsigned_push_bit_eq) (simp add: unat_drop_bit push_bit_eq_mult take_bit_eq_mod)
  qed
  finally show ?thesis .
qed

lemma rtc_timer_update_active:
  assumes "cmos s RTC_REG_A AND 0x0f \<noteq> 0" "cmos s RTC_REG_B AND REG_B_PIE \<noteq> 0" "now < 2 ^ 62"
  shows "unat (next_periodic_time (rtc_timer_update now s))
       = rtc_time ((rtc_ticks (unat now) div rtc_rate s + 1) * rtc_rate s) + 1"
    and "periodic_timer (rtc_timer_update now s)
       = qemu_mod_timer (periodic_timer s) (next_periodic_time (rtc_timer_update now s))"
    and "0 < rtc_rate s"
proof -
  have c: "unat (cmos s RTC_REG_A AND 0x0f) < 16" by (simp add: unat_and_numeral)
  obtain j where j: "j < 15" "period_of_code (cmos s RTC_REG_A AND 0x0f) = 2 ^ j"
    "unat (period_of_code (cmos s RTC_REG_A AND 0x0f)) = 2 ^ j"
    using period_of_code_exp [OF assms(1) c] .
  have P: "rtc_rate s = 2 ^ j" by (simp add: rtc_rate_def j(3))
  then show "0 < rtc_rate s" by simp
  define k where "k = rtc_ticks (unat now)"
  have now: "unat now < 4611686018427387904" using assms(3) by (simp add: word_less_nat_alt)
  have kb: "k \<le> unat now" by (simp add: k_def rtc_clock.to_ticks_le)
  have cur: "unat (muldiv64 now 32768 get_ticks_per_sec) = k"
    using kb now by (simp add: muldiv64_exact get_ticks_per_sec_def k_def to_ticks_def)
  have "(2::nat) ^ j \<le> 2 ^ 14" using j(1) by (intro power_increasing) simp_all
  then have j14: "(2::nat) ^ j \<le> 16384" by simp
  define n where "n = (muldiv64 now 32768 get_ticks_per_sec AND NOT (ucast ((2 ^ j :: u32) - 1)))
      + (ucast (2 ^ j :: u32) :: u64)"
  have "unat (ucast (2 ^ j :: u32) :: u64) = 2 ^ j" using j(1) by (simp add: unat_u32_u64 unat_exp)
  moreover have le: "k div 2 ^ j * 2 ^ j \<le> k" by (rule div_times_less_eq_dividend)
  then have "k div 2 ^ j * 2 ^ j + 2 ^ j < 18446744073709551616" using kb now j14 by linarith
  ultimately have n: "unat n = (k div 2 ^ j + 1) * 2 ^ j"
    using and_not_period [of j "muldiv64 now 32768 get_ticks_per_sec"] j(1) cur
    by (simp add: n_def unat_word_ariths(1))
  have "unat n \<le> k + 16384" unfolding n distrib_right using j14 le by linarith
  then have "rtc_time (unat n) \<le> unat now + 500000000"
    using rtc_clock.to_time_bound [of "unat n" "unat now" 16384] by (simp add: k_def)
  then have b: "rtc_time (unat n) < 9223372036854775808" using now by linarith
  then have "unat (muldiv64 n get_ticks_per_sec 32768) = rtc_time (unat n)"
    by (simp add: muldiv64_exact get_ticks_per_sec_def to_time_def)
  moreover have "next_periodic_time (rtc_timer_update now s) = muldiv64 n get_ticks_per_sec 32768 + 1"
    using assms(1,2) by (simp add: rtc_timer_update_def Let_def j(2) n_def)
  ultimately show "unat (next_periodic_time (rtc_timer_update now s))
       = rtc_time ((rtc_ticks (unat now) div rtc_rate s + 1) * rtc_rate s) + 1"
    using b by (simp only: n P k_def unat_word_ariths(1)) simp
  show "periodic_timer (rtc_timer_update now s)
       = qemu_mod_timer (periodic_timer s) (next_periodic_time (rtc_timer_update now s))"
    using assms(1,2) by (simp add: rtc_timer_update_def Let_def)
qed

lemma rtc_timer_update_fields [simp]:
  "cmos_data (rtc_timer_update now s) = cmos_data s" "sqw_irq (rtc_timer_update now s) = sqw_irq s"
  "current_tm (rtc_timer_update now s) = current_tm s" "cmos_index (rtc_timer_update now s) = cmos_index s"
  "base_year (rtc_timer_update now s) = base_year s"
  by (simp_all add: rtc_timer_update_def Let_def)

lemma rtc_coalesced_timer_update_fields [simp]:
  "cmos_data (rtc_coalesced_timer_update now s) = cmos_data s"
  "current_tm (rtc_coalesced_timer_update now s) = current_tm s"
  "cmos_index (rtc_coalesced_timer_update now s) = cmos_index s"
  "next_periodic_time (rtc_coalesced_timer_update now s) = next_periodic_time s"
  "sqw_irq (rtc_coalesced_timer_update now s) = sqw_irq s"
  by (simp_all add: rtc_coalesced_timer_update_def Let_def)

lemma rtc_periodic_timer_state:
  fixes hack delivered :: bool and now :: u64
  assumes "length (cmos_data s) = 128"
  defines "t \<equiv> fst (rtc_periodic_timer hack delivered now s)"
  shows "next_periodic_time t = next_periodic_time (rtc_timer_update (next_periodic_time s) s)"
    "i \<noteq> RTC_REG_C \<Longrightarrow> cmos t i = cmos s i" "length (cmos_data t) = 128"
  using assms
  by (auto simp: rtc_periodic_timer_def Let_def t_def cmos_def set_cmos_def split: prod.splits if_splits)

lemma rtc_periodic_step:
  assumes "length (cmos_data s) = 128" "cmos s RTC_REG_A AND 0x0f \<noteq> 0" "cmos s RTC_REG_B AND REG_B_PIE \<noteq> 0"
    "unat (next_periodic_time s) = rtc_time (m * rtc_rate s) + 1" "next_periodic_time s < 2 ^ 62"
  shows "unat (next_periodic_time (fst (rtc_periodic_timer hack delivered now s))) = rtc_time ((m + 1) * rtc_rate s) + 1"
proof -
  note up = rtc_timer_update_active [OF assms(2,3,5)]
  have "rtc_ticks (unat (next_periodic_time s)) = m * rtc_rate s"
    using rtc_clock.ticks_Suc_time [of "m * rtc_rate s"] by (simp add: assms(4))
  then show ?thesis using up(1,3) by (simp add: rtc_periodic_timer_state(1) [OF assms(1)])
qed

text \<open>
  C18: The periodic interrupt does not drift. Once the timer is programmed at a multiple of
  the period of the 32 kHz clock, the expiries that follow, whatever the delivery of the
  interrupts does, program it at the consecutive multiples, rounded to the nanosecond after
  each, so no error accumulates.
\<close>

theorem rtc_periodic_no_drift:
  assumes "length (cmos_data s) = 128" "cmos s RTC_REG_A AND 0x0f \<noteq> 0" "cmos s RTC_REG_B AND REG_B_PIE \<noteq> 0"
    "unat (next_periodic_time s) = rtc_time (m * rtc_rate s) + 1"
    "rtc_time ((m + length es) * rtc_rate s) < 2 ^ 61"
  shows "unat (next_periodic_time (foldl (\<lambda>s (delivered, now). fst (rtc_periodic_timer hack delivered now s)) s es))
    = rtc_time ((m + length es) * rtc_rate s) + 1"
  using assms
proof (induction es arbitrary: s m)
  case (Cons e es)
  obtain delivered now where e: "e = (delivered, now)" by (cases e)
  let ?t = "fst (rtc_periodic_timer hack delivered now s)"
  have rate: "rtc_rate ?t = rtc_rate s"
    by (simp add: rtc_rate_def rtc_periodic_timer_state [OF Cons.prems(1)] rtc_regs)
  have "rtc_time (m * rtc_rate s) \<le> rtc_time ((m + length (e # es)) * rtc_rate s)"
    by (intro rtc_clock.to_time_mono mult_le_mono1) simp
  then have "next_periodic_time s < 2 ^ 62" using Cons.prems(4,5) by (simp add: word_less_nat_alt)
  from rtc_periodic_step [OF Cons.prems(1-4) this]
  have "unat (next_periodic_time ?t) = rtc_time ((m + 1) * rtc_rate ?t) + 1" by (simp only: rate)
  then have "unat (next_periodic_time (foldl (\<lambda>s (delivered, now). fst (rtc_periodic_timer hack delivered now s)) ?t es))
    = rtc_time ((m + 1 + length es) * rtc_rate ?t) + 1"
    using Cons.prems rate
    by (intro Cons.IH) (simp_all add: rtc_periodic_timer_state [OF Cons.prems(1)] rtc_regs)
  then show ?case by (simp add: e rate)
qed simp

section \<open>The register file as the guest sees it\<close>

lemma rtc_initfn_regs:
  "length (cmos_data (rtc_initfn hack year tm now)) = 128"
  "cmos (rtc_initfn hack year tm now) RTC_REG_A = 0x26" "cmos (rtc_initfn hack year tm now) RTC_REG_B = 0x02"
  "current_tm (rtc_initfn hack year tm now) = tm" "base_year (rtc_initfn hack year tm now) = year"
proof -
  define s where "s = set_cmos 13 0x80 (set_cmos 12 0 (set_cmos 11 0x02 (set_cmos 10 0x26
    \<lparr>cmos_data = replicate 128 0, cmos_index = 0, current_tm = tm, base_year = year,
            sqw_irq = False, periodic_timer = NoTimer, next_periodic_time = 0, next_second_time = 0,
            irq_reinject_on_ack_count = 0, irq_coalesced = 0, rtc_period = 0, coalesced_timer = NoTimer,
            second_timer = NoTimer, second_timer2 = NoTimer\<rparr>)))"
  have s: "length (cmos_data s) = 128" "cmos s 10 = 0x26" "cmos s 11 = 0x02" "current_tm s = tm" "base_year s = year"
    by (simp_all add: s_def)
  note regs = rtc_copy_date_regs [of "s\<lparr>current_tm := tm\<rparr>"]
  have eq: "s\<lparr>current_tm := tm\<rparr> = s" using s(4) by (intro rtc_state.equality) simp_all
  have init: "cmos_data (rtc_initfn hack year tm now) = cmos_data (rtc_set_date_from_host tm s)"
    "current_tm (rtc_initfn hack year tm now) = current_tm (rtc_set_date_from_host tm s)"
    "base_year (rtc_initfn hack year tm now) = base_year (rtc_set_date_from_host tm s)"
    by (simp_all add: rtc_initfn_def Let_def s_def rtc_regs)
  have host: "length (cmos_data (rtc_set_date_from_host tm s)) = 128"
    "cmos (rtc_set_date_from_host tm s) 10 = 0x26" "cmos (rtc_set_date_from_host tm s) 11 = 0x02"
    "current_tm (rtc_set_date_from_host tm s) = tm" "base_year (rtc_set_date_from_host tm s) = year"
    using regs s by (simp_all add: rtc_set_date_from_host_def rtc_set_date_def rtc_set_memory_def Let_def eq)
  show "length (cmos_data (rtc_initfn hack year tm now)) = 128" "cmos (rtc_initfn hack year tm now) RTC_REG_A = 0x26"
    "cmos (rtc_initfn hack year tm now) RTC_REG_B = 0x02"
    "current_tm (rtc_initfn hack year tm now) = tm" "base_year (rtc_initfn hack year tm now) = year"
    using host by (simp_all add: init cmos_def rtc_regs)
qed

abbreviation new_year :: tm where
  "new_year \<equiv> \<lparr>tm_sec = 59, tm_min = 59, tm_hour = 23, tm_wday = 6, tm_mday = 31, tm_mon = 11, tm_year = 111\<rparr>"

lemma new_year_valid: "tm_valid new_year"
  by (simp add: tm_valid_def tm_days_def days_before_year_def days_before_month_def upto.simps
      get_days_in_month_def)

theorem rtc_date_roundtrip_witness:
  "current_tm (rtc_set_time (rtc_copy_date (rtc_initfn False 1980 new_year 0))) = new_year"
  using rtc_date_roundtrip [of "rtc_initfn False 1980 new_year 0"] new_year_valid
  by (simp add: rtc_initfn_regs)

theorem rtc_periodic_no_drift_witness:
  "unat (next_periodic_time (foldl (\<lambda>s (delivered, now). fst (rtc_periodic_timer False delivered now s))
      ((set_cmos RTC_REG_B 0x42 (rtc_initfn False 1980 new_year 0))\<lparr>next_periodic_time := 1\<rparr>)
      [(True, 5), (False, 6), (True, 7)])) = 2929688"
proof -
  let ?s = "(set_cmos RTC_REG_B 0x42 (rtc_initfn False 1980 new_year 0))\<lparr>next_periodic_time := 1\<rparr>"
  have c: "cmos ?s = cmos (set_cmos RTC_REG_B 0x42 (rtc_initfn False 1980 new_year 0))"
    by (rule cmos_cong) simp
  have regs: "length (cmos_data ?s) = 128" "cmos ?s RTC_REG_A = 0x26" "cmos ?s RTC_REG_B = 0x42"
    unfolding c by (simp_all add: rtc_initfn_regs rtc_regs rtc_initfn_regs(2) [unfolded rtc_regs])
  have rate: "rtc_rate ?s = 32" unfolding rtc_rate_def regs by (simp add: period_of_code_def)
  from rtc_periodic_no_drift [of ?s 0 "[(True, 5), (False, 6), (True, 7)]" False] regs
  show ?thesis unfolding rate by (simp add: rtc_bits to_time_def)
qed
text \<open>Which bytes the two conversions touch.\<close>

lemma rtc_set_time_cmos [simp]: "cmos (rtc_set_time s) = cmos s" "cmos_data (rtc_set_time s) = cmos_data s"
  "cmos_index (rtc_set_time s) = cmos_index s"
  by (simp_all add: rtc_set_time_def Let_def cmos_def fun_eq_iff)

lemma rtc_timer_update_cmos [simp]: "cmos (rtc_timer_update now s) = cmos s"
  by (rule cmos_cong) simp

text \<open>
  What a port write cannot change. No write of the guest changes the interrupt flags of
  register C or the validity bit of register D, and the update-in-progress bit of register A
  is unchanged unless the write sets the SET bit of register B, which clears it.
\<close>

theorem rtc_write_guards:
  assumes "length (cmos_data s) = 128"
  shows "cmos (cmos_ioport_write addr data now s) RTC_REG_C = cmos s RTC_REG_C
    \<and> cmos (cmos_ioport_write addr data now s) RTC_REG_D = cmos s RTC_REG_D
    \<and> cmos (cmos_ioport_write addr data now s) RTC_REG_A AND REG_A_UIP
      = (if addr AND 1 \<noteq> 0 \<and> unat (cmos_index s) = RTC_REG_B \<and> data AND REG_B_SET \<noteq> 0 then 0
         else cmos s RTC_REG_A AND REG_A_UIP)"
proof -
  have uip: "(x AND NOT 0x80) AND 0x80 = (0::u8)" "(ucast (y AND NOT (0x80::u32)) OR (x AND 0x80)) AND 0x80 = x AND (0x80::u8)" for x y
    by (rule bit_word_eqI, auto simp: bit_simps)+
  consider "addr AND 1 = 0" | "addr AND 1 \<noteq> 0" "unat (cmos_index s) \<noteq> RTC_REG_B"
    | "addr AND 1 \<noteq> 0" "unat (cmos_index s) = RTC_REG_B" by blast
  then show ?thesis
  proof cases
    case 1
    then show ?thesis by (simp add: cmos_ioport_write_def cmos_def)
  next
    case 2
    then show ?thesis using assms uip
      by (auto simp: cmos_ioport_write_def Let_def rtc_regs REG_A_UIP_def)
  next
    case 3
    then show ?thesis using assms uip
      by (simp add: cmos_ioport_write_def Let_def rtc_regs REG_A_UIP_def rtc_copy_date_regs(8))
  qed
qed

theorem rtc_write_guards_witness:
  "cmos (cmos_ioport_write 0x71 0xff 5 ((rtc_initfn False 1980 new_year 0)\<lparr>cmos_index := 12\<rparr>)) RTC_REG_C
    = cmos ((rtc_initfn False 1980 new_year 0)\<lparr>cmos_index := 12\<rparr>) RTC_REG_C"
  using rtc_write_guards [of "(rtc_initfn False 1980 new_year 0)\<lparr>cmos_index := 12\<rparr>"]
  by (simp add: rtc_initfn_regs)

section \<open>The alarm\<close>

lemma rtc_update_second2_alarm:
  assumes "length (cmos_data s) = 128"
  shows "bit (cmos (fst (rtc_update_second2 s)) RTC_REG_C) 5 \<longleftrightarrow>
    bit (cmos s RTC_REG_C) 5 \<or> (cmos s RTC_REG_B AND REG_B_AIE \<noteq> 0
      \<and> alarm_matches s RTC_SECONDS_ALARM (tm_sec (current_tm s))
      \<and> alarm_matches s RTC_MINUTES_ALARM (tm_min (current_tm s))
      \<and> alarm_matches s RTC_HOURS_ALARM (tm_hour (current_tm s)))"
proof -
  define t where "t = (if cmos s RTC_REG_B AND REG_B_SET = 0 then rtc_copy_date s else s)"
  have t: "length (cmos_data t) = 128" "current_tm t = current_tm s"
    "cmos t 1 = cmos s 1" "cmos t 3 = cmos s 3" "cmos t 5 = cmos s 5" "cmos t 11 = cmos s 11" "cmos t 12 = cmos s 12"
    using assms by (simp_all add: t_def rtc_copy_date_regs)
  have alarm: "alarm_matches t i v = alarm_matches s i v" if "i \<in> {1, 3, 5}" for i v
    using that t by (auto simp: alarm_matches_def rtc_from_bcd_def rtc_regs)
  have bits: "bit (x OR 0xa0) 5" "bit (x OR 0x10) 5 = bit x 5" "bit (x OR 0x80) 5 = bit x 5" for x :: u8
    by (simp_all add: bit_simps)
  have upd: "cmos (x\<lparr>next_second_time := v, second_timer := w\<rparr>) = cmos x" for x v w by (rule cmos_cong) simp
  show ?thesis
    unfolding rtc_update_second2_def Let_def t_def [symmetric]
    using t alarm by (simp add: rtc_regs REG_C_UF_def REG_C_IRQF_def upd bits) blast
qed

text \<open>
  The alarm in 24-hour mode. With the alarm interrupt enabled and the alarm registers
  holding a time of day in the format of register B, an update sets the alarm flag exactly
  when the clock shows that time.
\<close>

theorem rtc_alarm_24h:
  assumes "length (cmos_data s) = 128" "cmos s RTC_REG_B AND REG_B_AIE \<noteq> 0"
    "cmos s RTC_SECONDS_ALARM = word_of_int (rtc_to_bcd s sc)" "0 \<le> sc" "sc < 60"
    "cmos s RTC_MINUTES_ALARM = word_of_int (rtc_to_bcd s mi)" "0 \<le> mi" "mi < 60"
    "cmos s RTC_HOURS_ALARM = word_of_int (rtc_to_bcd s h)" "0 \<le> h" "h < 24"
    "\<not> bit (cmos s RTC_REG_C) 5"
  shows "bit (cmos (fst (rtc_update_second2 s)) RTC_REG_C) 5 \<longleftrightarrow>
    tm_sec (current_tm s) = sc \<and> tm_min (current_tm s) = mi \<and> tm_hour (current_tm s) = h"
proof -
  have care: "(word_of_int (rtc_to_bcd s a) :: u8) AND 0xc0 \<noteq> 0xc0" if "0 \<le> a" "a < 60" for a
  proof -
    have "a \<in> set [0..59]" using that by simp
    moreover have "list_all (\<lambda>a::int. (word_of_int a :: u8) AND 0xc0 \<noteq> 0xc0
        \<and> (word_of_int (push_bit 4 (a div 10) OR a mod 10) :: u8) AND 0xc0 \<noteq> 0xc0) [0..59]"
      by code_simp
    ultimately show ?thesis using that by (auto simp: list_all_iff rtc_to_bcd_def)
  qed
  have "alarm_matches s RTC_SECONDS_ALARM v = (v = sc)" "alarm_matches s RTC_MINUTES_ALARM v = (v = mi)"
    "alarm_matches s RTC_HOURS_ALARM v = (v = h)" for v
    using assms care [of sc] care [of mi] care [of h] bcd_roundtrip [of _ s]
    by (auto simp: alarm_matches_def)
  then show ?thesis using rtc_update_second2_alarm [OF assms(1)] assms(2,12) by simp
qed

text \<open>
  The afternoon alarm in 12-hour mode never fires. The alarm test compares the plain
  conversion of the alarm byte, PM bit included, with the hour of the 24-hour calendar, so
  an alarm set in the format the clock itself uses for an hour from 12 to 23 sets no flag at
  any time of day.
\<close>

theorem rtc_alarm_12h_pm_never:
  assumes "length (cmos_data s) = 128" "tm_valid (current_tm s)" "cmos s RTC_REG_B AND REG_B_24H = 0"
    "12 \<le> h" "h < 24" "cmos s RTC_HOURS_ALARM = hours_byte s h"
  shows "bit (cmos (fst (rtc_update_second2 s)) RTC_REG_C) 5 = bit (cmos s RTC_REG_C) 5"
proof -
  have "h \<in> set [12..23]" unfolding set_upto using assms(4,5) by simp
  moreover have "list_all (\<lambda>h::int. let b = (word_of_int (h mod 12) :: u8) OR 0x80;
      c = (word_of_int (push_bit 4 (h mod 12 div 10) OR h mod 12 mod 10) :: u8) OR 0x80
      in b AND 0xc0 \<noteq> 0xc0 \<and> c AND 0xc0 \<noteq> 0xc0 \<and> 24 \<le> uint b
         \<and> 24 \<le> drop_bit 4 (uint c) * 10 + (uint c AND 15)) [12..23]"
    by code_simp
  ultimately have "\<not> alarm_matches s RTC_HOURS_ALARM v" if "v < 24" for v
    using assms(3-6) that
    by (auto simp: list_all_iff Let_def alarm_matches_def hours_byte_def rtc_to_bcd_def rtc_from_bcd_def)
  then show ?thesis using rtc_update_second2_alarm [OF assms(1)] assms(2) by (simp add: tm_valid_def)
qed

theorem rtc_alarm_24h_witness:
  "bit (cmos (fst (rtc_update_second2
      (set_cmos RTC_HOURS_ALARM 0x23 (set_cmos RTC_MINUTES_ALARM 0x59 (set_cmos RTC_SECONDS_ALARM 0x59
        (set_cmos RTC_REG_C 0 (set_cmos RTC_REG_B 0x22 (rtc_initfn False 1980 new_year 0)))))))) RTC_REG_C) 5"
proof -
  let ?s = "set_cmos RTC_HOURS_ALARM 0x23 (set_cmos RTC_MINUTES_ALARM 0x59 (set_cmos RTC_SECONDS_ALARM 0x59
        (set_cmos RTC_REG_C 0 (set_cmos RTC_REG_B 0x22 (rtc_initfn False 1980 new_year 0)))))"
  have bcd: "rtc_to_bcd ?s 59 = 0x59" "rtc_to_bcd ?s 23 = 0x23"
    by (simp_all add: rtc_to_bcd_def rtc_regs rtc_initfn_regs rtc_bits)
  show ?thesis using rtc_alarm_24h [of ?s 59 59 23]
    by (simp add: bcd, simp add: rtc_regs rtc_initfn_regs rtc_bits)
qed

theorem rtc_alarm_12h_pm_never_witness:
  "\<not> bit (cmos (fst (rtc_update_second2 (set_cmos RTC_HOURS_ALARM 0x91
      (set_cmos RTC_REG_C 0 (set_cmos RTC_REG_B 0x20 (rtc_initfn False 1980 new_year 0)))))) RTC_REG_C) 5"
proof -
  let ?s = "set_cmos RTC_HOURS_ALARM 0x91 (set_cmos RTC_REG_C 0 (set_cmos RTC_REG_B 0x20 (rtc_initfn False 1980 new_year 0)))"
  have "hours_byte ?s 23 = 0x91"
    by (simp add: hours_byte_def rtc_to_bcd_def rtc_regs rtc_initfn_regs rtc_bits)
  then show ?thesis using rtc_alarm_12h_pm_never [of ?s 23] new_year_valid
    by (simp add: rtc_regs rtc_initfn_regs rtc_bits)
qed

end
