(* ===== verification/Ps2.thy ===== *)
theory Ps2
  imports Byte_Queue
begin

text \<open>
  The PS/2 keyboard and mouse (\<open>hw/ps2.c\<close>). Both share a queue of 256 bytes and tell the
  keyboard controller through \<open>update_irq\<close> whether it holds data; the operations return the
  levels they pass to \<open>update_irq\<close>, in order. The LED state shown by the host and the
  debug output are not modelled. Shown are that the queue is a first-in first-out queue that
  drops what does not fit, that the interrupt level always tells whether it holds data, that
  every byte written to the keyboard is answered, and that the packets of the mouse add up
  to the movement it was told of.
\<close>

section \<open>Definitions\<close>

definition KBD_CMD_SET_LEDS :: int where "KBD_CMD_SET_LEDS = 0xED"

definition KBD_CMD_ECHO :: int where "KBD_CMD_ECHO = 0xEE"

definition KBD_CMD_SCANCODE :: int where "KBD_CMD_SCANCODE = 0xF0"

definition KBD_CMD_GET_ID :: int where "KBD_CMD_GET_ID = 0xF2"

definition KBD_CMD_SET_RATE :: int where "KBD_CMD_SET_RATE = 0xF3"

definition KBD_CMD_ENABLE :: int where "KBD_CMD_ENABLE = 0xF4"

definition KBD_CMD_RESET_DISABLE :: int where "KBD_CMD_RESET_DISABLE = 0xF5"

definition KBD_CMD_RESET_ENABLE :: int where "KBD_CMD_RESET_ENABLE = 0xF6"

definition KBD_CMD_RESET :: int where "KBD_CMD_RESET = 0xFF"

definition KBD_REPLY_POR :: int where "KBD_REPLY_POR = 0xAA"

definition KBD_REPLY_ID :: int where "KBD_REPLY_ID = 0xAB"

definition KBD_REPLY_ACK :: int where "KBD_REPLY_ACK = 0xFA"

definition KBD_REPLY_RESEND :: int where "KBD_REPLY_RESEND = 0xFE"

definition AUX_SET_SCALE11 :: int where "AUX_SET_SCALE11 = 0xE6"

definition AUX_SET_SCALE21 :: int where "AUX_SET_SCALE21 = 0xE7"

definition AUX_SET_RES :: int where "AUX_SET_RES = 0xE8"

definition AUX_GET_SCALE :: int where "AUX_GET_SCALE = 0xE9"

definition AUX_SET_STREAM :: int where "AUX_SET_STREAM = 0xEA"

definition AUX_POLL :: int where "AUX_POLL = 0xEB"

definition AUX_RESET_WRAP :: int where "AUX_RESET_WRAP = 0xEC"

definition AUX_SET_WRAP :: int where "AUX_SET_WRAP = 0xEE"

definition AUX_SET_REMOTE :: int where "AUX_SET_REMOTE = 0xF0"

definition AUX_GET_TYPE :: int where "AUX_GET_TYPE = 0xF2"

definition AUX_SET_SAMPLE :: int where "AUX_SET_SAMPLE = 0xF3"

definition AUX_ENABLE_DEV :: int where "AUX_ENABLE_DEV = 0xF4"

definition AUX_DISABLE_DEV :: int where "AUX_DISABLE_DEV = 0xF5"

definition AUX_SET_DEFAULT :: int where "AUX_SET_DEFAULT = 0xF6"

definition AUX_RESET :: int where "AUX_RESET = 0xFF"

definition AUX_ACK :: int where "AUX_ACK = 0xFA"

definition MOUSE_STATUS_REMOTE :: u8 where "MOUSE_STATUS_REMOTE = 0x40"

definition MOUSE_STATUS_ENABLED :: u8 where "MOUSE_STATUS_ENABLED = 0x20"

definition MOUSE_STATUS_SCALE21 :: u8 where "MOUSE_STATUS_SCALE21 = 0x10"

definition PS2_QUEUE_SIZE :: nat where "PS2_QUEUE_SIZE = 256"

lemmas kbd_codes = KBD_CMD_SET_LEDS_def KBD_CMD_ECHO_def KBD_CMD_SCANCODE_def KBD_CMD_GET_ID_def
  KBD_CMD_SET_RATE_def KBD_CMD_ENABLE_def KBD_CMD_RESET_DISABLE_def KBD_CMD_RESET_ENABLE_def
  KBD_CMD_RESET_def KBD_REPLY_POR_def KBD_REPLY_ID_def KBD_REPLY_ACK_def KBD_REPLY_RESEND_def

lemmas aux_codes = AUX_SET_SCALE11_def AUX_SET_SCALE21_def AUX_SET_RES_def AUX_GET_SCALE_def
  AUX_SET_STREAM_def AUX_POLL_def AUX_RESET_WRAP_def AUX_SET_WRAP_def AUX_SET_REMOTE_def
  AUX_GET_TYPE_def AUX_SET_SAMPLE_def AUX_ENABLE_DEV_def AUX_DISABLE_DEV_def AUX_SET_DEFAULT_def
  AUX_RESET_def AUX_ACK_def

lemmas mouse_bits = MOUSE_STATUS_REMOTE_def MOUSE_STATUS_ENABLED_def MOUSE_STATUS_SCALE21_def

record ps2_fifo =
  ps2_data :: "u8 list"
  rptr :: nat
  wptr :: nat
  ps2_count :: nat

record ps2_state =
  queue :: ps2_fifo
  write_cmd :: int

record ps2_kbd_state =
  kbd_common :: ps2_state
  scan_enabled :: int
  translate :: int
  scancode_set :: int

record ps2_mouse_state =
  mouse_common :: ps2_state
  mouse_status :: u8
  mouse_resolution :: u8
  mouse_sample_rate :: u8
  mouse_wrap :: u8
  mouse_type :: u8
  mouse_detect_state :: u8
  mouse_dx :: int
  mouse_dy :: int
  mouse_dz :: int
  mouse_buttons :: u8

definition ps2_raw_keycode :: "u8 list" where
  "ps2_raw_keycode = [
    0, 118,  22,  30,  38,  37,  46,  54,  61,  62,  70,  69,  78,  85, 102,  13,
   21,  29,  36,  45,  44,  53,  60,  67,  68,  77,  84,  91,  90,  20,  28,  27,
   35,  43,  52,  51,  59,  66,  75,  76,  82,  14,  18,  93,  26,  34,  33,  42,
   50,  49,  58,  65,  73,  74,  89, 124,  17,  41,  88,   5,   6,   4,  12,   3,
   11,   2,  10,   1,   9, 119, 126, 108, 117, 125, 123, 107, 115, 116, 121, 105,
  114, 122, 112, 113, 127,  96,  97, 120,   7,  15,  23,  31,  39,  47,  55,  63,
   71,  79,  86,  94,   8,  16,  24,  32,  40,  48,  56,  64,  72,  80,  87, 111,
   19,  25,  57,  81,  83,  92,  95,  98,  99, 100, 101, 103, 104, 106, 109, 110]"

definition ps2_raw_keycode_set3 :: "u8 list" where
  "ps2_raw_keycode_set3 = [
    0,   8,  22,  30,  38,  37,  46,  54,  61,  62,  70,  69,  78,  85, 102,  13,
   21,  29,  36,  45,  44,  53,  60,  67,  68,  77,  84,  91,  90,  17,  28,  27,
   35,  43,  52,  51,  59,  66,  75,  76,  82,  14,  18,  92,  26,  34,  33,  42,
   50,  49,  58,  65,  73,  74,  89, 126,  25,  41,  20,   7,  15,  23,  31,  39,
   47,   2,  63,  71,  79, 118,  95, 108, 117, 125, 132, 107, 115, 116, 124, 105,
  114, 122, 112, 113, 127,  96,  97,  86,  94,  15,  23,  31,  39,  47,  55,  63,
   71,  79,  86,  94,   8,  16,  24,  32,  40,  48,  56,  64,  72,  80,  87, 111,
   19,  25,  57,  81,  83,  92,  95,  98,  99, 100, 101, 103, 104, 106, 109, 110]"

definition ps2_queue :: "int \<Rightarrow> ps2_state \<Rightarrow> ps2_state \<times> int list" where
  "ps2_queue b s =
     (let q = queue s
      in if ps2_count q \<ge> PS2_QUEUE_SIZE then (s, [])
         else
           (let q = q\<lparr>ps2_data := (ps2_data q)[wptr q := word_of_int b], wptr := Suc (wptr q)\<rparr>;
                q = (if wptr q = PS2_QUEUE_SIZE then q\<lparr>wptr := 0\<rparr> else q);
                q = q\<lparr>ps2_count := Suc (ps2_count q)\<rparr>
            in (s\<lparr>queue := q\<rparr>, [1])))"

text \<open>Several calls of \<open>ps2_queue\<close> in a row.\<close>

primrec ps2_queues :: "int list \<Rightarrow> ps2_state \<Rightarrow> ps2_state \<times> int list" where
  "ps2_queues [] s = (s, [])"
| "ps2_queues (b # bs) s =
     (let (s, out1) = ps2_queue b s; (s, out2) = ps2_queues bs s in (s, out1 @ out2))"

definition kbd_queues :: "int list \<Rightarrow> ps2_kbd_state \<Rightarrow> ps2_kbd_state \<times> int list" where
  "kbd_queues bs s = (let (c, out) = ps2_queues bs (kbd_common s) in (s\<lparr>kbd_common := c\<rparr>, out))"

definition mouse_queues :: "int list \<Rightarrow> ps2_mouse_state \<Rightarrow> ps2_mouse_state \<times> int list" where
  "mouse_queues bs s = (let (c, out) = ps2_queues bs (mouse_common s) in (s\<lparr>mouse_common := c\<rparr>, out))"

definition ps2_put_keycode :: "int \<Rightarrow> ps2_kbd_state \<Rightarrow> ps2_kbd_state \<times> int list" where
  "ps2_put_keycode keycode s =
     (if translate s = 0 \<and> keycode < 0xe0 \<and> scancode_set s > 1 then
        kbd_queues
          ((if keycode AND 0x80 \<noteq> 0 then [0xf0] else []) @
           [if scancode_set s = 2 then uint (ps2_raw_keycode ! nat (keycode AND 0x7f))
            else if scancode_set s = 3 then uint (ps2_raw_keycode_set3 ! nat (keycode AND 0x7f))
            else keycode]) s
      else kbd_queues [keycode] s)"

definition ps2_read_data :: "ps2_state \<Rightarrow> u32 \<times> ps2_state \<times> int list" where
  "ps2_read_data s =
     (let q = queue s
      in if ps2_count q = 0 then
           (let index = int (rptr q) - 1;
                index = (if index < 0 then int PS2_QUEUE_SIZE - 1 else index)
            in (ucast (ps2_data q ! nat index), s, []))
         else
           (let val = ps2_data q ! rptr q;
                q = q\<lparr>rptr := Suc (rptr q)\<rparr>;
                q = (if rptr q = PS2_QUEUE_SIZE then q\<lparr>rptr := 0\<rparr> else q);
                q = q\<lparr>ps2_count := ps2_count q - 1\<rparr>
            in (ucast val, s\<lparr>queue := q\<rparr>, [0, c_bool (ps2_count q \<noteq> 0)])))"

definition ps2_reset_keyboard :: "ps2_kbd_state \<Rightarrow> ps2_kbd_state" where
  "ps2_reset_keyboard s = s\<lparr>scan_enabled := 1, scancode_set := 2\<rparr>"

definition kbd_set_cmd :: "int \<Rightarrow> ps2_kbd_state \<Rightarrow> ps2_kbd_state" where
  "kbd_set_cmd c s = s\<lparr>kbd_common := (kbd_common s)\<lparr>write_cmd := c\<rparr>\<rparr>"

definition ps2_kbd_command :: "int \<Rightarrow> ps2_kbd_state \<Rightarrow> ps2_kbd_state \<times> int list" where
  "ps2_kbd_command val s =
     (if val = 0x00 then kbd_queues [KBD_REPLY_ACK] s
      else if val = 0x05 then kbd_queues [KBD_REPLY_RESEND] s
      else if val = KBD_CMD_GET_ID then
        kbd_queues [KBD_REPLY_ACK, KBD_REPLY_ID, if translate s \<noteq> 0 then 0x41 else 0x83] s
      else if val = KBD_CMD_ECHO then kbd_queues [KBD_CMD_ECHO] s
      else if val = KBD_CMD_ENABLE then kbd_queues [KBD_REPLY_ACK] (s\<lparr>scan_enabled := 1\<rparr>)
      else if val = KBD_CMD_SCANCODE \<or> val = KBD_CMD_SET_LEDS \<or> val = KBD_CMD_SET_RATE then
        kbd_queues [KBD_REPLY_ACK] (kbd_set_cmd val s)
      else if val = KBD_CMD_RESET_DISABLE then
        kbd_queues [KBD_REPLY_ACK] ((ps2_reset_keyboard s)\<lparr>scan_enabled := 0\<rparr>)
      else if val = KBD_CMD_RESET_ENABLE then
        kbd_queues [KBD_REPLY_ACK] ((ps2_reset_keyboard s)\<lparr>scan_enabled := 1\<rparr>)
      else if val = KBD_CMD_RESET then
        kbd_queues [KBD_REPLY_ACK, KBD_REPLY_POR] (ps2_reset_keyboard s)
      else kbd_queues [KBD_REPLY_ACK] s)"

definition ps2_write_keyboard :: "int \<Rightarrow> ps2_kbd_state \<Rightarrow> ps2_kbd_state \<times> int list" where
  "ps2_write_keyboard val s =
     (if write_cmd (kbd_common s) = KBD_CMD_SCANCODE then
        (let (s, out) =
           (if val = 0 then
              (if scancode_set s = 1 then ps2_put_keycode 0x43 s
               else if scancode_set s = 2 then ps2_put_keycode 0x41 s
               else if scancode_set s = 3 then ps2_put_keycode 0x3f s
               else (s, []))
            else kbd_queues [KBD_REPLY_ACK] (if val \<ge> 1 \<and> val \<le> 3 then s\<lparr>scancode_set := val\<rparr> else s))
         in (kbd_set_cmd (-1) s, out))
      else if write_cmd (kbd_common s) = KBD_CMD_SET_LEDS \<or> write_cmd (kbd_common s) = KBD_CMD_SET_RATE then
        (let (s, out) = kbd_queues [KBD_REPLY_ACK] s in (kbd_set_cmd (-1) s, out))
      else ps2_kbd_command val s)"

definition ps2_keyboard_set_translation :: "int \<Rightarrow> ps2_kbd_state \<Rightarrow> ps2_kbd_state" where
  "ps2_keyboard_set_translation mode s = s\<lparr>translate := mode\<rparr>"

definition clamp :: "int \<Rightarrow> int \<Rightarrow> int" where
  "clamp m d = (if d > m then m else if d < - m then - m else d)"

text \<open>The bytes of one packet, and the wheel movement it carries.\<close>

definition mouse_packet_dz :: "ps2_mouse_state \<Rightarrow> int" where
  "mouse_packet_dz s =
     (if mouse_type s = 3 then clamp 127 (mouse_dz s)
      else if mouse_type s = 4 then clamp 7 (mouse_dz s)
      else mouse_dz s)"

definition mouse_packet :: "ps2_mouse_state \<Rightarrow> int list" where
  "mouse_packet s =
     (let dx1 = clamp 127 (mouse_dx s); dy1 = clamp 127 (mouse_dy s); dz1 = mouse_packet_dz s;
          buttons = uint (mouse_buttons s);
          b = 0x08 OR push_bit 4 (c_bool (dx1 < 0)) OR push_bit 5 (c_bool (dy1 < 0)) OR (buttons AND 0x07)
      in [b, dx1 AND 0xff, dy1 AND 0xff] @
         (if mouse_type s = 3 then [dz1 AND 0xff]
          else if mouse_type s = 4 then [(dz1 AND 0x0f) OR push_bit 1 (buttons AND 0x18)]
          else []))"

definition ps2_mouse_send_packet :: "ps2_mouse_state \<Rightarrow> ps2_mouse_state \<times> int list" where
  "ps2_mouse_send_packet s =
     (let dx1 = clamp 127 (mouse_dx s); dy1 = clamp 127 (mouse_dy s); dz1 = mouse_packet_dz s;
          (s, out) = mouse_queues (mouse_packet s) s
      in (s\<lparr>mouse_dx := mouse_dx s - dx1, mouse_dy := mouse_dy s - dy1, mouse_dz := mouse_dz s - dz1\<rparr>, out))"

text \<open>The movement that is left to send; it shrinks with every packet.\<close>

definition mouse_left :: "ps2_mouse_state \<Rightarrow> nat" where
  "mouse_left s = nat (\<bar>mouse_dx s\<bar> + \<bar>mouse_dy s\<bar> + \<bar>mouse_dz s\<bar>)"

lemma mouse_send_packet_fields [simp]:
  "mouse_dx (fst (ps2_mouse_send_packet s)) = mouse_dx s - clamp 127 (mouse_dx s)"
  "mouse_dy (fst (ps2_mouse_send_packet s)) = mouse_dy s - clamp 127 (mouse_dy s)"
  "mouse_dz (fst (ps2_mouse_send_packet s)) = mouse_dz s - mouse_packet_dz s"
  "mouse_type (fst (ps2_mouse_send_packet s)) = mouse_type s"
  "mouse_buttons (fst (ps2_mouse_send_packet s)) = mouse_buttons s"
  "mouse_status (fst (ps2_mouse_send_packet s)) = mouse_status s"
  "mouse_common (fst (ps2_mouse_send_packet s)) = fst (ps2_queues (mouse_packet s) (mouse_common s))"
  by (simp_all add: ps2_mouse_send_packet_def mouse_queues_def split_beta Let_def)

lemma clamp_shrinks: "0 < m \<Longrightarrow> \<bar>d - clamp m d\<bar> \<le> \<bar>d\<bar>" "0 < m \<Longrightarrow> d \<noteq> 0 \<Longrightarrow> \<bar>d - clamp m d\<bar> < \<bar>d\<bar>"
  by (auto simp: clamp_def)

lemma mouse_packet_dz_shrinks:
  "\<bar>mouse_dz s - mouse_packet_dz s\<bar> \<le> \<bar>mouse_dz s\<bar>"
  "mouse_dz s \<noteq> 0 \<Longrightarrow> \<bar>mouse_dz s - mouse_packet_dz s\<bar> < \<bar>mouse_dz s\<bar>"
  by (simp_all add: mouse_packet_dz_def clamp_shrinks)

lemma mouse_left_decreases:
  assumes "\<not> (mouse_dx (fst (ps2_mouse_send_packet s)) = 0 \<and> mouse_dy (fst (ps2_mouse_send_packet s)) = 0
    \<and> mouse_dz (fst (ps2_mouse_send_packet s)) = 0)"
  shows "mouse_left (fst (ps2_mouse_send_packet s)) < mouse_left s"
proof -
  have "mouse_dx s \<noteq> 0 \<or> mouse_dy s \<noteq> 0 \<or> mouse_dz s \<noteq> 0"
    using assms mouse_packet_dz_shrinks(1) [of s] by (auto simp: clamp_def)
  then show ?thesis
    using clamp_shrinks [of 127 "mouse_dx s"] clamp_shrinks [of 127 "mouse_dy s"]
      mouse_packet_dz_shrinks [of s] by (auto simp: mouse_left_def)
qed

function ps2_mouse_send_all :: "ps2_mouse_state \<Rightarrow> ps2_mouse_state \<times> int list" where
  "ps2_mouse_send_all s =
     (let r = ps2_mouse_send_packet s
      in if mouse_dx (fst r) = 0 \<and> mouse_dy (fst r) = 0 \<and> mouse_dz (fst r) = 0 then r
         else (let r2 = ps2_mouse_send_all (fst r) in (fst r2, snd r @ snd r2)))"
  by pat_completeness auto
termination
proof (relation "measure mouse_left")
  fix s r
  assume "r = ps2_mouse_send_packet s" "\<not> (mouse_dx (fst r) = 0 \<and> mouse_dy (fst r) = 0 \<and> mouse_dz (fst r) = 0)"
  then show "(fst r, s) \<in> measure mouse_left" unfolding in_measure by (metis mouse_left_decreases)
qed simp

declare ps2_mouse_send_all.simps [simp del]

definition ps2_mouse_event :: "int \<Rightarrow> int \<Rightarrow> int \<Rightarrow> int \<Rightarrow> ps2_mouse_state \<Rightarrow> ps2_mouse_state \<times> int list" where
  "ps2_mouse_event dx dy dz buttons_state s =
     (if mouse_status s AND MOUSE_STATUS_ENABLED = 0 then (s, [])
      else
        (let s = s\<lparr>mouse_dx := mouse_dx s + dx, mouse_dy := mouse_dy s - dy, mouse_dz := mouse_dz s + dz\<rparr>
         in if mouse_dx s = 0 \<and> mouse_dy s = 0 \<and> mouse_dz s = 0 \<and> uint (mouse_buttons s) = buttons_state
            then (s, [])
            else
              (let s = s\<lparr>mouse_buttons := word_of_int buttons_state\<rparr>
               in if mouse_status s AND MOUSE_STATUS_REMOTE = 0
                     \<and> ps2_count (queue (mouse_common s)) < PS2_QUEUE_SIZE - 16
                  then ps2_mouse_send_all s
                  else (s, []))))"

definition ps2_mouse_fake_event :: "ps2_mouse_state \<Rightarrow> ps2_mouse_state \<times> int list" where
  "ps2_mouse_fake_event s = ps2_mouse_event 1 0 0 0 s"

definition mouse_set_cmd :: "int \<Rightarrow> ps2_mouse_state \<Rightarrow> ps2_mouse_state" where
  "mouse_set_cmd c s = s\<lparr>mouse_common := (mouse_common s)\<lparr>write_cmd := c\<rparr>\<rparr>"

definition ps2_mouse_command :: "int \<Rightarrow> ps2_mouse_state \<Rightarrow> ps2_mouse_state \<times> int list" where
  "ps2_mouse_command val s =
     (if val = AUX_SET_SCALE11 then
        mouse_queues [AUX_ACK] (s\<lparr>mouse_status := mouse_status s AND NOT MOUSE_STATUS_SCALE21\<rparr>)
      else if val = AUX_SET_SCALE21 then
        mouse_queues [AUX_ACK] (s\<lparr>mouse_status := mouse_status s OR MOUSE_STATUS_SCALE21\<rparr>)
      else if val = AUX_SET_STREAM then
        mouse_queues [AUX_ACK] (s\<lparr>mouse_status := mouse_status s AND NOT MOUSE_STATUS_REMOTE\<rparr>)
      else if val = AUX_SET_WRAP then mouse_queues [AUX_ACK] (s\<lparr>mouse_wrap := 1\<rparr>)
      else if val = AUX_SET_REMOTE then
        mouse_queues [AUX_ACK] (s\<lparr>mouse_status := mouse_status s OR MOUSE_STATUS_REMOTE\<rparr>)
      else if val = AUX_GET_TYPE then mouse_queues [AUX_ACK, uint (mouse_type s)] s
      else if val = AUX_SET_RES \<or> val = AUX_SET_SAMPLE then
        mouse_queues [AUX_ACK] (mouse_set_cmd val s)
      else if val = AUX_GET_SCALE then
        mouse_queues [AUX_ACK, uint (mouse_status s), uint (mouse_resolution s), uint (mouse_sample_rate s)] s
      else if val = AUX_POLL then
        (let (s, out1) = mouse_queues [AUX_ACK] s; (s, out2) = ps2_mouse_send_packet s in (s, out1 @ out2))
      else if val = AUX_ENABLE_DEV then
        mouse_queues [AUX_ACK] (s\<lparr>mouse_status := mouse_status s OR MOUSE_STATUS_ENABLED\<rparr>)
      else if val = AUX_DISABLE_DEV then
        mouse_queues [AUX_ACK] (s\<lparr>mouse_status := mouse_status s AND NOT MOUSE_STATUS_ENABLED\<rparr>)
      else if val = AUX_SET_DEFAULT then
        mouse_queues [AUX_ACK] (s\<lparr>mouse_sample_rate := 100, mouse_resolution := 2, mouse_status := 0\<rparr>)
      else if val = AUX_RESET then
        (let s = s\<lparr>mouse_sample_rate := 100, mouse_resolution := 2, mouse_status := 0, mouse_type := 0\<rparr>
         in mouse_queues [AUX_ACK, 0xaa, uint (mouse_type s)] s)
      else (s, []))"

text \<open>The IntelliMouse detection: the sequence of sample rates selects the packet format.\<close>

definition mouse_detect :: "int \<Rightarrow> ps2_mouse_state \<Rightarrow> ps2_mouse_state" where
  "mouse_detect val s =
     (if mouse_detect_state s = 1 then
        (if val = 100 then s\<lparr>mouse_detect_state := 2\<rparr>
         else if val = 200 then s\<lparr>mouse_detect_state := 3\<rparr>
         else s\<lparr>mouse_detect_state := 0\<rparr>)
      else if mouse_detect_state s = 2 then
        (if val = 80 then s\<lparr>mouse_type := 3\<rparr> else s)\<lparr>mouse_detect_state := 0\<rparr>
      else if mouse_detect_state s = 3 then
        (if val = 80 then s\<lparr>mouse_type := 4\<rparr> else s)\<lparr>mouse_detect_state := 0\<rparr>
      else if val = 200 then s\<lparr>mouse_detect_state := 1\<rparr> else s)"

definition ps2_write_mouse :: "int \<Rightarrow> ps2_mouse_state \<Rightarrow> ps2_mouse_state \<times> int list" where
  "ps2_write_mouse val s =
     (if write_cmd (mouse_common s) = AUX_SET_SAMPLE then
        (let s = mouse_detect val (s\<lparr>mouse_sample_rate := word_of_int val\<rparr>);
             (s, out) = mouse_queues [AUX_ACK] s
         in (mouse_set_cmd (-1) s, out))
      else if write_cmd (mouse_common s) = AUX_SET_RES then
        (let (s, out) = mouse_queues [AUX_ACK] (s\<lparr>mouse_resolution := word_of_int val\<rparr>)
         in (mouse_set_cmd (-1) s, out))
      else if mouse_wrap s \<noteq> 0 \<and> val = AUX_RESET_WRAP then mouse_queues [AUX_ACK] (s\<lparr>mouse_wrap := 0\<rparr>)
      else if mouse_wrap s \<noteq> 0 \<and> val \<noteq> AUX_RESET then mouse_queues [val] s
      else ps2_mouse_command val s)"

definition ps2_common_reset :: "ps2_state \<Rightarrow> ps2_state \<times> int list" where
  "ps2_common_reset s =
     (s\<lparr>write_cmd := -1, queue := (queue s)\<lparr>rptr := 0, wptr := 0, ps2_count := 0\<rparr>\<rparr>, [0])"

definition ps2_kbd_reset :: "ps2_kbd_state \<Rightarrow> ps2_kbd_state \<times> int list" where
  "ps2_kbd_reset s =
     (let (c, out) = ps2_common_reset (kbd_common s)
      in (s\<lparr>kbd_common := c, scan_enabled := 0, translate := 0, scancode_set := 0\<rparr>, out))"

definition ps2_mouse_reset :: "ps2_mouse_state \<Rightarrow> ps2_mouse_state \<times> int list" where
  "ps2_mouse_reset s =
     (let (c, out) = ps2_common_reset (mouse_common s)
      in (\<lparr>mouse_common = c, mouse_status = 0, mouse_resolution = 0, mouse_sample_rate = 0,
           mouse_wrap = 0, mouse_type = 0, mouse_detect_state = 0, mouse_dx = 0, mouse_dy = 0,
           mouse_dz = 0, mouse_buttons = 0\<rparr>, out))"

definition ps2_kbd_post_load :: "int \<Rightarrow> ps2_kbd_state \<Rightarrow> ps2_kbd_state" where
  "ps2_kbd_post_load version_id s = (if version_id = 2 then s\<lparr>scancode_set := 2\<rparr> else s)"

text \<open>The zeroed state that \<open>qemu_mallocz\<close> returns.\<close>

definition ps2_state_zero :: ps2_state where
  "ps2_state_zero = \<lparr>queue = \<lparr>ps2_data = replicate PS2_QUEUE_SIZE 0, rptr = 0, wptr = 0, ps2_count = 0\<rparr>,
     write_cmd = 0\<rparr>"

definition ps2_kbd_init :: ps2_kbd_state where
  "ps2_kbd_init = \<lparr>kbd_common = ps2_state_zero, scan_enabled = 0, translate = 0, scancode_set = 2\<rparr>"

definition ps2_mouse_init :: ps2_mouse_state where
  "ps2_mouse_init = \<lparr>mouse_common = ps2_state_zero, mouse_status = 0, mouse_resolution = 0,
     mouse_sample_rate = 0, mouse_wrap = 0, mouse_type = 0, mouse_detect_state = 0, mouse_dx = 0,
     mouse_dy = 0, mouse_dz = 0, mouse_buttons = 0\<rparr>"

section \<open>The queue\<close>

definition queue_elems :: "ps2_state \<Rightarrow> u8 list" where
  "queue_elems s = ring_elems (ps2_data (queue s)) (rptr (queue s)) (ps2_count (queue s))"

definition queue_ok :: "ps2_state \<Rightarrow> bool" where
  "queue_ok s \<longleftrightarrow> length (ps2_data (queue s)) = 256
     \<and> ring_ok (ps2_data (queue s)) (rptr (queue s)) (wptr (queue s)) (ps2_count (queue s))"

definition queue_put :: "u8 \<Rightarrow> ps2_state \<Rightarrow> ps2_state" where
  "queue_put b s = fst (ps2_queue (uint b) s)"

definition queue_get :: "ps2_state \<Rightarrow> u8 \<times> ps2_state" where
  "queue_get s = (ucast (fst (ps2_read_data s)), fst (snd (ps2_read_data s)))"

lemma length_queue_elems [simp]: "length (queue_elems s) = ps2_count (queue s)"
  by (simp add: queue_elems_def)

lemma ps2_queue_put: "fst (ps2_queue b s) = queue_put (word_of_int b) s"
  by (simp add: queue_put_def ps2_queue_def Let_def)

lemma queue_put_ring:
  assumes "queue_ok s" "ps2_count (queue s) < 256"
  shows "queue_ok (queue_put b s) \<and> queue_elems (queue_put b s) = queue_elems s @ [b]"
proof -
  let ?q = "queue s"
  have "ring_ok (ps2_data ?q) (rptr ?q) (wptr ?q) (ps2_count ?q)" "ps2_count ?q < length (ps2_data ?q)"
    using assms by (simp_all add: queue_ok_def)
  note ring = ring_put [OF this, of b]
  have w: "wptr ?q < 256" using assms by (simp add: queue_ok_def ring_ok_def)
  have "queue (queue_put b s) = ?q\<lparr>ps2_data := (ps2_data ?q)[wptr ?q := b],
      wptr := Suc (wptr ?q) mod 256, ps2_count := Suc (ps2_count ?q)\<rparr>"
    using assms(2) wrap_index [OF w]
    by (auto simp: queue_put_def ps2_queue_def PS2_QUEUE_SIZE_def Let_def)
  then show ?thesis using ring assms(1) by (simp add: queue_ok_def queue_elems_def)
qed

lemma queue_get_ring:
  assumes "queue_ok s"
  shows "queue_ok (snd (queue_get s))"
    and "queue_elems s = x # xs \<Longrightarrow> fst (queue_get s) = x \<and> queue_elems (snd (queue_get s)) = xs"
proof -
  let ?q = "queue s"
  have r: "rptr ?q < 256" using assms by (simp add: queue_ok_def ring_ok_def)
  have pop: "fst (queue_get s) = ps2_data ?q ! rptr ?q"
      "queue (snd (queue_get s)) = ?q\<lparr>rptr := Suc (rptr ?q) mod 256, ps2_count := ps2_count ?q - 1\<rparr>"
    if "ps2_count ?q \<noteq> 0"
    using that wrap_index [OF r] by (auto simp: queue_get_def ps2_read_data_def PS2_QUEUE_SIZE_def Let_def)
  have empty: "snd (queue_get s) = s" if "ps2_count ?q = 0"
    using that by (simp add: queue_get_def ps2_read_data_def Let_def)
  have ring: "ring_elems (ps2_data ?q) (rptr ?q) (ps2_count ?q)
      = ps2_data ?q ! rptr ?q # ring_elems (ps2_data ?q) (Suc (rptr ?q) mod 256) (ps2_count ?q - 1)"
    "ring_ok (ps2_data ?q) (Suc (rptr ?q) mod 256) (wptr ?q) (ps2_count ?q - 1)" if "ps2_count ?q \<noteq> 0"
    using that assms ring_get [of "ps2_data ?q" "rptr ?q" "wptr ?q" "ps2_count ?q - 1"]
    by (simp_all add: queue_ok_def)
  show "queue_ok (snd (queue_get s))"
    using assms pop empty ring by (cases "ps2_count ?q = 0") (simp_all add: queue_ok_def)
  assume e: "queue_elems s = x # xs"
  then have "ps2_count ?q \<noteq> 0" by (metis length_queue_elems list.size(3) list.distinct(1) length_0_conv)
  then show "fst (queue_get s) = x \<and> queue_elems (snd (queue_get s)) = xs"
    using e pop ring by (simp add: queue_elems_def)
qed

lemma queue_count: "queue_ok s \<Longrightarrow> ps2_count (queue s) \<le> 256"
  by (simp add: queue_ok_def ring_ok_def)

lemma queue_put_full: "ps2_count (queue s) = 256 \<Longrightarrow> queue_put b s = s"
  by (simp add: queue_put_def ps2_queue_def PS2_QUEUE_SIZE_def)

interpretation ps2_fifo: dropping_fifo 256 queue_put queue_get queue_elems queue_ok
  by unfold_locales (simp_all add: queue_put_ring queue_get_ring queue_count queue_put_full)

lemma ps2_queues_fold: "fst (ps2_queues bs s) = fold queue_put (map word_of_int bs) s"
  by (induction bs arbitrary: s) (simp_all add: split_beta ps2_queue_put)

lemma ps2_queues_elems:
  assumes "queue_ok s"
  shows "queue_ok (fst (ps2_queues bs s))"
    and "queue_elems (fst (ps2_queues bs s)) = take 256 (queue_elems s @ map word_of_int bs)"
  using ps2_fifo.put_take [OF assms, of "map word_of_int bs"] by (simp_all add: ps2_queues_fold)

text \<open>
  The PS/2 queue. Any bytes put in the queue of a fresh or reset device come out in the
  order they came in; from the byte that no longer fits in the 256 on they are dropped.
\<close>

theorem ps2_queue_order:
  assumes "queue_ok s" "queue_elems s = []"
  shows "fst (drain queue_get (min 256 (length bs)) (fst (ps2_queues bs s))) = map word_of_int (take 256 bs)"
proof -
  note put = ps2_queues_elems [OF assms(1), of bs]
  have "fst (drain queue_get (min 256 (length bs)) (fst (ps2_queues bs s)))
      = take (min 256 (length bs)) (queue_elems (fst (ps2_queues bs s)))"
    by (rule ps2_fifo.drain_take [OF put(1)]) (simp add: put(2) assms(2) flip: length_queue_elems)
  then show ?thesis using put(2) assms(2) by (cases "length bs \<le> 256") (simp_all add: take_map)
qed

lemma ps2_state_zero_ok: "queue_ok ps2_state_zero" "queue_elems ps2_state_zero = []"
  by (simp_all add: queue_ok_def queue_elems_def ps2_state_zero_def ring_ok_def PS2_QUEUE_SIZE_def)

theorem ps2_queue_order_witness:
  "fst (drain queue_get 3 (fst (ps2_queues [0xfa, 0xab, 0x41] ps2_state_zero))) = [0xfa, 0xab, 0x41]"
proof -
  from ps2_queue_order [OF ps2_state_zero_ok, of "[0xfa, 0xab, 0x41]"] show ?thesis
    by (simp del: ps2_queues.simps drain.simps add: numeral_3_eq_3 [symmetric])
qed

section \<open>The interrupt level\<close>

text \<open>
  \<open>has_data\<close> is the level that tells the controller whether the queue holds data, and
  \<open>ps2_good s (t, out)\<close> says that an operation from \<open>s\<close> to \<open>t\<close> keeps the queue well-formed
  and that the levels \<open>out\<close> it reports leave the controller with the right one.
\<close>

definition has_data :: "ps2_state \<Rightarrow> int" where
  "has_data s = c_bool (ps2_count (queue s) \<noteq> 0)"

definition level_after :: "int \<Rightarrow> int list \<Rightarrow> int" where
  "level_after l out = foldl (\<lambda>_ x. x) l out"

definition ps2_good :: "ps2_state \<Rightarrow> ps2_state \<times> int list \<Rightarrow> bool" where
  "ps2_good s r \<longleftrightarrow> queue_ok (fst r) \<and> level_after (has_data s) (snd r) = has_data (fst r)"

lemma level_after_simps [simp]:
  "level_after l [] = l" "level_after l (x # xs) = level_after x xs"
  "level_after l (xs @ ys) = level_after (level_after l xs) ys"
  by (simp_all add: level_after_def)

lemma ps2_good_refl [intro]: "queue_ok t \<Longrightarrow> has_data t = has_data s \<Longrightarrow> ps2_good s (t, [])"
  by (simp add: ps2_good_def)

lemma ps2_good_trans: "ps2_good s (t, out1) \<Longrightarrow> ps2_good t (u, out2) \<Longrightarrow> ps2_good s (u, out1 @ out2)"
  by (simp add: ps2_good_def)

lemma ps2_good_queue: "queue_ok s \<Longrightarrow> ps2_good s (ps2_queue b s)"
proof -
  assume ok: "queue_ok s"
  have "queue_ok (fst (ps2_queue b s))"
    using ps2_queues_elems(1) [OF ok, of "[b]"] by (simp add: split_beta)
  moreover have "level_after (has_data s) (snd (ps2_queue b s)) = has_data (fst (ps2_queue b s))"
    by (simp add: ps2_queue_def has_data_def PS2_QUEUE_SIZE_def Let_def)
  ultimately show ?thesis by (simp add: ps2_good_def)
qed

lemma ps2_good_queues: "queue_ok s \<Longrightarrow> ps2_good s (ps2_queues bs s)"
proof (induction bs arbitrary: s)
  case (Cons b bs)
  have "ps2_good s (ps2_queue b s)" using Cons.prems by (rule ps2_good_queue)
  moreover from this have "ps2_good (fst (ps2_queue b s)) (ps2_queues bs (fst (ps2_queue b s)))"
    by (intro Cons.IH) (simp add: ps2_good_def)
  ultimately show ?case by (simp add: ps2_good_def split_beta)
qed auto

lemma ps2_good_read:
  assumes "queue_ok s"
  shows "ps2_good s (snd (ps2_read_data s))"
proof -
  have "queue_ok (fst (snd (ps2_read_data s)))"
    using ps2_fifo.invar_get [OF assms] by (simp add: queue_get_def)
  then show ?thesis
    by (auto simp: ps2_good_def ps2_read_data_def has_data_def Let_def)
qed

lemma ps2_good_reset: "length (ps2_data (queue s)) = 256 \<Longrightarrow> ps2_good t (ps2_common_reset s)"
  by (simp add: ps2_good_def ps2_common_reset_def has_data_def queue_ok_def ring_ok_def)

lemma queue_ok_cmd [simp]: "queue_ok (s\<lparr>write_cmd := c\<rparr>) = queue_ok s"
  "has_data (s\<lparr>write_cmd := c\<rparr>) = has_data s"
  by (simp_all add: queue_ok_def has_data_def)

text \<open>The keyboard and the mouse only touch the queue through these operations.\<close>

definition kbd_good :: "ps2_kbd_state \<Rightarrow> ps2_kbd_state \<times> int list \<Rightarrow> bool" where
  "kbd_good s r \<longleftrightarrow> ps2_good (kbd_common s) (kbd_common (fst r), snd r)"

definition mouse_good :: "ps2_mouse_state \<Rightarrow> ps2_mouse_state \<times> int list \<Rightarrow> bool" where
  "mouse_good s r \<longleftrightarrow> ps2_good (mouse_common s) (mouse_common (fst r), snd r)"

lemma kbd_good_queues: "queue_ok (kbd_common s) \<Longrightarrow> has_data (kbd_common s) = has_data (kbd_common t)
    \<Longrightarrow> kbd_good t (kbd_queues bs s)"
  using ps2_good_queues [of "kbd_common s" bs] by (simp add: kbd_good_def kbd_queues_def split_beta ps2_good_def)

lemma mouse_good_queues: "queue_ok (mouse_common s) \<Longrightarrow> has_data (mouse_common s) = has_data (mouse_common t)
    \<Longrightarrow> mouse_good t (mouse_queues bs s)"
  using ps2_good_queues [of "mouse_common s" bs] by (simp add: mouse_good_def mouse_queues_def split_beta ps2_good_def)

lemma kbd_good_cmd: "kbd_good s r \<Longrightarrow> kbd_good s (kbd_set_cmd c (fst r), snd r)"
  by (simp add: kbd_good_def kbd_set_cmd_def ps2_good_def)

lemma mouse_good_cmd: "mouse_good s r \<Longrightarrow> mouse_good s (mouse_set_cmd c (fst r), snd r)"
  by (simp add: mouse_good_def mouse_set_cmd_def ps2_good_def)

lemma kbd_good_put_keycode: "queue_ok (kbd_common s) \<Longrightarrow> kbd_good s (ps2_put_keycode k s)"
  by (simp add: ps2_put_keycode_def kbd_good_queues)

lemma kbd_good_write:
  assumes "queue_ok (kbd_common s)"
  shows "kbd_good s (ps2_write_keyboard v s)"
proof -
  have c: "kbd_good s (ps2_kbd_command v s)"
    using assms by (simp add: ps2_kbd_command_def kbd_good_queues kbd_set_cmd_def ps2_reset_keyboard_def)
  have "kbd_good s (s, [])" using assms by (auto simp: kbd_good_def)
  then show ?thesis using assms c
    by (simp add: ps2_write_keyboard_def split_beta Let_def kbd_good_cmd kbd_good_put_keycode kbd_good_queues)
qed

lemma mouse_good_packet:
  assumes "queue_ok (mouse_common s)"
  shows "mouse_good s (ps2_mouse_send_packet s)"
  using mouse_good_queues [OF assms refl, of "mouse_packet s"]
  by (simp add: mouse_good_def ps2_mouse_send_packet_def split_beta Let_def)

lemma mouse_good_send_all:
  assumes "queue_ok (mouse_common s)"
  shows "mouse_good s (ps2_mouse_send_all s)"
  using assms
proof (induction s rule: ps2_mouse_send_all.induct)
  case (1 s)
  let ?r = "ps2_mouse_send_packet s"
  have p: "mouse_good s ?r" using 1(2) by (rule mouse_good_packet)
  then have "queue_ok (mouse_common (fst ?r))" by (simp only: mouse_good_def ps2_good_def fst_conv)
  with 1(1) [OF refl] have "mouse_good (fst ?r) (ps2_mouse_send_all (fst ?r))"
    if "\<not> (mouse_dx (fst ?r) = 0 \<and> mouse_dy (fst ?r) = 0 \<and> mouse_dz (fst ?r) = 0)" using that by blast
  with p show ?case
    by (subst ps2_mouse_send_all.simps) (auto simp only: Let_def mouse_good_def ps2_good_def fst_conv snd_conv
        level_after_simps split: if_splits)
qed

lemma mouse_good_event:
  assumes "queue_ok (mouse_common s)"
  shows "mouse_good s (ps2_mouse_event dx dy dz b s)"
proof -
  have same: "mouse_good s (t, [])" if "mouse_common t = mouse_common s" for t
    using assms that by (auto simp: mouse_good_def)
  have all: "mouse_good s (ps2_mouse_send_all t)" if "mouse_common t = mouse_common s" for t
    using mouse_good_send_all [of t] assms that by (simp add: mouse_good_def)
  show ?thesis by (simp add: ps2_mouse_event_def Let_def same all)
qed

lemma mouse_good_trans:
  "mouse_good s r1 \<Longrightarrow> mouse_good (fst r1) r2 \<Longrightarrow> mouse_good s (fst r2, snd r1 @ snd r2)"
  by (simp add: mouse_good_def ps2_good_def)

lemma mouse_good_if: "mouse_good s r1 \<Longrightarrow> mouse_good s r2 \<Longrightarrow> mouse_good s (if c then r1 else r2)"
  by simp

lemma mouse_good_ok: "mouse_good s r \<Longrightarrow> queue_ok (mouse_common (fst r))"
  by (simp add: mouse_good_def ps2_good_def)

lemma mouse_good_write:
  assumes "queue_ok (mouse_common s)"
  shows "mouse_good s (ps2_write_mouse v s)"
proof -
  have "mouse_good s (mouse_queues [AUX_ACK] s)" using assms by (simp add: mouse_good_queues)
  then have poll: "mouse_good s (fst (ps2_mouse_send_packet (fst (mouse_queues [AUX_ACK] s))),
      snd (mouse_queues [AUX_ACK] s) @ snd (ps2_mouse_send_packet (fst (mouse_queues [AUX_ACK] s))))"
    by (intro mouse_good_trans mouse_good_packet mouse_good_ok)
  have cmd: "mouse_common (mouse_set_cmd x t) = (mouse_common t)\<lparr>write_cmd := x\<rparr>" for x t
    by (simp add: mouse_set_cmd_def)
  have "mouse_good s (s, [])" using assms by (auto simp: mouse_good_def)
  with poll have command: "mouse_good s (ps2_mouse_command v s)" using assms
    unfolding ps2_mouse_command_def split_beta Let_def
    by (intro mouse_good_if mouse_good_queues) (simp_all add: cmd)
  have detect: "mouse_common (mouse_detect x t) = mouse_common t" for x t by (simp add: mouse_detect_def)
  show ?thesis unfolding ps2_write_mouse_def split_beta Let_def using assms
    by (intro mouse_good_if mouse_good_cmd mouse_good_queues command) (simp_all add: detect)
qed

section \<open>The mouse reports its movement\<close>

text \<open>How a driver reads a packet of bytes.\<close>

definition packet_dx :: "u8 list \<Rightarrow> int" where
  "packet_dx p = uint (p ! 1) - (if bit (p ! 0) 4 then 256 else 0)"

definition packet_dy :: "u8 list \<Rightarrow> int" where
  "packet_dy p = uint (p ! 2) - (if bit (p ! 0) 5 then 256 else 0)"

definition packet_dz :: "u8 \<Rightarrow> u8 list \<Rightarrow> int" where
  "packet_dz type p = (if type = 3 then sint (p ! 3) else signed_take_bit 3 (uint (p ! 3)))"

definition packet_length :: "u8 \<Rightarrow> nat" where
  "packet_length type = (if type = 3 \<or> type = 4 then 4 else 3)"

lemma clamp_bounds: "0 \<le> m \<Longrightarrow> - m \<le> clamp m d \<and> clamp m d \<le> m"
  by (simp add: clamp_def)

lemma and_255: "(x :: int) AND 255 = x mod 256" and and_15: "(x :: int) AND 15 = x mod 16"
  using take_bit_eq_mask [of 8 x] take_bit_eq_mask [of 4 x]
  by (simp_all add: take_bit_eq_mod mask_eq_exp_minus_1)

lemma signed_byte: "- 127 \<le> d \<Longrightarrow> d \<le> 127 \<Longrightarrow> d mod 256 - (if d < 0 then 256 else 0) = (d :: int)"
proof (cases "d < 0")
  case True
  assume "- 127 \<le> d" "d \<le> 127"
  then have "(d + 256) mod 256 = d + 256" using True by (intro mod_pos_pos_trivial) simp_all
  then show ?thesis using True by simp
qed simp

lemma nibble: "take_bit 4 (take_bit 8 ((x AND 15) OR push_bit 1 (b AND 24))) = take_bit 4 (x :: int)"
proof (rule bit_eqI)
  fix n
  show "bit (take_bit 4 (take_bit 8 ((x AND 15) OR push_bit 1 (b AND 24)))) n = bit (take_bit 4 x) n"
  proof (cases "n < 4")
    case True
    then have "n \<in> {0, 1, 2, 3}" by auto
    then show ?thesis by (auto simp: bit_take_bit_iff bit_or_iff bit_and_iff bit_push_bit_iff)
  qed (simp only: bit_take_bit_iff simp_thms)
qed

lemma packet_decode:
  fixes s :: ps2_mouse_state
  defines "p \<equiv> map word_of_int (mouse_packet s) :: u8 list"
  shows "packet_dx p = clamp 127 (mouse_dx s)" "packet_dy p = clamp 127 (mouse_dy s)"
    "mouse_type s = 3 \<or> mouse_type s = 4 \<Longrightarrow> packet_dz (mouse_type s) p = mouse_packet_dz s"
    "length p = packet_length (mouse_type s)"
proof -
  let ?dx = "clamp 127 (mouse_dx s)" and ?dy = "clamp 127 (mouse_dy s)"
  have b: "bit (p ! 0) 4 = (?dx < 0)" "bit (p ! 0) 5 = (?dy < 0)"
    by (simp_all add: p_def mouse_packet_def Let_def bit_simps)
  have "p ! 1 = word_of_int (?dx AND 255)" "p ! 2 = word_of_int (?dy AND 255)"
    by (simp_all add: p_def mouse_packet_def Let_def)
  then have "uint (p ! 1) = ?dx mod 256" "uint (p ! 2) = ?dy mod 256"
    by (simp_all add: and_255 uint_word_of_int)
  then show "packet_dx p = ?dx" "packet_dy p = ?dy"
    using signed_byte [of ?dx] signed_byte [of ?dy] clamp_bounds [of 127]
    by (simp_all add: packet_dx_def packet_dy_def b)
  show "length p = packet_length (mouse_type s)"
    by (simp add: p_def mouse_packet_def packet_length_def Let_def)
  assume "mouse_type s = 3 \<or> mouse_type s = 4"
  then show "packet_dz (mouse_type s) p = mouse_packet_dz s"
  proof
    assume t: "mouse_type s = 3"
    then have "p ! 3 = word_of_int (clamp 127 (mouse_dz s) AND 255)"
      by (simp add: p_def mouse_packet_def mouse_packet_dz_def Let_def)
    then have "sint (p ! 3) = signed_take_bit 7 (take_bit 8 (clamp 127 (mouse_dz s)))"
      by (simp add: sint_uint uint_word_of_int and_255 take_bit_eq_mod)
    also have "\<dots> = signed_take_bit 7 (clamp 127 (mouse_dz s))"
      by (simp add: signed_take_bit_eq_iff_take_bit_eq)
    also have "\<dots> = clamp 127 (mouse_dz s)"
      using clamp_bounds [of 127 "mouse_dz s"] by (intro signed_take_bit_int_eq_self) simp_all
    finally show ?thesis using t by (simp add: packet_dz_def mouse_packet_dz_def)
  next
    assume t: "mouse_type s = 4"
    let ?dz = "clamp 7 (mouse_dz s)" and ?b = "uint (mouse_buttons s)"
    have "uint (p ! 3) = take_bit 8 ((?dz AND 15) OR push_bit 1 (?b AND 24))"
      using t by (simp add: p_def mouse_packet_def mouse_packet_dz_def Let_def uint_word_of_int take_bit_eq_mod)
    then have "take_bit 4 (uint (p ! 3)) = take_bit 4 ?dz"
      by (simp only: nibble)
    then have "signed_take_bit 3 (uint (p ! 3)) = signed_take_bit 3 ?dz"
      by (simp add: signed_take_bit_eq_iff_take_bit_eq)
    also have "\<dots> = ?dz"
      using clamp_bounds [of 7 "mouse_dz s"] by (intro signed_take_bit_int_eq_self) simp_all
    finally show ?thesis using t by (simp add: packet_dz_def mouse_packet_dz_def)
  qed
qed

text \<open>What sending all of the movement puts in the queue.\<close>

definition packets_of :: "ps2_mouse_state \<Rightarrow> u8 list list \<Rightarrow> bool" where
  "packets_of s ps \<longleftrightarrow> (\<Sum>p\<leftarrow>ps. packet_dx p) = mouse_dx s \<and> (\<Sum>p\<leftarrow>ps. packet_dy p) = mouse_dy s
     \<and> (mouse_type s = 3 \<or> mouse_type s = 4 \<longrightarrow> (\<Sum>p\<leftarrow>ps. packet_dz (mouse_type s) p) = mouse_dz s)
     \<and> (\<forall>p \<in> set ps. length p = packet_length (mouse_type s))"

lemma take_take_append: "take n (take n xs @ ys) = take n (xs @ ys)"
  by (cases "length xs \<le> n") simp_all

lemma clamp_step: "0 < m \<Longrightarrow> \<bar>d\<bar> \<le> m * int (Suc n) \<Longrightarrow> \<bar>d - clamp m d\<bar> \<le> m * int n"
  by (auto simp: clamp_def algebra_simps)

lemma mouse_packet_dz_step:
  "\<bar>mouse_dz s\<bar> \<le> 7 * int (Suc n) \<Longrightarrow> \<bar>mouse_dz s - mouse_packet_dz s\<bar> \<le> 7 * int n"
  by (auto simp: mouse_packet_dz_def clamp_def)

lemma ps2_mouse_send_all_packets:
  assumes "queue_ok (mouse_common s)"
  shows "\<exists>ps. packets_of s ps
    \<and> queue_elems (mouse_common (fst (ps2_mouse_send_all s))) = take 256 (queue_elems (mouse_common s) @ concat ps)
    \<and> (\<forall>n. \<bar>mouse_dx s\<bar> \<le> 127 * int n \<and> \<bar>mouse_dy s\<bar> \<le> 127 * int n \<and> \<bar>mouse_dz s\<bar> \<le> 7 * int n \<and> 0 < n
           \<longrightarrow> length ps \<le> n)
    \<and> mouse_left (fst (ps2_mouse_send_all s)) = 0"
  using assms
proof (induction s rule: ps2_mouse_send_all.induct)
  case (1 s)
  define r where "r = ps2_mouse_send_packet s"
  define p where "p = (map word_of_int (mouse_packet s) :: u8 list)"
  note dec = packet_decode [of s, folded p_def]
  have ok: "queue_ok (mouse_common (fst r))"
    using mouse_good_ok [OF mouse_good_packet [OF 1(2)]] by (simp only: r_def)
  have q: "queue_elems (mouse_common (fst r)) = take 256 (queue_elems (mouse_common s) @ p)"
    using ps2_queues_elems(2) [OF 1(2), of "mouse_packet s"] by (simp add: r_def p_def)
  show ?case
  proof (cases "mouse_dx (fst r) = 0 \<and> mouse_dy (fst r) = 0 \<and> mouse_dz (fst r) = 0")
    case True
    then have all: "ps2_mouse_send_all s = r" by (subst ps2_mouse_send_all.simps) (simp add: r_def Let_def del: mouse_send_packet_fields)
    have "packets_of s [p]" using dec True by (simp add: packets_of_def r_def)
    then show ?thesis using q True unfolding all by (intro exI [of _ "[p]"]) (simp add: mouse_left_def)
  next
    case False
    then have all: "fst (ps2_mouse_send_all s) = fst (ps2_mouse_send_all (fst r))"
      by (subst ps2_mouse_send_all.simps) (auto simp add: r_def Let_def simp del: mouse_send_packet_fields)
    from 1(1) [OF refl] False ok obtain ps where ps: "packets_of (fst r) ps"
      "queue_elems (mouse_common (fst (ps2_mouse_send_all (fst r)))) = take 256 (queue_elems (mouse_common (fst r)) @ concat ps)"
      "\<And>n. \<bar>mouse_dx (fst r)\<bar> \<le> 127 * int n \<and> \<bar>mouse_dy (fst r)\<bar> \<le> 127 * int n \<and> \<bar>mouse_dz (fst r)\<bar> \<le> 7 * int n \<and> 0 < n
           \<Longrightarrow> length ps \<le> n"
      "mouse_left (fst (ps2_mouse_send_all (fst r))) = 0"
      unfolding r_def by blast
    have "packets_of s (p # ps)" using ps(1) dec by (simp add: packets_of_def r_def)
    moreover have "length (p # ps) \<le> n" if n: "\<bar>mouse_dx s\<bar> \<le> 127 * int n" "\<bar>mouse_dy s\<bar> \<le> 127 * int n"
      "\<bar>mouse_dz s\<bar> \<le> 7 * int n" "0 < n" for n
    proof -
      obtain m where m: "n = Suc m" using n(4) by (cases n) auto
      have b: "\<bar>mouse_dx (fst r)\<bar> \<le> 127 * int m" "\<bar>mouse_dy (fst r)\<bar> \<le> 127 * int m" "\<bar>mouse_dz (fst r)\<bar> \<le> 7 * int m"
        using n clamp_step [of 127] mouse_packet_dz_step [of s m] unfolding m by (simp_all add: r_def)
      then have "0 < m" using False by (cases m) auto
      with ps(3) [of m] b m show ?thesis by simp
    qed
    moreover have "take 256 (queue_elems (mouse_common (fst r)) @ concat ps)
        = take 256 (queue_elems (mouse_common s) @ concat (p # ps))"
      unfolding q by (simp only: take_take_append append_assoc concat.simps)
    ultimately show ?thesis using ps(2,4) unfolding all by (intro exI [of _ "p # ps"]) (simp only:, blast)
  qed
qed

lemma mouse_event_sends:
  fixes dx dy dz b :: int
  assumes "mouse_status s AND MOUSE_STATUS_ENABLED \<noteq> 0" "mouse_status s AND MOUSE_STATUS_REMOTE = 0"
    "ps2_count (queue (mouse_common s)) < 240"
  defines "t \<equiv> s\<lparr>mouse_dx := mouse_dx s + dx, mouse_dy := mouse_dy s - dy, mouse_dz := mouse_dz s + dz,
      mouse_buttons := word_of_int b\<rparr>"
  shows "ps2_mouse_event dx dy dz b s =
    (if mouse_left t = 0 \<and> uint (mouse_buttons s) = b then
       (s\<lparr>mouse_dx := mouse_dx s + dx, mouse_dy := mouse_dy s - dy, mouse_dz := mouse_dz s + dz\<rparr>, [])
     else ps2_mouse_send_all t)"
  using assms by (auto simp: ps2_mouse_event_def Let_def PS2_QUEUE_SIZE_def mouse_left_def)

text \<open>
  C22: The packets add up to the movement. When a movement is reported to an enabled mouse in
  stream mode whose queue has room, and the movement is at most what four packets carry, the
  queue grows by whole packets in the format of the mouse type whose decoded displacements
  sum to the movement pending and reported, and nothing is left pending.
\<close>

theorem ps2_mouse_movement_reported:
  assumes "queue_ok (mouse_common s)" "mouse_status s AND MOUSE_STATUS_ENABLED \<noteq> 0"
    "mouse_status s AND MOUSE_STATUS_REMOTE = 0" "ps2_count (queue (mouse_common s)) < 240"
    "\<bar>mouse_dx s + dx\<bar> \<le> 508" "\<bar>mouse_dy s - dy\<bar> \<le> 508" "\<bar>mouse_dz s + dz\<bar> \<le> 28"
  shows "\<exists>ps. queue_elems (mouse_common (fst (ps2_mouse_event dx dy dz b s)))
        = queue_elems (mouse_common s) @ concat ps
    \<and> (\<forall>p \<in> set ps. length p = packet_length (mouse_type s))
    \<and> (\<Sum>p\<leftarrow>ps. packet_dx p) = mouse_dx s + dx \<and> (\<Sum>p\<leftarrow>ps. packet_dy p) = mouse_dy s - dy
    \<and> (mouse_type s = 3 \<or> mouse_type s = 4 \<longrightarrow> (\<Sum>p\<leftarrow>ps. packet_dz (mouse_type s) p) = mouse_dz s + dz)
    \<and> mouse_left (fst (ps2_mouse_event dx dy dz b s)) = 0"
proof -
  define t where "t = s\<lparr>mouse_dx := mouse_dx s + dx, mouse_dy := mouse_dy s - dy, mouse_dz := mouse_dz s + dz,
      mouse_buttons := word_of_int b\<rparr>"
  note ev = mouse_event_sends [OF assms(2-4), of dx dy dz b, folded t_def]
  have t: "mouse_common t = mouse_common s" "mouse_type t = mouse_type s" by (simp_all add: t_def)
  show ?thesis
  proof (cases "mouse_left t = 0 \<and> uint (mouse_buttons s) = b")
    case True
    then show ?thesis by (intro exI [of _ "[]"]) (auto simp: ev mouse_left_def t_def)
  next
    case False
    then have e: "ps2_mouse_event dx dy dz b s = ps2_mouse_send_all t" by (simp only: ev if_False)
    obtain ps where ps: "packets_of t ps"
      "queue_elems (mouse_common (fst (ps2_mouse_send_all t))) = take 256 (queue_elems (mouse_common s) @ concat ps)"
      "\<And>n. \<bar>mouse_dx t\<bar> \<le> 127 * int n \<and> \<bar>mouse_dy t\<bar> \<le> 127 * int n \<and> \<bar>mouse_dz t\<bar> \<le> 7 * int n \<and> 0 < n
         \<Longrightarrow> length ps \<le> n"
      "mouse_left (fst (ps2_mouse_send_all t)) = 0"
      using ps2_mouse_send_all_packets [of t] assms(1) unfolding t(1) by blast
    have "length ps \<le> 4" using ps(3) [of 4] assms(5-7) by (simp add: t_def)
    moreover have "length (concat ps) = length ps * packet_length (mouse_type s)"
      using ps(1) t(2) by (simp add: packets_of_def length_concat sum_list_triv map_idI cong: map_cong)
    ultimately have "length (queue_elems (mouse_common s) @ concat ps) \<le> 256"
      using assms(4) by (auto simp: packet_length_def)
    then show ?thesis unfolding e using ps(1,2,4) t(2) by (intro exI [of _ ps]) (auto simp: packets_of_def t_def)
  qed
qed

theorem ps2_mouse_movement_reported_witness:
  "\<exists>ps. queue_elems (mouse_common (fst (ps2_mouse_event 200 (-300) 5 1
      (ps2_mouse_init\<lparr>mouse_status := 0x20, mouse_type := 3\<rparr>)))) = concat ps
    \<and> (\<Sum>p\<leftarrow>ps. packet_dx p) = 200 \<and> (\<Sum>p\<leftarrow>ps. packet_dy p) = 300 \<and> (\<Sum>p\<leftarrow>ps. packet_dz 3 p) = 5"
proof -
  let ?s = "ps2_mouse_init\<lparr>mouse_status := 0x20, mouse_type := 3\<rparr>"
  have "queue_ok (mouse_common ?s)" "queue_elems (mouse_common ?s) = []" "ps2_count (queue (mouse_common ?s)) < 240"
    using ps2_state_zero_ok by (simp_all add: ps2_mouse_init_def ps2_state_zero_def)
  with ps2_mouse_movement_reported [of ?s 200 "-300" 5 1] show ?thesis
    by (auto simp: ps2_mouse_init_def mouse_bits)
qed

text \<open>
  A movement too large for the queue splits a packet. The room for a movement is tested
  once, before its first packet. With 239 bytes queued and a three-byte mouse, a movement of
  1536 or more to the right fills the queue: exactly 17 bytes of the packets are queued, so
  the last packet in the queue is cut short, and the rest of the movement is dropped although
  it no longer counts as pending.
\<close>

theorem ps2_mouse_splits_packet:
  assumes "queue_ok (mouse_common s)" "mouse_status s AND MOUSE_STATUS_ENABLED \<noteq> 0"
    "mouse_status s AND MOUSE_STATUS_REMOTE = 0" "ps2_count (queue (mouse_common s)) = 239"
    "mouse_type s = 0" "1536 \<le> mouse_dx s + dx"
  shows "\<exists>ps. queue_elems (mouse_common (fst (ps2_mouse_event dx dy dz b s)))
        = queue_elems (mouse_common s) @ take 17 (concat ps)
    \<and> (\<forall>p \<in> set ps. length p = 3) \<and> 17 < length (concat ps)
    \<and> (\<Sum>p\<leftarrow>ps. packet_dx p) = mouse_dx s + dx
    \<and> mouse_left (fst (ps2_mouse_event dx dy dz b s)) = 0"
proof -
  define t where "t = s\<lparr>mouse_dx := mouse_dx s + dx, mouse_dy := mouse_dy s - dy, mouse_dz := mouse_dz s + dz,
      mouse_buttons := word_of_int b\<rparr>"
  have "ps2_count (queue (mouse_common s)) < 240" using assms(4) by simp
  note ev = mouse_event_sends [OF assms(2,3) this, of dx dy dz b, folded t_def]
  have "mouse_dx t = mouse_dx s + dx" by (simp add: t_def)
  then have "mouse_left t \<noteq> 0" using assms(6) unfolding mouse_left_def by linarith
  then have e: "ps2_mouse_event dx dy dz b s = ps2_mouse_send_all t" unfolding ev by simp
  obtain ps where ps: "packets_of t ps"
      "queue_elems (mouse_common (fst (ps2_mouse_send_all t))) = take 256 (queue_elems (mouse_common s) @ concat ps)"
      "mouse_left (fst (ps2_mouse_send_all t)) = 0"
    using ps2_mouse_send_all_packets [of t] assms(1) by (auto simp: t_def)
  have len: "\<forall>p \<in> set ps. length p = 3" and sum: "(\<Sum>p\<leftarrow>ps. packet_dx p) = mouse_dx s + dx"
    using ps(1) assms(5) by (auto simp: packets_of_def t_def packet_length_def)
  have "packet_dx p \<le> 255" for p
    using unsigned_less [of "p ! 1", where ?'a = int] by (simp add: packet_dx_def)
  then have "(\<Sum>p\<leftarrow>ps. packet_dx p) \<le> 255 * int (length ps)" by (induction ps) (simp_all add: add_mono)
  then have "6 < length ps" using sum assms(6) by linarith
  moreover have "length (concat ps) = 3 * length ps" using len by (induction ps) auto
  ultimately have "17 < length (concat ps)" by linarith
  then show ?thesis unfolding e using ps(2,3) assms(4) len sum by (intro exI [of _ ps]) simp
qed

theorem ps2_mouse_splits_packet_witness:
  "\<exists>ps. queue_elems (mouse_common (fst (ps2_mouse_event 2000 0 0 0
      (ps2_mouse_init\<lparr>mouse_status := 0x20, mouse_common := fst (ps2_queues (replicate 239 0) ps2_state_zero)\<rparr>))))
      = replicate 239 0 @ take 17 (concat ps) \<and> 17 < length (concat ps)"
proof -
  let ?c = "fst (ps2_queues (replicate 239 0) ps2_state_zero)"
  let ?s = "ps2_mouse_init\<lparr>mouse_status := 0x20, mouse_common := ?c\<rparr>"
  have c: "queue_ok ?c" "queue_elems ?c = replicate 239 0"
    using ps2_queues_elems [OF ps2_state_zero_ok(1), of "replicate 239 0"] ps2_state_zero_ok(2)
    by (simp_all only: append_Nil map_replicate take_replicate of_int_0) simp
  have "ps2_count (queue ?c) = 239" using c(2) by (metis length_queue_elems length_replicate)
  with c ps2_mouse_splits_packet [of ?s 2000 0 0 0] show ?thesis
    by (auto simp: ps2_mouse_init_def mouse_bits)
qed

section \<open>The keyboard answers\<close>

lemma kbd_queues_elems:
  assumes "queue_ok (kbd_common s)" "ps2_count (queue (kbd_common s)) + length bs \<le> 256"
  shows "queue_elems (kbd_common (fst (kbd_queues bs s))) = queue_elems (kbd_common s) @ map word_of_int bs"
    "scancode_set (fst (kbd_queues bs s)) = scancode_set s"
  using ps2_queues_elems(2) [OF assms(1), of bs] assms(2) by (simp_all add: kbd_queues_def split_beta)

definition answers :: "ps2_kbd_state \<Rightarrow> ps2_kbd_state \<Rightarrow> bool" where
  "answers s t \<longleftrightarrow> (\<exists>bs. bs \<noteq> [] \<and> length bs \<le> 3
     \<and> queue_elems (kbd_common t) = queue_elems (kbd_common s) @ bs) \<and> scancode_set t \<in> {1, 2, 3}"

lemma answersI:
  assumes "queue_ok (kbd_common s')" "ps2_count (queue (kbd_common s')) \<le> 253"
    "queue_elems (kbd_common s') = queue_elems (kbd_common s)"
    "bs \<noteq> []" "length bs \<le> 3" "scancode_set s' \<in> {1, 2, 3}"
  shows "answers s (fst (kbd_queues bs s'))"
  using kbd_queues_elems [OF assms(1), of bs] assms(2-6)
  by (auto simp: answers_def intro!: exI [of _ "map word_of_int bs"])

lemma answers_cmd: "answers s t \<Longrightarrow> answers s (kbd_set_cmd c t)"
  by (simp add: answers_def kbd_set_cmd_def queue_elems_def)

lemma queue_elems_cmd [simp]: "queue_elems (s\<lparr>write_cmd := c\<rparr>) = queue_elems s"
  by (simp add: queue_elems_def)

lemma answers_if: "answers s (fst r1) \<Longrightarrow> answers s (fst r2) \<Longrightarrow> answers s (fst (if c then r1 else r2))"
  by simp

text \<open>
  The keyboard answers. Every byte written to a keyboard that is in one of the three
  scan code sets and has room for three bytes puts one to three bytes in its queue behind
  those already there, and leaves the keyboard in one of the three sets.
\<close>

theorem ps2_keyboard_answers:
  assumes "queue_ok (kbd_common s)" "ps2_count (queue (kbd_common s)) \<le> 253" "scancode_set s \<in> {1, 2, 3}"
  shows "\<exists>bs. bs \<noteq> [] \<and> length bs \<le> 3
      \<and> queue_elems (kbd_common (fst (ps2_write_keyboard v s))) = queue_elems (kbd_common s) @ bs
      \<and> scancode_set (fst (ps2_write_keyboard v s)) \<in> {1, 2, 3}"
proof -
  have command: "answers s (fst (ps2_kbd_command v s))" for v
    unfolding ps2_kbd_command_def
    by (intro answers_if answersI) (use assms in \<open>simp_all add: kbd_set_cmd_def ps2_reset_keyboard_def\<close>)
  have key: "answers s (fst (ps2_put_keycode k s))" for k
    unfolding ps2_put_keycode_def by (intro answers_if answersI) (use assms in simp_all)
  have set: "answers s (fst (kbd_queues [KBD_REPLY_ACK] (s\<lparr>scancode_set := v\<rparr>)))" if "1 \<le> v" "v \<le> 3"
    by (intro answersI) (use assms that in auto)
  have ack: "answers s (fst (kbd_queues [KBD_REPLY_ACK] s))"
    by (intro answersI) (use assms in auto)
  have "answers s (fst (ps2_write_keyboard v s))"
    using assms(3) by (auto simp: ps2_write_keyboard_def split_beta Let_def intro: answers_cmd command key ack set)
  then show ?thesis unfolding answers_def by blast
qed

theorem ps2_keyboard_answers_witness:
  "\<exists>bs. bs \<noteq> [] \<and> queue_elems (kbd_common (fst (ps2_write_keyboard 0xf2 ps2_kbd_init))) = bs"
proof -
  have "queue_ok (kbd_common ps2_kbd_init)" "queue_elems (kbd_common ps2_kbd_init) = []"
    "ps2_count (queue (kbd_common ps2_kbd_init)) \<le> 253" "scancode_set ps2_kbd_init \<in> {1, 2, 3}"
    using ps2_state_zero_ok by (simp_all add: ps2_kbd_init_def ps2_state_zero_def)
  with ps2_keyboard_answers [of ps2_kbd_init] show ?thesis by auto
qed

end
