(* ===== verification/Pckbd.thy ===== *)
theory Pckbd
  imports Ps2
begin

text \<open>
  The i8042 keyboard controller (\<open>hw/pckbd.c\<close>) with the keyboard and the mouse behind it.
  Operations return the new state and what they drive outside: the two interrupt lines, the
  A20 gate and the request to reset the machine. The PS/2 devices call
  \<open>kbd_update_kbd_irq\<close> and \<open>kbd_update_aux_irq\<close>, which only touch the controller, so
  the calls a device makes are replayed in order after the device's own operation. Shown are
  that the status register and the interrupt lines always tell what the two queues hold,
  and that the data port reads the two queues with the keyboard first.
\<close>

section \<open>Definitions\<close>

definition KBD_CCMD_READ_MODE :: "'a::len word" where "KBD_CCMD_READ_MODE = 0x20"

definition KBD_CCMD_WRITE_MODE :: "'a::len word" where "KBD_CCMD_WRITE_MODE = 0x60"

definition KBD_CCMD_MOUSE_DISABLE :: "'a::len word" where "KBD_CCMD_MOUSE_DISABLE = 0xA7"

definition KBD_CCMD_MOUSE_ENABLE :: "'a::len word" where "KBD_CCMD_MOUSE_ENABLE = 0xA8"

definition KBD_CCMD_TEST_MOUSE :: "'a::len word" where "KBD_CCMD_TEST_MOUSE = 0xA9"

definition KBD_CCMD_SELF_TEST :: "'a::len word" where "KBD_CCMD_SELF_TEST = 0xAA"

definition KBD_CCMD_KBD_TEST :: "'a::len word" where "KBD_CCMD_KBD_TEST = 0xAB"

definition KBD_CCMD_KBD_DISABLE :: "'a::len word" where "KBD_CCMD_KBD_DISABLE = 0xAD"

definition KBD_CCMD_KBD_ENABLE :: "'a::len word" where "KBD_CCMD_KBD_ENABLE = 0xAE"

definition KBD_CCMD_READ_INPORT :: "'a::len word" where "KBD_CCMD_READ_INPORT = 0xC0"

definition KBD_CCMD_READ_OUTPORT :: "'a::len word" where "KBD_CCMD_READ_OUTPORT = 0xD0"

definition KBD_CCMD_WRITE_OUTPORT :: "'a::len word" where "KBD_CCMD_WRITE_OUTPORT = 0xD1"

definition KBD_CCMD_WRITE_OBUF :: "'a::len word" where "KBD_CCMD_WRITE_OBUF = 0xD2"

definition KBD_CCMD_WRITE_AUX_OBUF :: "'a::len word" where "KBD_CCMD_WRITE_AUX_OBUF = 0xD3"

definition KBD_CCMD_WRITE_MOUSE :: "'a::len word" where "KBD_CCMD_WRITE_MOUSE = 0xD4"

definition KBD_CCMD_DISABLE_A20 :: "'a::len word" where "KBD_CCMD_DISABLE_A20 = 0xDD"

definition KBD_CCMD_ENABLE_A20 :: "'a::len word" where "KBD_CCMD_ENABLE_A20 = 0xDF"

definition KBD_CCMD_PULSE_BITS_3_0 :: "'a::len word" where "KBD_CCMD_PULSE_BITS_3_0 = 0xF0"

definition KBD_CCMD_RESET :: "'a::len word" where "KBD_CCMD_RESET = 0xFE"

definition KBD_CCMD_NO_OP :: "'a::len word" where "KBD_CCMD_NO_OP = 0xFF"

definition KBD_STAT_OBF :: u8 where "KBD_STAT_OBF = 0x01"

definition KBD_STAT_SELFTEST :: u8 where "KBD_STAT_SELFTEST = 0x04"

definition KBD_STAT_CMD :: u8 where "KBD_STAT_CMD = 0x08"

definition KBD_STAT_UNLOCKED :: u8 where "KBD_STAT_UNLOCKED = 0x10"

definition KBD_STAT_MOUSE_OBF :: u8 where "KBD_STAT_MOUSE_OBF = 0x20"

definition KBD_MODE_KBD_INT :: u8 where "KBD_MODE_KBD_INT = 0x01"

definition KBD_MODE_MOUSE_INT :: u8 where "KBD_MODE_MOUSE_INT = 0x02"

definition KBD_MODE_DISABLE_KBD :: u8 where "KBD_MODE_DISABLE_KBD = 0x10"

definition KBD_MODE_DISABLE_MOUSE :: u8 where "KBD_MODE_DISABLE_MOUSE = 0x20"

definition KBD_MODE_KCC :: u8 where "KBD_MODE_KCC = 0x40"

definition KBD_OUT_RESET :: u8 where "KBD_OUT_RESET = 0x01"

definition KBD_OUT_A20 :: u8 where "KBD_OUT_A20 = 0x02"

definition KBD_OUT_OBF :: u8 where "KBD_OUT_OBF = 0x10"

definition KBD_OUT_MOUSE_OBF :: u8 where "KBD_OUT_MOUSE_OBF = 0x20"

definition KBD_PENDING_KBD :: u8 where "KBD_PENDING_KBD = 1"

definition KBD_PENDING_AUX :: u8 where "KBD_PENDING_AUX = 2"

lemmas kbd_ccmds = KBD_CCMD_READ_MODE_def KBD_CCMD_WRITE_MODE_def KBD_CCMD_MOUSE_DISABLE_def
  KBD_CCMD_MOUSE_ENABLE_def KBD_CCMD_TEST_MOUSE_def KBD_CCMD_SELF_TEST_def KBD_CCMD_KBD_TEST_def
  KBD_CCMD_KBD_DISABLE_def KBD_CCMD_KBD_ENABLE_def KBD_CCMD_READ_INPORT_def
  KBD_CCMD_READ_OUTPORT_def KBD_CCMD_WRITE_OUTPORT_def KBD_CCMD_WRITE_OBUF_def
  KBD_CCMD_WRITE_AUX_OBUF_def KBD_CCMD_WRITE_MOUSE_def KBD_CCMD_DISABLE_A20_def
  KBD_CCMD_ENABLE_A20_def KBD_CCMD_PULSE_BITS_3_0_def KBD_CCMD_RESET_def KBD_CCMD_NO_OP_def

lemmas kbd_bits = KBD_STAT_OBF_def KBD_STAT_SELFTEST_def KBD_STAT_CMD_def KBD_STAT_UNLOCKED_def
  KBD_STAT_MOUSE_OBF_def KBD_MODE_KBD_INT_def KBD_MODE_MOUSE_INT_def KBD_MODE_DISABLE_KBD_def
  KBD_MODE_DISABLE_MOUSE_def KBD_MODE_KCC_def KBD_OUT_RESET_def KBD_OUT_A20_def KBD_OUT_OBF_def
  KBD_OUT_MOUSE_OBF_def KBD_PENDING_KBD_def KBD_PENDING_AUX_def

record kbd_state =
  ctl_write_cmd :: u8
  ctl_status :: u8
  ctl_mode :: u8
  outport :: u8
  pending :: u8
  kbd :: ps2_kbd_state
  mouse :: ps2_mouse_state
  a20_out :: bool

datatype kbd_out = IrqKbd int | IrqMouse int | A20Out int | SystemReset

definition kbd_update_irq :: "kbd_state \<Rightarrow> kbd_state \<times> kbd_out list" where
  "kbd_update_irq s =
     (let s = s\<lparr>ctl_status := ctl_status s AND NOT (KBD_STAT_OBF OR KBD_STAT_MOUSE_OBF),
                outport := outport s AND NOT (KBD_OUT_OBF OR KBD_OUT_MOUSE_OBF)\<rparr>
      in if pending s \<noteq> 0 then
           (let s = s\<lparr>ctl_status := ctl_status s OR KBD_STAT_OBF, outport := outport s OR KBD_OUT_OBF\<rparr>
            in if pending s = KBD_PENDING_AUX then
                 (s\<lparr>ctl_status := ctl_status s OR KBD_STAT_MOUSE_OBF,
                    outport := outport s OR KBD_OUT_MOUSE_OBF\<rparr>,
                  [IrqKbd 0, IrqMouse (c_bool (ctl_mode s AND KBD_MODE_MOUSE_INT \<noteq> 0))])
               else
                 (s, [IrqKbd (c_bool (ctl_mode s AND KBD_MODE_KBD_INT \<noteq> 0
                                \<and> ctl_mode s AND KBD_MODE_DISABLE_KBD = 0)), IrqMouse 0]))
         else (s, [IrqKbd 0, IrqMouse 0]))"

definition kbd_update_kbd_irq :: "int \<Rightarrow> kbd_state \<Rightarrow> kbd_state \<times> kbd_out list" where
  "kbd_update_kbd_irq level s =
     kbd_update_irq (if level \<noteq> 0 then s\<lparr>pending := pending s OR KBD_PENDING_KBD\<rparr>
                     else s\<lparr>pending := pending s AND NOT KBD_PENDING_KBD\<rparr>)"

definition kbd_update_aux_irq :: "int \<Rightarrow> kbd_state \<Rightarrow> kbd_state \<times> kbd_out list" where
  "kbd_update_aux_irq level s =
     kbd_update_irq (if level \<noteq> 0 then s\<lparr>pending := pending s OR KBD_PENDING_AUX\<rparr>
                     else s\<lparr>pending := pending s AND NOT KBD_PENDING_AUX\<rparr>)"

text \<open>The calls of one device, in order.\<close>

primrec kbd_calls :: "(int \<Rightarrow> kbd_state \<Rightarrow> kbd_state \<times> kbd_out list) \<Rightarrow> int list \<Rightarrow> kbd_state
    \<Rightarrow> kbd_state \<times> kbd_out list" where
  "kbd_calls f [] s = (s, [])"
| "kbd_calls f (l # ls) s =
     (let (s, out1) = f l s; (s, out2) = kbd_calls f ls s in (s, out1 @ out2))"

definition on_kbd :: "(ps2_kbd_state \<Rightarrow> ps2_kbd_state \<times> int list) \<Rightarrow> kbd_state \<Rightarrow> kbd_state \<times> kbd_out list" where
  "on_kbd f s = (let (k, ls) = f (kbd s) in kbd_calls kbd_update_kbd_irq ls (s\<lparr>kbd := k\<rparr>))"

definition on_mouse :: "(ps2_mouse_state \<Rightarrow> ps2_mouse_state \<times> int list) \<Rightarrow> kbd_state \<Rightarrow> kbd_state \<times> kbd_out list" where
  "on_mouse f s = (let (m, ls) = f (mouse s) in kbd_calls kbd_update_aux_irq ls (s\<lparr>mouse := m\<rparr>))"

definition kbd_read_status :: "kbd_state \<Rightarrow> u32" where
  "kbd_read_status s = ucast (ctl_status s)"

definition kbd_queue :: "int \<Rightarrow> bool \<Rightarrow> kbd_state \<Rightarrow> kbd_state \<times> kbd_out list" where
  "kbd_queue b aux s = (if aux then on_mouse (mouse_queues [b]) s else on_kbd (kbd_queues [b]) s)"

definition outport_write :: "u32 \<Rightarrow> kbd_state \<Rightarrow> kbd_state \<times> kbd_out list" where
  "outport_write val s =
     (s\<lparr>outport := ucast val\<rparr>,
      (if a20_out s then [A20Out (sint (drop_bit 1 val AND 1))] else []) @
      (if val AND 1 = 0 then [SystemReset] else []))"

text \<open>An unsupported command only prints a message.\<close>

definition kbd_write_command :: "u32 \<Rightarrow> kbd_state \<Rightarrow> kbd_state \<times> kbd_out list" where
  "kbd_write_command val s =
     (let val = (if val AND KBD_CCMD_PULSE_BITS_3_0 = KBD_CCMD_PULSE_BITS_3_0
                 then (if val AND 1 = 0 then KBD_CCMD_RESET else KBD_CCMD_NO_OP) else val)
      in if val = KBD_CCMD_READ_MODE then kbd_queue (uint (ctl_mode s)) False s
         else if val = KBD_CCMD_WRITE_MODE \<or> val = KBD_CCMD_WRITE_OBUF \<or> val = KBD_CCMD_WRITE_AUX_OBUF
              \<or> val = KBD_CCMD_WRITE_MOUSE \<or> val = KBD_CCMD_WRITE_OUTPORT then
           (s\<lparr>ctl_write_cmd := ucast val\<rparr>, [])
         else if val = KBD_CCMD_MOUSE_DISABLE then
           (s\<lparr>ctl_mode := ctl_mode s OR KBD_MODE_DISABLE_MOUSE\<rparr>, [])
         else if val = KBD_CCMD_MOUSE_ENABLE then
           (s\<lparr>ctl_mode := ctl_mode s AND NOT KBD_MODE_DISABLE_MOUSE\<rparr>, [])
         else if val = KBD_CCMD_TEST_MOUSE then kbd_queue 0x00 False s
         else if val = KBD_CCMD_SELF_TEST then
           kbd_queue 0x55 False (s\<lparr>ctl_status := ctl_status s OR KBD_STAT_SELFTEST\<rparr>)
         else if val = KBD_CCMD_KBD_TEST then kbd_queue 0x00 False s
         else if val = KBD_CCMD_KBD_DISABLE then
           kbd_update_irq (s\<lparr>ctl_mode := ctl_mode s OR KBD_MODE_DISABLE_KBD\<rparr>)
         else if val = KBD_CCMD_KBD_ENABLE then
           kbd_update_irq (s\<lparr>ctl_mode := ctl_mode s AND NOT KBD_MODE_DISABLE_KBD\<rparr>)
         else if val = KBD_CCMD_READ_INPORT then kbd_queue 0x00 False s
         else if val = KBD_CCMD_READ_OUTPORT then kbd_queue (uint (outport s)) False s
         else if val = KBD_CCMD_ENABLE_A20 then
           (s\<lparr>outport := outport s OR KBD_OUT_A20\<rparr>, if a20_out s then [A20Out 1] else [])
         else if val = KBD_CCMD_DISABLE_A20 then
           (s\<lparr>outport := outport s AND NOT KBD_OUT_A20\<rparr>, if a20_out s then [A20Out 0] else [])
         else if val = KBD_CCMD_RESET then (s, [SystemReset])
         else (s, []))"

definition kbd_read_data :: "kbd_state \<Rightarrow> u32 \<times> kbd_state \<times> kbd_out list" where
  "kbd_read_data s =
     (if pending s = KBD_PENDING_AUX then
        (let (val, c, ls) = ps2_read_data (mouse_common (mouse s))
         in (val, on_mouse (\<lambda>m. (m\<lparr>mouse_common := c\<rparr>, ls)) s))
      else
        (let (val, c, ls) = ps2_read_data (kbd_common (kbd s))
         in (val, on_kbd (\<lambda>k. (k\<lparr>kbd_common := c\<rparr>, ls)) s)))"

definition kbd_write_data :: "u32 \<Rightarrow> kbd_state \<Rightarrow> kbd_state \<times> kbd_out list" where
  "kbd_write_data val s =
     (let r = (if ctl_write_cmd s = 0 then on_kbd (ps2_write_keyboard (sint val)) s
               else if ctl_write_cmd s = KBD_CCMD_WRITE_MODE then
                 (let s = s\<lparr>ctl_mode := ucast val\<rparr>;
                      s = s\<lparr>kbd := ps2_keyboard_set_translation (c_bool (ctl_mode s AND KBD_MODE_KCC \<noteq> 0)) (kbd s)\<rparr>
                  in kbd_update_irq s)
               else if ctl_write_cmd s = KBD_CCMD_WRITE_OBUF then kbd_queue (sint val) False s
               else if ctl_write_cmd s = KBD_CCMD_WRITE_AUX_OBUF then kbd_queue (sint val) True s
               else if ctl_write_cmd s = KBD_CCMD_WRITE_OUTPORT then outport_write val s
               else if ctl_write_cmd s = KBD_CCMD_WRITE_MOUSE then on_mouse (ps2_write_mouse (sint val)) s
               else (s, []))
      in ((fst r)\<lparr>ctl_write_cmd := 0\<rparr>, snd r))"

definition kbd_reset :: "kbd_state \<Rightarrow> kbd_state" where
  "kbd_reset s = s\<lparr>ctl_mode := KBD_MODE_KBD_INT OR KBD_MODE_MOUSE_INT,
     ctl_status := KBD_STAT_CMD OR KBD_STAT_UNLOCKED, outport := KBD_OUT_RESET OR KBD_OUT_A20\<rparr>"

text \<open>
  A reset of the machine runs the reset handlers in the order \<open>i8042_initfn\<close> registers
  them: keyboard, mouse, controller.
\<close>

definition i8042_reset :: "kbd_state \<Rightarrow> kbd_state \<times> kbd_out list" where
  "i8042_reset s =
     (let (s, out1) = on_kbd ps2_kbd_reset s; (s, out2) = on_mouse ps2_mouse_reset s
      in (kbd_reset s, out1 @ out2))"

definition kbd_mm_readb :: "u64 \<Rightarrow> u64 \<Rightarrow> kbd_state \<Rightarrow> u32 \<times> kbd_state \<times> kbd_out list" where
  "kbd_mm_readb mem_mask addr s =
     (if addr AND mem_mask \<noteq> 0 then (kbd_read_status s AND 0xff, s, [])
      else (let (val, r) = kbd_read_data s in (val AND 0xff, r)))"

definition kbd_mm_writeb :: "u64 \<Rightarrow> u64 \<Rightarrow> u32 \<Rightarrow> kbd_state \<Rightarrow> kbd_state \<times> kbd_out list" where
  "kbd_mm_writeb mem_mask addr value s =
     (if addr AND mem_mask \<noteq> 0 then kbd_write_command (value AND 0xff) s
      else kbd_write_data (value AND 0xff) s)"

definition i8042_isa_mouse_fake_event :: "kbd_state \<Rightarrow> kbd_state \<times> kbd_out list" where
  "i8042_isa_mouse_fake_event s = on_mouse ps2_mouse_fake_event s"

definition i8042_setup_a20_line :: "kbd_state \<Rightarrow> kbd_state" where
  "i8042_setup_a20_line s = s\<lparr>a20_out := True\<rparr>"

definition i8042_initfn :: kbd_state where
  "i8042_initfn = \<lparr>ctl_write_cmd = 0, ctl_status = 0, ctl_mode = 0, outport = 0, pending = 0,
     kbd = ps2_kbd_init, mouse = ps2_mouse_init, a20_out = False\<rparr>"

section \<open>Status register and interrupt lines\<close>

text \<open>
  The levels the two lines must have, the levels a list of calls leaves on them, and the
  agreement of the controller with whether the keyboard (\<open>a\<close>) and the mouse (\<open>b\<close>) hold data.
\<close>

definition levels :: "kbd_state \<Rightarrow> int \<times> int" where
  "levels s =
     (c_bool (pending s \<noteq> 0 \<and> pending s \<noteq> KBD_PENDING_AUX \<and> ctl_mode s AND KBD_MODE_KBD_INT \<noteq> 0
        \<and> ctl_mode s AND KBD_MODE_DISABLE_KBD = 0),
      c_bool (pending s = KBD_PENDING_AUX \<and> ctl_mode s AND KBD_MODE_MOUSE_INT \<noteq> 0))"

fun line_after :: "int \<times> int \<Rightarrow> kbd_out \<Rightarrow> int \<times> int" where
  "line_after (k, m) (IrqKbd l) = (l, m)"
| "line_after (k, m) (IrqMouse l) = (k, l)"
| "line_after (k, m) (A20Out l) = (k, m)"
| "line_after (k, m) SystemReset = (k, m)"

definition lines_after :: "int \<times> int \<Rightarrow> kbd_out list \<Rightarrow> int \<times> int" where
  "lines_after l out = foldl line_after l out"

lemma lines_after_simps [simp]:
  "lines_after l [] = l" "lines_after l (x # xs) = lines_after (line_after l x) xs"
  "lines_after l (xs @ ys) = lines_after (lines_after l xs) ys"
  by (simp_all add: lines_after_def)

lemma line_after_lines [simp]: "line_after (line_after l (IrqKbd x)) (IrqMouse y) = (x, y)"
  "line_after l (A20Out x) = l" "line_after l SystemReset = l"
  by (cases l; simp)+

definition pending_of :: "bool \<Rightarrow> bool \<Rightarrow> u8" where
  "pending_of a b = (if a then 1 else 0) OR (if b then 2 else 0)"

definition ctl_ok :: "kbd_state \<Rightarrow> bool \<Rightarrow> bool \<Rightarrow> bool" where
  "ctl_ok s a b \<longleftrightarrow> pending s = pending_of a b
     \<and> bit (ctl_status s) 0 = (a \<or> b) \<and> bit (ctl_status s) 5 = (b \<and> \<not> a)"

lemma kbd_update_irq_fields [simp]:
  "pending (fst (kbd_update_irq s)) = pending s" "ctl_mode (fst (kbd_update_irq s)) = ctl_mode s"
  "kbd (fst (kbd_update_irq s)) = kbd s" "mouse (fst (kbd_update_irq s)) = mouse s"
  "ctl_write_cmd (fst (kbd_update_irq s)) = ctl_write_cmd s"
  by (simp_all add: kbd_update_irq_def Let_def)

lemma levels_update [simp]: "levels (fst (kbd_update_irq s)) = levels s"
  by (simp add: levels_def)

lemma kbd_update_irq_ok:
  assumes "pending s = pending_of a b"
  shows "ctl_ok (fst (kbd_update_irq s)) a b" "lines_after l (snd (kbd_update_irq s)) = levels s"
  using assms
  by (cases a; cases b; simp add: ctl_ok_def pending_of_def kbd_update_irq_def levels_def kbd_bits bit_simps Let_def)+

lemma pending_update:
  "pending_of a b OR KBD_PENDING_KBD = pending_of True b"
  "pending_of a b AND NOT KBD_PENDING_KBD = pending_of False b"
  "pending_of a b OR KBD_PENDING_AUX = pending_of a True"
  "pending_of a b AND NOT KBD_PENDING_AUX = pending_of a False"
  by (cases a; cases b; simp add: pending_of_def kbd_bits)+

text \<open>Replaying the calls of a device keeps the agreement, with the last level of that device.\<close>

lemma kbd_calls_kbd:
  fixes ls :: "int list"
  assumes "ctl_ok s a b"
  defines "r \<equiv> kbd_calls kbd_update_kbd_irq ls s"
  shows "ctl_ok (fst r) (level_after (c_bool a) ls \<noteq> 0) b \<and> lines_after (levels s) (snd r) = levels (fst r)
    \<and> kbd (fst r) = kbd s \<and> mouse (fst r) = mouse s \<and> ctl_mode (fst r) = ctl_mode s"
  using assms(1) unfolding r_def
proof (induction ls arbitrary: s a)
  case (Cons l ls)
  let ?t = "if l \<noteq> 0 then s\<lparr>pending := pending s OR KBD_PENDING_KBD\<rparr> else s\<lparr>pending := pending s AND NOT KBD_PENDING_KBD\<rparr>"
  have "pending ?t = pending_of (l \<noteq> 0) b" using Cons.prems by (simp add: ctl_ok_def pending_update)
  note ok = kbd_update_irq_ok [OF this]
  from Cons.IH [OF ok(1)] ok(2) [of "levels s"] show ?case
    by (cases "l = 0"; cases ls) (simp_all add: kbd_update_kbd_irq_def split_beta Let_def)
qed simp

lemma kbd_calls_aux:
  fixes ls :: "int list"
  assumes "ctl_ok s a b"
  defines "r \<equiv> kbd_calls kbd_update_aux_irq ls s"
  shows "ctl_ok (fst r) a (level_after (c_bool b) ls \<noteq> 0) \<and> lines_after (levels s) (snd r) = levels (fst r)
    \<and> kbd (fst r) = kbd s \<and> mouse (fst r) = mouse s \<and> ctl_mode (fst r) = ctl_mode s"
  using assms(1) unfolding r_def
proof (induction ls arbitrary: s b)
  case (Cons l ls)
  let ?t = "if l \<noteq> 0 then s\<lparr>pending := pending s OR KBD_PENDING_AUX\<rparr> else s\<lparr>pending := pending s AND NOT KBD_PENDING_AUX\<rparr>"
  have "pending ?t = pending_of a (l \<noteq> 0)" using Cons.prems by (simp add: ctl_ok_def pending_update)
  note ok = kbd_update_irq_ok [OF this]
  from Cons.IH [OF ok(1)] ok(2) [of "levels s"] show ?case
    by (cases "l = 0"; cases ls) (simp_all add: kbd_update_aux_irq_def split_beta Let_def)
qed simp

section \<open>Every operation\<close>

definition kbd_wf :: "kbd_state \<Rightarrow> bool" where
  "kbd_wf s \<longleftrightarrow> queue_ok (kbd_common (kbd s)) \<and> queue_ok (mouse_common (mouse s))
     \<and> ctl_ok s (has_data (kbd_common (kbd s)) \<noteq> 0) (has_data (mouse_common (mouse s)) \<noteq> 0)"

text \<open>An operation from \<open>s\<close> is good when it keeps the invariant and leaves the lines right.\<close>

definition good :: "kbd_state \<Rightarrow> kbd_state \<times> kbd_out list \<Rightarrow> bool" where
  "good s r \<longleftrightarrow> kbd_wf (fst r) \<and> lines_after (levels s) (snd r) = levels (fst r)"

lemma goodI: "kbd_wf t \<Longrightarrow> levels t = lines_after (levels s) out \<Longrightarrow> good s (t, out)"
  by (simp add: good_def)

lemma good_if: "good s r1 \<Longrightarrow> good s r2 \<Longrightarrow> good s (if c then r1 else r2)"
  by simp

lemma has_data_bool: "c_bool (has_data s \<noteq> 0) = has_data s"
  by (simp add: has_data_def)

lemma good_on_kbd:
  assumes "kbd_wf s" "kbd_good (kbd s) (f (kbd s))"
  shows "good s (on_kbd f s)"
proof -
  obtain k ls where f: "f (kbd s) = (k, ls)" by (cases "f (kbd s)")
  let ?s = "s\<lparr>kbd := k\<rparr>"
  have "ctl_ok ?s (has_data (kbd_common (kbd s)) \<noteq> 0) (has_data (mouse_common (mouse s)) \<noteq> 0)"
    using assms(1) by (simp add: kbd_wf_def ctl_ok_def)
  moreover have "levels ?s = levels s" by (simp add: levels_def)
  moreover have "queue_ok (kbd_common k)" "level_after (has_data (kbd_common (kbd s))) ls = has_data (kbd_common k)"
    using assms(2) by (simp_all add: f kbd_good_def ps2_good_def)
  ultimately show ?thesis using assms(1) kbd_calls_kbd [of ?s _ _ ls]
    by (fastforce simp: good_def on_kbd_def f kbd_wf_def has_data_bool)
qed

lemma good_on_mouse:
  assumes "kbd_wf s" "mouse_good (mouse s) (f (mouse s))"
  shows "good s (on_mouse f s)"
proof -
  obtain m ls where f: "f (mouse s) = (m, ls)" by (cases "f (mouse s)")
  let ?s = "s\<lparr>mouse := m\<rparr>"
  have "ctl_ok ?s (has_data (kbd_common (kbd s)) \<noteq> 0) (has_data (mouse_common (mouse s)) \<noteq> 0)"
    using assms(1) by (simp add: kbd_wf_def ctl_ok_def)
  moreover have "levels ?s = levels s" by (simp add: levels_def)
  moreover have "queue_ok (mouse_common m)" "level_after (has_data (mouse_common (mouse s))) ls = has_data (mouse_common m)"
    using assms(2) by (simp_all add: f mouse_good_def ps2_good_def)
  ultimately show ?thesis using assms(1) kbd_calls_aux [of ?s _ _ ls]
    by (fastforce simp: good_def on_mouse_def f kbd_wf_def has_data_bool)
qed

lemma good_queue: "kbd_wf s \<Longrightarrow> good s (kbd_queue b aux s)"
  unfolding kbd_queue_def
  by (intro good_if good_on_mouse good_on_kbd kbd_good_queues mouse_good_queues) (simp_all add: kbd_wf_def)

lemma good_update_irq: "kbd_wf s \<Longrightarrow> good t (kbd_update_irq s)"
  using kbd_update_irq_ok [of s] by (auto simp: good_def kbd_wf_def ctl_ok_def)

lemma good_levels: "levels s' = levels s \<Longrightarrow> good s' r \<Longrightarrow> good s r"
  by (simp add: good_def)

lemma kbd_calls_devices [simp]:
  "kbd (fst (kbd_calls kbd_update_kbd_irq ls s)) = kbd s" "mouse (fst (kbd_calls kbd_update_kbd_irq ls s)) = mouse s"
  "kbd (fst (kbd_calls kbd_update_aux_irq ls s)) = kbd s" "mouse (fst (kbd_calls kbd_update_aux_irq ls s)) = mouse s"
  by (induction ls arbitrary: s) (simp_all add: split_beta kbd_update_kbd_irq_def kbd_update_aux_irq_def)

lemma on_devices [simp]:
  "kbd (fst (on_kbd f s)) = fst (f (kbd s))" "mouse (fst (on_kbd f s)) = mouse s"
  "kbd (fst (on_mouse g s)) = kbd s" "mouse (fst (on_mouse g s)) = fst (g (mouse s))"
  by (simp_all add: on_kbd_def on_mouse_def split_beta)

lemma kbd_wf_fields [simp]:
  "kbd_wf (s\<lparr>ctl_mode := m\<rparr>) = kbd_wf s" "kbd_wf (s\<lparr>outport := p\<rparr>) = kbd_wf s"
  "kbd_wf (s\<lparr>ctl_write_cmd := c\<rparr>) = kbd_wf s" "kbd_wf (s\<lparr>a20_out := x\<rparr>) = kbd_wf s"
  "kbd_wf (s\<lparr>ctl_status := ctl_status s OR KBD_STAT_SELFTEST\<rparr>) = kbd_wf s"
  by (simp_all add: kbd_wf_def ctl_ok_def kbd_bits bit_simps)

lemma levels_fields [simp]:
  "levels (s\<lparr>outport := p\<rparr>) = levels s" "levels (s\<lparr>ctl_write_cmd := c\<rparr>) = levels s"
  "levels (s\<lparr>a20_out := x\<rparr>) = levels s" "levels (s\<lparr>ctl_status := y\<rparr>) = levels s"
  "levels (s\<lparr>ctl_mode := ctl_mode s OR KBD_MODE_DISABLE_MOUSE\<rparr>) = levels s"
  "levels (s\<lparr>ctl_mode := ctl_mode s AND NOT KBD_MODE_DISABLE_MOUSE\<rparr>) = levels s"
  by (simp_all add: levels_def kbd_bits bit.conj_disj_distrib2 and.assoc)

lemma good_refl: "kbd_wf t \<Longrightarrow> levels t = levels s \<Longrightarrow> good s (t, [])"
  by (rule goodI) simp_all

lemma good_outside: "kbd_wf t \<Longrightarrow> levels t = levels s \<Longrightarrow> \<forall>x \<in> set out. (\<exists>l. x = A20Out l) \<or> x = SystemReset
    \<Longrightarrow> good s (t, out)"
proof -
  assume *: "kbd_wf t" "levels t = levels s" "\<forall>x \<in> set out. (\<exists>l. x = A20Out l) \<or> x = SystemReset"
  from *(3) have "lines_after l out = l" for l by (induction out) auto
  with * show "good s (t, out)" by (intro goodI) simp_all
qed

lemma good_write_command:
  assumes "kbd_wf s"
  shows "good s (kbd_write_command val s)"
proof -
  have self: "good s (kbd_queue 0x55 False (s\<lparr>ctl_status := ctl_status s OR KBD_STAT_SELFTEST\<rparr>))"
    by (rule good_levels [OF _ good_queue]) (simp_all add: assms)
  show ?thesis unfolding kbd_write_command_def Let_def
    by (intro good_if good_queue good_refl good_outside good_update_irq self) (simp_all add: assms)
qed

lemma good_outport_write: "kbd_wf s \<Longrightarrow> good s (outport_write val s)"
  unfolding outport_write_def by (intro good_outside) auto

lemma good_write_data:
  assumes "kbd_wf s"
  shows "good s (kbd_write_data val s)"
proof -
  let ?m = "s\<lparr>ctl_mode := ucast val\<rparr>"
  have q: "queue_ok (kbd_common (kbd s))" "queue_ok (mouse_common (mouse s))" using assms by (simp_all add: kbd_wf_def)
  have tr: "kbd_wf (?m\<lparr>kbd := ps2_keyboard_set_translation x (kbd s)\<rparr>)" for x
    using assms by (simp add: kbd_wf_def ctl_ok_def ps2_keyboard_set_translation_def)
  have wc: "good s r \<Longrightarrow> good s ((fst r)\<lparr>ctl_write_cmd := 0\<rparr>, snd r)" for r
    by (simp add: good_def)
  show ?thesis unfolding kbd_write_data_def Let_def
    by (intro wc good_if good_on_kbd good_on_mouse kbd_good_write mouse_good_write good_update_irq good_queue
        good_outport_write good_refl assms q refl) (simp add: tr)
qed

lemma good_read_data:
  assumes "kbd_wf s"
  shows "good s (snd (kbd_read_data s))"
proof -
  have q: "queue_ok (kbd_common (kbd s))" "queue_ok (mouse_common (mouse s))" using assms by (simp_all add: kbd_wf_def)
  show ?thesis using ps2_good_read [OF q(1)] ps2_good_read [OF q(2)] assms
    by (auto simp: kbd_read_data_def split_beta kbd_good_def mouse_good_def intro!: good_on_kbd good_on_mouse)
qed

lemma good_trans: "good s (t, out1) \<Longrightarrow> good t (u, out2) \<Longrightarrow> good s (u, out1 @ out2)"
  by (simp add: good_def)

lemma good_reset:
  assumes "kbd_wf s"
  shows "good s (i8042_reset s)"
proof -
  have k: "kbd_good (kbd s) (ps2_kbd_reset (kbd s))"
    using assms ps2_good_reset [of "kbd_common (kbd s)"]
    by (simp add: kbd_good_def ps2_kbd_reset_def split_beta kbd_wf_def queue_ok_def)
  have m: "mouse_good (mouse t) (ps2_mouse_reset (mouse t))" if "kbd_wf t" for t
    using that ps2_good_reset [of "mouse_common (mouse t)"]
    by (simp add: mouse_good_def ps2_mouse_reset_def split_beta kbd_wf_def queue_ok_def)
  let ?r1 = "on_kbd ps2_kbd_reset s"
  let ?r2 = "on_mouse ps2_mouse_reset (fst ?r1)"
  have g1: "good s ?r1" using assms k by (rule good_on_kbd)
  then have w1: "kbd_wf (fst ?r1)" by (simp add: good_def)
  have g2: "good (fst ?r1) ?r2" using w1 m [OF w1] by (rule good_on_mouse)
  have e: "has_data (kbd_common (kbd (fst ?r2))) = 0" "has_data (mouse_common (mouse (fst ?r2))) = 0"
    by (simp_all add: ps2_kbd_reset_def ps2_mouse_reset_def ps2_common_reset_def has_data_def)
  have w2: "kbd_wf (fst ?r2)" using g2 by (simp add: good_def)
  then have "pending (fst ?r2) = 0" using e by (simp add: kbd_wf_def ctl_ok_def pending_of_def)
  then have "kbd_wf (kbd_reset (fst ?r2)) \<and> levels (kbd_reset (fst ?r2)) = levels (fst ?r2)"
    using w2 e by (simp add: kbd_wf_def ctl_ok_def kbd_reset_def levels_def kbd_bits pending_of_def)
  then show ?thesis using g1 g2 by (simp add: good_def i8042_reset_def split_beta Let_def)
qed

datatype kbd_event =
    WriteCommand u32 | WriteData u32 | ReadData | KeyEvent int | MouseEvent int int int int
  | SystemResetEvent

inductive i8042_step :: "kbd_state \<times> int \<times> int \<Rightarrow> kbd_event \<Rightarrow> kbd_state \<times> int \<times> int \<Rightarrow> bool" where
  write_command: "kbd_write_command v s = (t, out) \<Longrightarrow> i8042_step (s, l) (WriteCommand v) (t, lines_after l out)"
| write_data: "kbd_write_data v s = (t, out) \<Longrightarrow> i8042_step (s, l) (WriteData v) (t, lines_after l out)"
| read_data: "kbd_read_data s = (v, t, out) \<Longrightarrow> i8042_step (s, l) ReadData (t, lines_after l out)"
| key_event: "on_kbd (ps2_put_keycode k) s = (t, out) \<Longrightarrow> i8042_step (s, l) (KeyEvent k) (t, lines_after l out)"
| mouse_event: "on_mouse (ps2_mouse_event dx dy dz b) s = (t, out)
    \<Longrightarrow> i8042_step (s, l) (MouseEvent dx dy dz b) (t, lines_after l out)"
| system_reset: "i8042_reset s = (t, out) \<Longrightarrow> i8042_step (s, l) SystemResetEvent (t, lines_after l out)"

definition i8042_wf :: "kbd_state \<times> int \<times> int \<Rightarrow> bool" where
  "i8042_wf sl \<longleftrightarrow> kbd_wf (fst sl) \<and> snd sl = levels (fst sl)"

lemma good_step: "good s (t, out) \<Longrightarrow> l = levels s \<Longrightarrow> i8042_wf (t, lines_after l out)"
  by (simp add: good_def i8042_wf_def)

lemma i8042_step_wf: "i8042_step x e y \<Longrightarrow> i8042_wf x \<Longrightarrow> i8042_wf y"
proof (induction rule: i8042_step.induct)
  case (write_command v s t out l)
  then show ?case using good_write_command [of s v] by (intro good_step) (simp_all add: i8042_wf_def)
next
  case (write_data v s t out l)
  then show ?case using good_write_data [of s v] by (intro good_step) (simp_all add: i8042_wf_def)
next
  case (read_data s v t out l)
  then show ?case using good_read_data [of s] by (intro good_step) (simp_all add: i8042_wf_def)
next
  case (key_event k s t out l)
  then show ?case using good_on_kbd [of s "ps2_put_keycode k"] kbd_good_put_keycode [of "kbd s" k]
    by (intro good_step) (simp_all add: i8042_wf_def kbd_wf_def)
next
  case (mouse_event dx dy dz b s t out l)
  then show ?case using good_on_mouse [of s "ps2_mouse_event dx dy dz b"] mouse_good_event [of "mouse s" dx dy dz b]
    by (intro good_step) (simp_all add: i8042_wf_def kbd_wf_def)
next
  case (system_reset s t out l)
  then show ?case using good_reset [of s] by (intro good_step) (simp_all add: i8042_wf_def)
qed

lemma i8042_init_wf: "i8042_wf (i8042_initfn, 0, 0)"
  by (simp add: i8042_wf_def i8042_initfn_def kbd_wf_def ctl_ok_def levels_def ps2_kbd_init_def
      ps2_mouse_init_def ps2_state_zero_ok has_data_def pending_of_def ps2_state_zero_def kbd_bits)
    (simp add: ps2_state_zero_ok [unfolded ps2_state_zero_def])

interpretation i8042: device "\<lambda>x. x = (i8042_initfn, 0, 0)" i8042_step i8042_wf
  by unfold_locales (auto simp: i8042_init_wf intro: i8042_step_wf)

text \<open>
  C5: The controller tells what its queues hold. In every state the guest, the host's input
  and resets can bring it to, the output-buffer-full bit of the status register is set
  exactly when the keyboard or the mouse holds data, the mouse bit exactly when only the
  mouse does, and the two interrupt lines have the levels these facts and the mode byte ask
  for, with the keyboard going first.
\<close>

theorem i8042_status_and_irqs:
  assumes "reachable (\<lambda>x. x = (i8042_initfn, 0, 0)) i8042_step (s, irq1, irq12)"
  defines "k \<equiv> queue_elems (kbd_common (kbd s)) \<noteq> []" and "m \<equiv> queue_elems (mouse_common (mouse s)) \<noteq> []"
  shows "bit (kbd_read_status s) 0 = (k \<or> m) \<and> bit (kbd_read_status s) 5 = (m \<and> \<not> k)
    \<and> irq1 = c_bool (k \<and> ctl_mode s AND KBD_MODE_KBD_INT \<noteq> 0 \<and> ctl_mode s AND KBD_MODE_DISABLE_KBD = 0)
    \<and> irq12 = c_bool (m \<and> \<not> k \<and> ctl_mode s AND KBD_MODE_MOUSE_INT \<noteq> 0)"
proof -
  have wf: "i8042_wf (s, irq1, irq12)" using assms(1) by (rule i8042.reachable_wf)
  have data: "(has_data c \<noteq> 0) = (queue_elems c \<noteq> [])" for c
    by (simp add: has_data_def flip: length_queue_elems)
  have "ctl_ok s k m" "(irq1, irq12) = levels s" using wf by (simp_all add: i8042_wf_def kbd_wf_def data k_def m_def)
  then show ?thesis
    by (cases k; cases m; simp add: ctl_ok_def levels_def pending_of_def kbd_read_status_def bit_simps kbd_bits)
qed

theorem i8042_status_and_irqs_witness:
  "bit (kbd_read_status (fst (kbd_write_command 0xaa i8042_initfn))) 0"
proof -
  let ?r = "kbd_write_command 0xaa i8042_initfn"
  have reach: "reachable (\<lambda>x. x = (i8042_initfn, 0, 0)) i8042_step (fst ?r, lines_after (0, 0) (snd ?r))"
    by (rule reachable.next_state [OF reachable.start], rule refl,
        rule i8042_step.write_command [where v = "0xaa" and t = "fst ?r" and out = "snd ?r"]) simp
  have "kbd (fst ?r) = fst (kbd_queues [0x55] ps2_kbd_init)"
    by (simp add: kbd_write_command_def kbd_ccmds kbd_queue_def i8042_initfn_def)
  then have "queue_elems (kbd_common (kbd (fst ?r))) \<noteq> []"
    using kbd_queues_elems(1) [of ps2_kbd_init "[0x55]"] ps2_state_zero_ok
    by (simp add: ps2_kbd_init_def ps2_state_zero_def)
  moreover obtain a b where "lines_after (0, 0) (snd ?r) = (a, b)" by fastforce
  ultimately show ?thesis using i8042_status_and_irqs [of "fst ?r" a b] reach by simp
qed

section \<open>The data port refines two queues\<close>

definition ports :: "kbd_state \<Rightarrow> u8 list \<times> u8 list" where
  "ports s = (queue_elems (kbd_common (kbd s)), queue_elems (mouse_common (mouse s)))"

fun port_read :: "u8 list \<times> u8 list \<Rightarrow> (u8 \<times> u8 list \<times> u8 list) option" where
  "port_read (k # ks, ms) = Some (k, ks, ms)"
| "port_read ([], m # ms) = Some (m, [], ms)"
| "port_read ([], []) = None"

lemma kbd_read_data_ports:
  assumes "kbd_wf s"
  shows "case port_read (ports s) of
      Some (v, q) \<Rightarrow> fst (kbd_read_data s) = ucast v \<and> ports (fst (snd (kbd_read_data s))) = q
    | None \<Rightarrow> ports (fst (snd (kbd_read_data s))) = ports s"
proof -
  let ?k = "kbd_common (kbd s)" and ?m = "mouse_common (mouse s)"
  have q: "queue_ok ?k" "queue_ok ?m" using assms by (simp_all add: kbd_wf_def)
  have aux: "(pending s = KBD_PENDING_AUX) = (queue_elems ?k = [] \<and> queue_elems ?m \<noteq> [])"
    using assms by (auto simp: kbd_wf_def ctl_ok_def pending_of_def kbd_bits has_data_def simp flip: length_0_conv split: if_splits)
  have u32: "fst (ps2_read_data c) = ucast (fst (queue_get c))" for c
    by (simp add: queue_get_def ps2_read_data_def Let_def)
  show ?thesis
  proof (cases "port_read (ports s)")
    case None
    then have "queue_elems ?k = []" "queue_elems ?m = []" by (auto simp: ports_def elim: port_read.elims)
    then have "ps2_count (queue ?k) = 0" by (metis length_queue_elems list.size(3))
    then show ?thesis using None aux \<open>queue_elems ?m = []\<close>
      by (simp add: kbd_read_data_def ps2_read_data_def ports_def Let_def)
  next
    case (Some r)
    then consider k ks where "queue_elems ?k = k # ks" "r = (k, ks, queue_elems ?m)"
      | m ms where "queue_elems ?k = []" "queue_elems ?m = m # ms" "r = (m, [], ms)"
      by (auto simp: ports_def elim: port_read.elims)
    then show ?thesis
    proof cases
      case (1 k ks)
      then show ?thesis using Some aux ps2_fifo.get_first [OF q(1) 1(1)] ps2_fifo.get_rest [OF q(1) 1(1)]
        by (simp add: kbd_read_data_def split_beta ports_def u32) (simp add: queue_get_def)
    next
      case (2 m ms)
      then show ?thesis using Some aux ps2_fifo.get_first [OF q(2) 2(2)] ps2_fifo.get_rest [OF q(2) 2(2)]
        by (simp add: kbd_read_data_def split_beta ports_def u32) (simp add: queue_get_def)
    qed
  qed
qed

text \<open>
  C14: The data port refines a pair of queues. In every reachable state a read of port 0x60
  returns and removes the oldest byte of the keyboard if it has one, otherwise the oldest
  byte of the mouse, and touches nothing else of the two queues; with both queues empty it
  leaves them so.
\<close>

theorem i8042_read_refines:
  assumes "reachable (\<lambda>x. x = (i8042_initfn, 0, 0)) i8042_step (s, l)"
  shows "case port_read (ports s) of
      Some (v, q) \<Rightarrow> fst (kbd_read_data s) = ucast v \<and> ports (fst (snd (kbd_read_data s))) = q
    | None \<Rightarrow> ports (fst (snd (kbd_read_data s))) = ports s"
  using i8042.reachable_wf [OF assms] by (intro kbd_read_data_ports) (simp add: i8042_wf_def)

theorem i8042_read_refines_witness:
  "ports (fst (snd (kbd_read_data i8042_initfn))) = ([], [])"
proof -
  have "reachable (\<lambda>x. x = (i8042_initfn, 0, 0)) i8042_step (i8042_initfn, 0, 0)"
    by (rule reachable.start) (rule refl)
  moreover have "ports i8042_initfn = ([], [])"
    by (simp add: ports_def i8042_initfn_def ps2_kbd_init_def ps2_mouse_init_def ps2_state_zero_ok)
  ultimately show ?thesis using i8042_read_refines [of i8042_initfn "(0, 0)"] by simp
qed

end
