(* ===== verification/Dma.thy ===== *)
theory Dma
  imports Irq
begin

text \<open>
  The two 8237 DMA controllers (\<open>hw/dma.c\<close>). A transfer handler belongs to a device; it gets
  the channel, the position and the length, may change the controllers (by releasing its
  request, say) and the world \<open>'w\<close>, and returns the new position. The handlers are a table
  beside the controllers. Physical memory is a function from 64-bit
  addresses (the width of \<open>target_phys_addr_t\<close> on a PC) to bytes: the accesses go to RAM, where
  \<open>cpu_physical_memory_read\<close> and \<open>cpu_physical_memory_write\<close> copy bytes. \<open>dma_now\<close> is an unbounded
  integer; the device's handler keeps its count within \<open>int\<close>. Operations that schedule the
  bottom half return whether they did. Shown are that programmed registers read back, which channels a run serves and in which order, and what
  the memory accesses of a device transfer in both address modes.
\<close>

section \<open>Definitions\<close>

record dma_regs =
  dma_now :: "int list"
  base :: "u16 list"
  dma_mode :: u8
  page :: u8
  pageh :: u8
  dack :: u8
  eop :: u8

record dma_cont =
  dma_status :: u8
  command :: u8
  dma_mask :: u8
  flip_flop :: u8
  dshift :: nat
  regs :: "dma_regs list"

type_synonym dma_state = "dma_cont list"

type_synonym 'w transfer_handler = "nat \<Rightarrow> int \<Rightarrow> int \<Rightarrow> dma_state \<times> 'w \<Rightarrow> int \<times> dma_state \<times> 'w"

definition ADDR :: nat where "ADDR = 0"

definition COUNT :: nat where "COUNT = 1"

definition CMD_NOT_SUPPORTED :: u32 where
  "CMD_NOT_SUPPORTED = 0x01 OR 0x02 OR 0x08 OR 0x10 OR 0x20 OR 0x40 OR 0x80"

definition page_channels :: "int list" where
  "page_channels = [-1, 2, 3, 1, -1, -1, -1, 0]"

text \<open>Changing one controller, and one channel of a controller.\<close>

definition upd_cont :: "nat \<Rightarrow> (dma_cont \<Rightarrow> dma_cont) \<Rightarrow> dma_state \<Rightarrow> dma_state" where
  "upd_cont c f ds = ds[c := f (ds ! c)]"

definition upd_regs :: "nat \<Rightarrow> (dma_regs \<Rightarrow> dma_regs) \<Rightarrow> dma_cont \<Rightarrow> dma_cont" where
  "upd_regs i f d = d\<lparr>regs := (regs d)[i := f (regs d ! i)]\<rparr>"

definition write_page :: "u32 \<Rightarrow> u32 \<Rightarrow> dma_cont \<Rightarrow> dma_cont" where
  "write_page nport data d =
     (let ichan = page_channels ! unat (nport AND 7)
      in if ichan = -1 then d else upd_regs (nat ichan) (\<lambda>r. r\<lparr>page := ucast data\<rparr>) d)"

definition write_pageh :: "u32 \<Rightarrow> u32 \<Rightarrow> dma_cont \<Rightarrow> dma_cont" where
  "write_pageh nport data d =
     (let ichan = page_channels ! unat (nport AND 7)
      in if ichan = -1 then d else upd_regs (nat ichan) (\<lambda>r. r\<lparr>pageh := ucast data\<rparr>) d)"

definition read_page :: "u32 \<Rightarrow> dma_cont \<Rightarrow> u32" where
  "read_page nport d =
     (let ichan = page_channels ! unat (nport AND 7)
      in if ichan = -1 then 0 else ucast (page (regs d ! nat ichan)))"

definition read_pageh :: "u32 \<Rightarrow> dma_cont \<Rightarrow> u32" where
  "read_pageh nport d =
     (let ichan = page_channels ! unat (nport AND 7)
      in if ichan = -1 then 0 else ucast (pageh (regs d ! nat ichan)))"

definition init_chan :: "nat \<Rightarrow> dma_cont \<Rightarrow> dma_cont" where
  "init_chan ichan d =
     upd_regs ichan (\<lambda>r. r\<lparr>dma_now := (dma_now r)[ADDR := push_bit (dshift d) (uint (base r ! ADDR)), COUNT := 0]\<rparr>) d"

definition getff :: "dma_cont \<Rightarrow> u8 \<times> dma_cont" where
  "getff d = (flip_flop d, d\<lparr>flip_flop := c_bool (flip_flop d = 0)\<rparr>)"

text \<open>The right shift of a negative \<open>int\<close> is arithmetic.\<close>

definition read_chan :: "u32 \<Rightarrow> dma_cont \<Rightarrow> u32 \<times> dma_cont" where
  "read_chan nport d =
     (let iport = unat (drop_bit (dshift d) nport AND 0x0f);
          ichan = iport div 2; nreg = iport mod 2; r = regs d ! ichan;
          dir = (if drop_bit 5 (dma_mode r) AND 1 \<noteq> 0 then -1 else 1);
          (ff, d) = getff d;
          val = (if nreg \<noteq> 0 then push_bit (dshift d) (uint (base r ! COUNT)) - dma_now r ! COUNT
                 else dma_now r ! ADDR + dma_now r ! COUNT * dir)
      in (word_of_int (drop_bit (dshift d + 8 * unat ff) val AND 0xff), d))"

definition write_chan :: "u32 \<Rightarrow> u32 \<Rightarrow> dma_cont \<Rightarrow> dma_cont" where
  "write_chan nport data d =
     (let iport = unat (drop_bit (dshift d) nport AND 0x0f);
          ichan = iport div 2; nreg = iport mod 2; (ff, d) = getff d
      in if ff \<noteq> 0 then
           init_chan ichan
             (upd_regs ichan (\<lambda>r. r\<lparr>base := (base r)[nreg :=
                (base r ! nreg AND 0xff) OR ucast (push_bit 8 data AND 0xff00)]\<rparr>) d)
         else
           upd_regs ichan (\<lambda>r. r\<lparr>base := (base r)[nreg :=
                (base r ! nreg AND 0xff00) OR ucast (data AND 0xff)]\<rparr>) d)"

definition channel_run ::
    "(nat \<Rightarrow> 'w transfer_handler) \<Rightarrow> nat \<Rightarrow> nat \<Rightarrow> dma_state \<times> 'w \<Rightarrow> dma_state \<times> 'w" where
  "channel_run hs ncont ichan dw =
     (let r = regs (fst dw ! ncont) ! ichan; nchan = ichan + 4 * ncont;
          (n, ds, w) = hs nchan nchan (dma_now r ! COUNT) (push_bit ncont (uint (base r ! COUNT) + 1)) dw
      in (upd_cont ncont (upd_regs ichan (\<lambda>r. r\<lparr>dma_now := (dma_now r)[COUNT := n]\<rparr>)) ds, w))"

definition chan_active :: "nat \<Rightarrow> nat \<Rightarrow> dma_state \<Rightarrow> bool" where
  "chan_active icont ichan ds \<longleftrightarrow> dma_mask (ds ! icont) AND shl1 ichan = 0
     \<and> dma_status (ds ! icont) AND push_bit 4 (shl1 ichan) \<noteq> 0"

text \<open>One turn of the two nested loops; the flag is \<open>rearm\<close>.\<close>

definition dma_turn ::
    "(nat \<Rightarrow> 'w transfer_handler) \<Rightarrow> nat \<times> nat \<Rightarrow> bool \<times> dma_state \<times> 'w \<Rightarrow> bool \<times> dma_state \<times> 'w" where
  "dma_turn hs c st =
     (if chan_active (fst c) (snd c) (fst (snd st)) then (True, channel_run hs (fst c) (snd c) (snd st)) else st)"

definition DMA_run :: "(nat \<Rightarrow> 'w transfer_handler) \<Rightarrow> dma_state \<times> 'w \<Rightarrow> bool \<times> dma_state \<times> 'w" where
  "DMA_run hs dw = fold (dma_turn hs) [(icont, ichan). icont \<leftarrow> [0..<2], ichan \<leftarrow> [0..<4]] (False, dw)"

definition write_cont ::
    "(nat \<Rightarrow> 'w transfer_handler) \<Rightarrow> nat \<Rightarrow> u32 \<Rightarrow> u32 \<Rightarrow> dma_state \<times> 'w \<Rightarrow> bool \<times> dma_state \<times> 'w" where
  "write_cont hs c nport data dw =
     (let ds = fst dw; w = snd dw; d = ds ! c;
          iport = unat (drop_bit (dshift d) nport AND 0x0f);
          ichan = unat (data AND 3); bit_of = (shl1 ichan :: u8)
      in if iport = 0x08 then
           (False, if data \<noteq> 0 \<and> data AND CMD_NOT_SUPPORTED \<noteq> 0 then ds
                   else upd_cont c (\<lambda>d. d\<lparr>command := ucast data\<rparr>) ds, w)
         else if iport = 0x09 then
           (let st = (if data AND 4 \<noteq> 0 then dma_status d OR push_bit 4 bit_of
                      else dma_status d AND NOT (push_bit 4 bit_of))
            in DMA_run hs (upd_cont c (\<lambda>d. d\<lparr>dma_status := st AND NOT bit_of\<rparr>) ds, w))
         else if iport = 0x0a then
           DMA_run hs (upd_cont c (\<lambda>d. d\<lparr>dma_mask := (if data AND 4 \<noteq> 0 then dma_mask d OR bit_of
                                               else dma_mask d AND NOT bit_of)\<rparr>) ds, w)
         else if iport = 0x0b then
           (False, upd_cont c (upd_regs ichan (\<lambda>r. r\<lparr>dma_mode := ucast data\<rparr>)) ds, w)
         else if iport = 0x0c then (False, upd_cont c (\<lambda>d. d\<lparr>flip_flop := 0\<rparr>) ds, w)
         else if iport = 0x0d then
           (False, upd_cont c (\<lambda>d. d\<lparr>flip_flop := 0, dma_mask := NOT 0, dma_status := 0, command := 0\<rparr>) ds, w)
         else if iport = 0x0e then DMA_run hs (upd_cont c (\<lambda>d. d\<lparr>dma_mask := 0\<rparr>) ds, w)
         else if iport = 0x0f then DMA_run hs (upd_cont c (\<lambda>d. d\<lparr>dma_mask := ucast data\<rparr>) ds, w)
         else (False, ds, w))"

definition read_cont :: "u32 \<Rightarrow> dma_cont \<Rightarrow> u32 \<times> dma_cont" where
  "read_cont nport d =
     (let iport = unat (drop_bit (dshift d) nport AND 0x0f)
      in if iport = 0x08 then (ucast (dma_status d), d\<lparr>dma_status := dma_status d AND 0xf0\<rparr>)
         else if iport = 0x0f then (ucast (dma_mask d), d)
         else (0, d))"

definition DMA_get_channel_mode :: "nat \<Rightarrow> dma_state \<Rightarrow> u8" where
  "DMA_get_channel_mode nchan ds = dma_mode (regs (ds ! (if nchan > 3 then 1 else 0)) ! (nchan mod 4))"

definition DMA_hold_DREQ ::
    "(nat \<Rightarrow> 'w transfer_handler) \<Rightarrow> nat \<Rightarrow> dma_state \<times> 'w \<Rightarrow> bool \<times> dma_state \<times> 'w" where
  "DMA_hold_DREQ hs nchan dw =
     (let ncont = (if nchan > 3 then 1 else 0); ichan = nchan mod 4
      in DMA_run hs (upd_cont ncont (\<lambda>d. d\<lparr>dma_status := dma_status d OR shl1 (ichan + 4)\<rparr>) (fst dw), snd dw))"

definition DMA_release_DREQ ::
    "(nat \<Rightarrow> 'w transfer_handler) \<Rightarrow> nat \<Rightarrow> dma_state \<times> 'w \<Rightarrow> bool \<times> dma_state \<times> 'w" where
  "DMA_release_DREQ hs nchan dw =
     (let ncont = (if nchan > 3 then 1 else 0); ichan = nchan mod 4
      in DMA_run hs (upd_cont ncont (\<lambda>d. d\<lparr>dma_status := dma_status d AND NOT (shl1 (ichan + 4))\<rparr>) (fst dw), snd dw))"

definition DMA_run_bh :: "(nat \<Rightarrow> 'w transfer_handler) \<Rightarrow> dma_state \<times> 'w \<Rightarrow> bool \<times> dma_state \<times> 'w" where
  "DMA_run_bh hs dw = DMA_run hs dw"

definition DMA_register_channel ::
    "nat \<Rightarrow> 'w transfer_handler \<Rightarrow> (nat \<Rightarrow> 'w transfer_handler) \<Rightarrow> nat \<Rightarrow> 'w transfer_handler" where
  "DMA_register_channel nchan h hs = hs((nchan mod 4) + (if nchan > 3 then 4 else 0) := h)"

text \<open>The physical address of a channel, and memory accesses from it on.\<close>

definition dma_addr :: "nat \<Rightarrow> dma_state \<Rightarrow> u64" where
  "dma_addr nchan ds =
     (let r = regs (ds ! (if nchan > 3 then 1 else 0)) ! (nchan mod 4)
      in word_of_int (push_bit 24 (uint (pageh r AND 0x7f)) OR push_bit 16 (uint (page r)) OR dma_now r ! ADDR))"

definition mem_read :: "(u64 \<Rightarrow> u8) \<Rightarrow> u64 \<Rightarrow> nat \<Rightarrow> u8 list" where
  "mem_read mem a n = map (\<lambda>i. mem (a + of_nat i)) [0..<n]"

primrec mem_write :: "u64 \<Rightarrow> u8 list \<Rightarrow> (u64 \<Rightarrow> u8) \<Rightarrow> u64 \<Rightarrow> u8" where
  "mem_write a [] mem = mem"
| "mem_write a (b # bs) mem = mem_write (a + 1) bs (mem(a := b))"

definition DMA_read_memory :: "nat \<Rightarrow> nat \<Rightarrow> nat \<Rightarrow> dma_state \<Rightarrow> (u64 \<Rightarrow> u8) \<Rightarrow> u8 list" where
  "DMA_read_memory nchan pos len ds mem =
     (let addr = dma_addr nchan ds
      in if DMA_get_channel_mode nchan ds AND 0x20 \<noteq> 0 then
           (let buf = mem_read mem (addr - of_nat pos - of_nat len) len
            in foldl (\<lambda>p i. p[i := p ! (len - i - 1)]) buf [0..<len div 2])
         else mem_read mem (addr + of_nat pos) len)"

text \<open>Also returns the caller's buffer, which the descending mode changes after the transfer.\<close>

definition DMA_write_memory ::
    "nat \<Rightarrow> u8 list \<Rightarrow> nat \<Rightarrow> dma_state \<Rightarrow> (u64 \<Rightarrow> u8) \<Rightarrow> (u64 \<Rightarrow> u8) \<times> u8 list" where
  "DMA_write_memory nchan buf pos ds mem =
     (let addr = dma_addr nchan ds; len = length buf
      in if DMA_get_channel_mode nchan ds AND 0x20 \<noteq> 0 then
           (mem_write (addr - of_nat pos - of_nat len) buf mem,
            foldl (\<lambda>p i. p[i := p ! (len - i - 1)]) buf [0..<len])
         else (mem_write (addr + of_nat pos) buf mem, buf))"

definition DMA_schedule :: "nat \<Rightarrow> 'w qemu_irq list \<Rightarrow> 'w \<Rightarrow> 'w" where
  "DMA_schedule nchan cpu_request_exit = qemu_irq_pulse (cpu_request_exit ! (if nchan > 3 then 1 else 0))"

definition dma_reset :: "(nat \<Rightarrow> 'w transfer_handler) \<Rightarrow> nat \<Rightarrow> dma_state \<times> 'w \<Rightarrow> bool \<times> dma_state \<times> 'w" where
  "dma_reset hs c dw = write_cont hs c (push_bit (dshift (fst dw ! c)) 0x0d) 0 dw"

definition dma_phony_handler :: "'w transfer_handler" where
  "dma_phony_handler nchan dma_pos dma_len dw = (dma_pos, dw)"

definition dma_post_load :: "(nat \<Rightarrow> 'w transfer_handler) \<Rightarrow> dma_state \<times> 'w \<Rightarrow> bool \<times> dma_state \<times> 'w" where
  "dma_post_load hs dw = DMA_run hs dw"

text \<open>
  The ports a controller registers, each with the pair of routines that serves it; a negative
  \<open>pageh_base\<close> leaves the high page registers out. The state it starts in is all zero but the
  shift, and then reset; every channel starts with the phony handler.
\<close>

datatype dma_port = Chan | Page | PageH | Cont

definition dma_ports :: "int \<Rightarrow> nat \<Rightarrow> int \<Rightarrow> int \<Rightarrow> (int \<times> dma_port) list" where
  "dma_ports port_base sh page_base pageh_base =
     map (\<lambda>i. (port_base + push_bit sh i, Chan)) [0..7]
     @ map (\<lambda>p. (page_base + p, Page)) [1, 2, 3, 7]
     @ (if pageh_base \<ge> 0 then map (\<lambda>p. (pageh_base + p, PageH)) [1, 2, 3, 7] else [])
     @ map (\<lambda>i. (port_base + push_bit sh (i + 8), Cont)) [0..7]"

definition dma_zero :: dma_cont where
  "dma_zero = \<lparr>dma_status = 0, command = 0, dma_mask = 0, flip_flop = 0, dshift = 0,
     regs = replicate 4 \<lparr>dma_now = [0, 0], base = [0, 0], dma_mode = 0, page = 0, pageh = 0, dack = 0, eop = 0\<rparr>\<rparr>"

definition dma_init2 :: "nat \<Rightarrow> nat \<Rightarrow> dma_state \<Rightarrow> dma_state" where
  "dma_init2 c sh ds =
     fst (snd (dma_reset (\<lambda>_. dma_phony_handler) c (upd_cont c (\<lambda>d. d\<lparr>dshift := sh\<rparr>) ds, ())))"

definition DMA_init :: dma_state where
  "DMA_init = dma_init2 1 1 (dma_init2 0 0 [dma_zero, dma_zero])"

definition dma_port_map :: "bool \<Rightarrow> nat \<Rightarrow> int \<rightharpoonup> dma_port" where
  "dma_port_map high_page_enable c =
     map_of (if c = 0 then dma_ports 0x00 0 0x80 (if high_page_enable then 0x480 else -1)
             else dma_ports 0xc0 1 0x88 (if high_page_enable then 0x488 else -1))"

text \<open>An access of the guest to a port of controller \<open>c\<close>.\<close>

definition dma_ioport_write ::
    "bool \<Rightarrow> (nat \<Rightarrow> 'w transfer_handler) \<Rightarrow> nat \<Rightarrow> u32 \<Rightarrow> u32 \<Rightarrow> dma_state \<times> 'w \<Rightarrow> bool \<times> dma_state \<times> 'w" where
  "dma_ioport_write high_page_enable hs c nport data dw =
     (case dma_port_map high_page_enable c (uint nport) of
        Some Chan \<Rightarrow> (False, upd_cont c (write_chan nport data) (fst dw), snd dw)
      | Some Page \<Rightarrow> (False, upd_cont c (write_page nport data) (fst dw), snd dw)
      | Some PageH \<Rightarrow> (False, upd_cont c (write_pageh nport data) (fst dw), snd dw)
      | Some Cont \<Rightarrow> write_cont hs c nport data dw
      | None \<Rightarrow> (False, dw))"

definition dma_ioport_read :: "bool \<Rightarrow> nat \<Rightarrow> u32 \<Rightarrow> dma_state \<Rightarrow> u32 option \<times> dma_state" where
  "dma_ioport_read high_page_enable c nport ds =
     (let d = ds ! c
      in case dma_port_map high_page_enable c (uint nport) of
        Some Chan \<Rightarrow> (Some (fst (read_chan nport d)), ds[c := snd (read_chan nport d)])
      | Some Page \<Rightarrow> (Some (read_page nport d), ds)
      | Some PageH \<Rightarrow> (Some (read_pageh nport d), ds)
      | Some Cont \<Rightarrow> (Some (fst (read_cont nport d)), ds[c := snd (read_cont nport d)])
      | None \<Rightarrow> (None, ds))"

section \<open>Well-formed controllers\<close>

definition regs_wf :: "nat \<Rightarrow> dma_regs \<Rightarrow> bool" where
  "regs_wf sh r \<longleftrightarrow> length (dma_now r) = 2 \<and> length (base r) = 2
     \<and> 0 \<le> dma_now r ! ADDR \<and> dma_now r ! ADDR < 2 ^ (16 + sh) \<and> 2 ^ sh dvd dma_now r ! ADDR"

definition cont_wf :: "nat \<Rightarrow> dma_cont \<Rightarrow> bool" where
  "cont_wf sh d \<longleftrightarrow> dshift d = sh \<and> flip_flop d \<in> {0, 1} \<and> length (regs d) = 4 \<and> (\<forall>i<4. regs_wf sh (regs d ! i))"

definition dma_wf :: "dma_state \<Rightarrow> bool" where
  "dma_wf ds \<longleftrightarrow> length ds = 2 \<and> (\<forall>c<2. cont_wf c (ds ! c))"

definition handlers_ok :: "(nat \<Rightarrow> 'w transfer_handler) \<Rightarrow> bool" where
  "handlers_ok hs \<longleftrightarrow> (\<forall>n pos len ds w. dma_wf ds \<longrightarrow> dma_wf (fst (snd (hs n n pos len (ds, w)))))"

lemma upd_cont_wf [inv_intros]:
  "dma_wf ds \<Longrightarrow> (\<And>d. cont_wf c d \<Longrightarrow> cont_wf c (f d)) \<Longrightarrow> dma_wf (upd_cont c f ds)"
  by (auto simp: dma_wf_def upd_cont_def nth_list_update_if)

lemma upd_regs_wf [inv_intros]:
  "cont_wf sh d \<Longrightarrow> (\<And>r. regs_wf sh r \<Longrightarrow> regs_wf sh (f r)) \<Longrightarrow> cont_wf sh (upd_regs i f d)"
  by (auto simp: cont_wf_def upd_regs_def nth_list_update_if)

lemma init_chan_wf [inv_intros]: "cont_wf sh d \<Longrightarrow> cont_wf sh (init_chan i d)"
  unfolding init_chan_def
proof (rule upd_regs_wf)
  fix r assume "cont_wf sh d" "regs_wf sh r"
  moreover have "uint (base r ! ADDR) < 2 ^ 16" using unsigned_less [of "base r ! ADDR", where ?'a = int] by simp
  then have "push_bit sh (uint (base r ! ADDR)) < 2 ^ (16 + sh)"
    by (simp add: push_bit_eq_mult power_add mult_less_cancel_right_pos)
  ultimately show "regs_wf sh (r\<lparr>dma_now := (dma_now r)[ADDR := push_bit (dshift d) (uint (base r ! ADDR)), COUNT := 0]\<rparr>)"
    by (simp add: regs_wf_def cont_wf_def ADDR_def COUNT_def nth_list_update push_bit_eq_mult)
qed

lemma getff_wf: "cont_wf sh d \<Longrightarrow> cont_wf sh (snd (getff d))"
  by (auto simp: getff_def cont_wf_def)

lemma write_page_wf: "cont_wf sh d \<Longrightarrow> cont_wf sh (write_page p v d)"
  unfolding write_page_def Let_def by (simp, intro impI upd_regs_wf) (simp_all add: regs_wf_def)

lemma write_pageh_wf: "cont_wf sh d \<Longrightarrow> cont_wf sh (write_pageh p v d)"
  unfolding write_pageh_def Let_def by (simp, intro impI upd_regs_wf) (simp_all add: regs_wf_def)

lemma base_wf: "regs_wf sh r \<Longrightarrow> regs_wf sh (r\<lparr>base := (base r)[n := v]\<rparr>)"
  by (simp add: regs_wf_def)

lemma write_chan_wf: "cont_wf sh d \<Longrightarrow> cont_wf sh (write_chan p v d)"
  by (simp add: write_chan_def Let_def split_beta getff_wf init_chan_wf upd_regs_wf base_wf)

lemma read_chan_wf: "cont_wf sh d \<Longrightarrow> cont_wf sh (snd (read_chan p d))"
  by (simp add: read_chan_def Let_def split_beta getff_wf)

lemma read_cont_wf: "cont_wf sh d \<Longrightarrow> cont_wf sh (snd (read_cont p d))"
  by (simp add: read_cont_def Let_def cont_wf_def)

lemma count_wf: "regs_wf sh r \<Longrightarrow> regs_wf sh (r\<lparr>dma_now := (dma_now r)[COUNT := n]\<rparr>)"
  by (simp add: regs_wf_def ADDR_def COUNT_def)

lemma channel_run_wf:
  assumes "handlers_ok hs" "dma_wf (fst dw)"
  shows "dma_wf (fst (channel_run hs c i dw))"
proof -
  have "dma_wf (fst (snd (hs n n pos len dw)))" for n pos len
    using assms by (cases dw) (simp add: handlers_ok_def)
  then show ?thesis
    by (simp add: channel_run_def Let_def split_beta upd_cont_wf upd_regs_wf count_wf)
qed

lemma dma_turn_wf: "handlers_ok hs \<Longrightarrow> dma_wf (fst (snd st)) \<Longrightarrow> dma_wf (fst (snd (dma_turn hs c st)))"
  by (simp add: dma_turn_def channel_run_wf)

lemma DMA_run_wf: "handlers_ok hs \<Longrightarrow> dma_wf (fst dw) \<Longrightarrow> dma_wf (fst (snd (DMA_run hs dw)))"
proof -
  assume *: "handlers_ok hs" "dma_wf (fst dw)"
  have "dma_wf (fst (snd st)) \<Longrightarrow> dma_wf (fst (snd (fold (dma_turn hs) cs st)))" for cs st
    by (induction cs arbitrary: st) (simp_all add: dma_turn_wf *)
  then show ?thesis using * by (simp add: DMA_run_def)
qed

lemma cont_fields_wf:
  "cont_wf sh d \<Longrightarrow> cont_wf sh (d\<lparr>dma_status := s\<rparr>)"
  "cont_wf sh d \<Longrightarrow> cont_wf sh (d\<lparr>dma_mask := m\<rparr>)"
  "cont_wf sh d \<Longrightarrow> cont_wf sh (d\<lparr>command := m\<rparr>)"
  "cont_wf sh d \<Longrightarrow> cont_wf sh (d\<lparr>flip_flop := 0\<rparr>)"
  by (simp_all add: cont_wf_def)

lemma mode_wf: "regs_wf sh r \<Longrightarrow> regs_wf sh (r\<lparr>dma_mode := n\<rparr>)"
  by (simp add: regs_wf_def)

lemmas dma_upd_wf = upd_cont_wf upd_regs_wf cont_fields_wf mode_wf DMA_run_wf

lemma write_cont_wf:
  assumes "handlers_ok hs" "dma_wf (fst dw)"
  shows "dma_wf (fst (snd (write_cont hs c p v dw)))"
  using assms unfolding write_cont_def Let_def
  by (simp add: dma_upd_wf)


datatype dma_event = PortWrite nat u32 u32 | PortRead nat u32 | Hold nat | Release nat | BottomHalf | Reset nat

inductive dma_step :: "dma_state \<times> 'w \<Rightarrow> dma_event \<Rightarrow> dma_state \<times> 'w \<Rightarrow> bool" where
  port_write: "handlers_ok hs \<Longrightarrow> dma_step dw (PortWrite c p v) (snd (dma_ioport_write hp hs c p v dw))"
| port_read: "dma_step (ds, w) (PortRead c p) (snd (dma_ioport_read hp c p ds), w)"
| hold: "handlers_ok hs \<Longrightarrow> dma_step dw (Hold n) (snd (DMA_hold_DREQ hs n dw))"
| release: "handlers_ok hs \<Longrightarrow> dma_step dw (Release n) (snd (DMA_release_DREQ hs n dw))"
| bh: "handlers_ok hs \<Longrightarrow> dma_step dw BottomHalf (snd (DMA_run_bh hs dw))"
| reset: "handlers_ok hs \<Longrightarrow> dma_step dw (Reset c) (snd (dma_reset hs c dw))"

lemma upd_wf: "dma_wf ds \<Longrightarrow> c < 2 \<Longrightarrow> cont_wf c (ds ! c)"
  by (simp add: dma_wf_def)

lemma cont_at_wf: "dma_wf ds \<Longrightarrow> (c < 2 \<Longrightarrow> cont_wf c d) \<Longrightarrow> dma_wf (ds[c := d])"
  by (auto simp: dma_wf_def nth_list_update_if)

lemma dma_ioport_write_wf:
  "handlers_ok hs \<Longrightarrow> dma_wf (fst dw) \<Longrightarrow> dma_wf (fst (snd (dma_ioport_write hp hs c p v dw)))"
  by (simp add: dma_ioport_write_def dma_upd_wf write_chan_wf write_page_wf write_pageh_wf write_cont_wf
      split: option.split dma_port.split)

lemma dma_ioport_read_wf: "dma_wf ds \<Longrightarrow> dma_wf (snd (dma_ioport_read hp c p ds))"
  by (simp add: dma_ioport_read_def Let_def cont_at_wf upd_wf read_chan_wf read_cont_wf
      split: option.split dma_port.split)

lemma dma_step_wf: "dma_step dw e dw' \<Longrightarrow> dma_wf (fst dw) \<Longrightarrow> dma_wf (fst dw')"
  by (induction rule: dma_step.induct)
    (simp_all add: dma_ioport_write_wf dma_ioport_read_wf DMA_hold_DREQ_def DMA_release_DREQ_def DMA_run_bh_def
      dma_reset_def Let_def dma_upd_wf write_cont_wf)

lemma DMA_init_wf: "dma_wf DMA_init"
  by code_simp

interpretation dma: device "\<lambda>dw. fst dw = DMA_init" dma_step "\<lambda>dw. dma_wf (fst dw)"
  by unfold_locales (auto simp: DMA_init_wf intro: dma_step_wf)

section \<open>Registers read back\<close>

text \<open>The port of register \<open>nreg\<close> of channel \<open>i\<close> of controller \<open>c\<close>.\<close>

definition chan_port :: "nat \<Rightarrow> nat \<Rightarrow> nat \<Rightarrow> u32" where
  "chan_port c i nreg = (if c = 0 then 0 else 0xc0) + of_nat (2 ^ c * (2 * i + nreg))"

lemma chan_port_list:
  "list_all (\<lambda>c. list_all (\<lambda>i. list_all (\<lambda>n. list_all (\<lambda>hp.
     dma_port_map hp c (uint (chan_port c i n)) = Some Chan
     \<and> unat (drop_bit c (chan_port c i n) AND 0xf) = 2 * i + n) [False, True]) [0, 1]) [0, 1, 2, 3]) [0, 1]"
  by code_simp

lemma chan_port_ok:
  assumes "c < 2" "i < 4" "n < 2"
  shows "dma_port_map hp c (uint (chan_port c i n)) = Some Chan"
    and "unat (drop_bit c (chan_port c i n) AND 0xf) = 2 * i + n"
proof -
  have "c \<in> set [0, 1]" "i \<in> set [0, 1, 2, 3]" "n \<in> set [0, 1]" "hp \<in> set [False, True]" using assms by auto
  then show "dma_port_map hp c (uint (chan_port c i n)) = Some Chan"
    and "unat (drop_bit c (chan_port c i n) AND 0xf) = 2 * i + n"
    using chan_port_list unfolding list_all_iff by blast+
qed

lemma byte_masks:
  "(0xff :: 'a::len word) = mask 8" "(0xff00 :: 'a::len word) = push_bit 8 (mask 8)" "(0xff :: int) = mask 8"
  by (simp_all add: mask_eq_exp_minus_1 push_bit_eq_mult)

lemma base_two_bytes:
  fixes lo hi :: u8 and b :: u16
  shows "((b AND 0xff00 OR ucast ((ucast lo :: u32) AND 0xff)) AND 0xff) OR ucast (push_bit 8 (ucast hi :: u32) AND 0xff00)
    = (ucast lo OR push_bit 8 (ucast hi) :: u16)"
  unfolding byte_masks
  by (rule bit_word_eqI) (auto simp: bit_simps dest: bit_imp_le_length)

lemma base_byte:
  fixes lo hi :: u8
  defines "b \<equiv> ucast lo OR push_bit 8 (ucast hi) :: u16"
  shows "word_of_int (drop_bit sh (push_bit sh (uint b)) AND 0xff) = (ucast lo :: u32)"
    and "word_of_int (drop_bit (sh + 8) (push_bit sh (uint b)) AND 0xff) = (ucast hi :: u32)"
  unfolding b_def byte_masks
  by (rule bit_word_eqI, auto simp: bit_simps dest: bit_imp_le_length)+

lemma dma_regs_after:
  assumes "cont_wf c d" "c < 2" "i < 4" "n < 2" "flip_flop d = 0"
  defines "b \<equiv> \<lambda>lo hi. ucast lo OR push_bit 8 (ucast hi) :: u16"
  shows "write_chan (chan_port c i n) (ucast (hi::u8)) (write_chan (chan_port c i n) (ucast (lo::u8)) d)
    = init_chan i (upd_regs i (\<lambda>r. r\<lparr>base := (base r)[n := b lo hi]\<rparr>) d)"
proof -
  have [simp]: "dshift d = c" "length (regs d) = 4" "length (base (regs d ! i)) = 2"
    using assms by (simp_all add: cont_wf_def regs_wf_def)
  have [simp]: "d\<lparr>flip_flop := 0, regs := x\<rparr> = d\<lparr>regs := x\<rparr>" for x using assms(5) by (cases d) simp
  show ?thesis using assms(2-5)
    by (simp add: write_chan_def getff_def chan_port_ok upd_regs_def Let_def base_two_bytes b_def)
qed

lemma read_chan_after:
  fixes lo hi :: u8
  assumes "cont_wf c d" "c < 2" "i < 4" "n < 2" "flip_flop d = 0"
  defines "b \<equiv> ucast lo OR push_bit 8 (ucast hi) :: u16"
    and "p \<equiv> chan_port c i n"
  defines "d2 \<equiv> init_chan i (upd_regs i (\<lambda>r. r\<lparr>base := (base r)[n := b]\<rparr>) d)"
  shows "read_chan p d2 = (ucast lo, d2\<lparr>flip_flop := 1\<rparr>)"
    and "read_chan p (d2\<lparr>flip_flop := 1\<rparr>) = (ucast hi, d2)"
proof -
  let ?r = "regs d ! i"
  have [simp]: "dshift d = c" "length (regs d) = 4" "length (base ?r) = 2" "length (dma_now ?r) = 2"
    using assms by (simp_all add: cont_wf_def regs_wf_def)
  have ff: "flip_flop d2 = 0" "dshift d2 = c" using assms(5) by (simp_all add: d2_def init_chan_def upd_regs_def)
  then have same: "d2\<lparr>flip_flop := 0\<rparr> = d2" by (cases d2) simp
  have val: "dma_now (regs d2 ! i) ! COUNT = 0" "base (regs d2 ! i) ! n = b"
    "dma_now (regs d2 ! i) ! ADDR = push_bit c (uint (base (regs d2 ! i) ! ADDR))"
    using assms(3,4) by (simp_all add: d2_def init_chan_def upd_regs_def ADDR_def COUNT_def)
  have n: "n = ADDR \<or> n = COUNT" using assms(4) by (auto simp: ADDR_def COUNT_def)
  show "read_chan p d2 = (ucast lo, d2\<lparr>flip_flop := 1\<rparr>)"
    and "read_chan p (d2\<lparr>flip_flop := 1\<rparr>) = (ucast hi, d2)"
    using n val assms(2,3) base_byte [of c lo hi]
    by (auto simp: read_chan_def getff_def ff same Let_def p_def chan_port_ok ADDR_def COUNT_def b_def)
qed

definition clear_port :: "nat \<Rightarrow> u32" where
  "clear_port c = (if c = 0 then 0x0c else 0xd8)"

lemma clear_port_write:
  assumes "dma_wf ds" "c < 2"
  shows "snd (dma_ioport_write hp hs c (clear_port c) v (ds, w)) = (upd_cont c (\<lambda>d. d\<lparr>flip_flop := 0\<rparr>) ds, w)"
proof -
  have "list_all (\<lambda>c. list_all (\<lambda>hp. dma_port_map hp c (uint (clear_port c)) = Some Cont
      \<and> unat (drop_bit c (clear_port c) AND 0xf) = 0x0c) [False, True]) [0, 1]" by code_simp
  moreover have "c \<in> set [0, 1]" "hp \<in> set [False, True]" using assms(2) by auto
  ultimately have "dma_port_map hp c (uint (clear_port c)) = Some Cont" "unat (drop_bit c (clear_port c) AND 0xf) = 0x0c"
    unfolding list_all_iff by blast+
  moreover have "dshift (ds ! c) = c" using upd_wf [OF assms] by (simp add: cont_wf_def)
  ultimately show ?thesis by (simp add: dma_ioport_write_def write_cont_def Let_def)
qed

text \<open>
  C21: What the guest programs it reads back. Whatever happened before, after a write to the
  clear-flip-flop port the two bytes written to the address or count port of a channel are the
  two bytes that the next two reads of that port return, low byte first, on the 8-bit and on the
  16-bit controller; no other channel of either controller changes.
\<close>

theorem dma_register_roundtrip:
  fixes lo hi :: u8 and hp :: bool and hs :: "nat \<Rightarrow> 'w transfer_handler" and v :: u32
  assumes "reachable (\<lambda>dw. fst dw = DMA_init) dma_step (ds, w)" "c < 2" "i < 4" "n < 2"
  defines "p \<equiv> chan_port c i n"
  defines "dw1 \<equiv> snd (dma_ioport_write hp hs c (clear_port c) v (ds, w))"
  defines "dw2 \<equiv> snd (dma_ioport_write hp hs c p (ucast lo) dw1)"
  defines "dw3 \<equiv> snd (dma_ioport_write hp hs c p (ucast hi) dw2)"
  defines "r1 \<equiv> dma_ioport_read hp c p (fst dw3)"
  defines "r2 \<equiv> dma_ioport_read hp c p (snd r1)"
  shows "fst r1 = Some (ucast lo) \<and> fst r2 = Some (ucast hi) \<and> snd dw3 = w
    \<and> (\<forall>c' j. c' < 2 \<and> j < 4 \<and> (c', j) \<noteq> (c, i) \<longrightarrow> regs (snd r2 ! c') ! j = regs (ds ! c') ! j)"
proof -
  define d where "d = (ds ! c)\<lparr>flip_flop := 0\<rparr>"
  have wf: "dma_wf ds" using dma.reachable_wf [OF assms(1)] by simp
  then have [simp]: "length ds = 2" and d: "cont_wf c d" "flip_flop d = 0"
    using assms(2) by (simp_all add: dma_wf_def d_def cont_fields_wf)
  have [simp]: "dma_port_map hp c (uint p) = Some Chan"
    unfolding p_def using assms(2-4) by (rule chan_port_ok(1))
  define d2 where "d2 = init_chan i (upd_regs i (\<lambda>r. r\<lparr>base := (base r)[n := ucast lo OR push_bit 8 (ucast hi)]\<rparr>) d)"
  have "dw1 = (ds[c := d], w)" unfolding dw1_def by (simp add: clear_port_write wf assms(2) upd_cont_def d_def)
  then have "dw3 = (ds[c := write_chan p (ucast hi) (write_chan p (ucast lo) d)], w)"
    using assms(2) by (simp add: dw3_def dw2_def dma_ioport_write_def upd_cont_def)
  also have "\<dots> = (ds[c := d2], w)"
    using dma_regs_after [OF d(1) assms(2-4) d(2)] by (simp add: p_def d2_def)
  finally have dw3: "dw3 = (ds[c := d2], w)" .
  have rd: "read_chan p d2 = (ucast lo, d2\<lparr>flip_flop := 1\<rparr>)" "read_chan p (d2\<lparr>flip_flop := 1\<rparr>) = (ucast hi, d2)"
    unfolding p_def d2_def using read_chan_after [OF d(1) assms(2-4) d(2)] by blast+
  have r1: "r1 = (Some (ucast lo), ds[c := d2\<lparr>flip_flop := 1\<rparr>])"
    using assms(2) by (simp add: r1_def dma_ioport_read_def dw3 rd Let_def)
  have r2: "r2 = (Some (ucast hi), ds[c := d2])"
    using assms(2) by (simp add: r2_def r1 dma_ioport_read_def rd Let_def)
  have "length (regs (ds ! c)) = 4" using d(1) by (simp add: d_def cont_wf_def)
  then have "regs (snd r2 ! c') ! j = regs (ds ! c') ! j" if "c' < 2 \<and> j < 4 \<and> (c', j) \<noteq> (c, i)" for c' j
    using that by (auto simp: r2 d2_def d_def init_chan_def upd_regs_def nth_list_update_if)
  then show ?thesis by (simp add: r1 r2 dw3)
qed

theorem dma_register_roundtrip_witness:
  defines "hs \<equiv> (\<lambda>_. dma_phony_handler) :: nat \<Rightarrow> unit transfer_handler"
  defines "wr \<equiv> \<lambda>p v dw. snd (dma_ioport_write True hs 1 p v dw)"
  shows "fst (dma_ioport_read True 1 0xc4 (fst (wr 0xc4 0x12 (wr 0xc4 0x34 (wr 0xd8 0 (DMA_init, ())))))) = Some 0x34"
proof -
  have "reachable (\<lambda>dw. fst dw = DMA_init) dma_step (DMA_init, ())" by (rule reachable.start) simp
  from dma_register_roundtrip [OF this, where c = 1 and i = 1 and n = 0 and lo = "0x34" and hi = "0x12" and hp = True and hs = hs and v = 0]
  show ?thesis by (simp add: chan_port_def clear_port_def wr_def)
qed

section \<open>Addresses\<close>

lemma or_below: "0 \<le> (a::int) \<Longrightarrow> 0 \<le> b \<Longrightarrow> a < 2 ^ n \<Longrightarrow> b < 2 ^ n \<Longrightarrow> a OR b < 2 ^ n"
  by (simp add: OR_upper)

lemma uint_dma_addr:
  fixes r :: dma_regs
  assumes "regs_wf sh r" "sh < 2"
  defines "k \<equiv> push_bit 24 (uint (pageh r AND 0x7f)) OR push_bit 16 (uint (page r)) OR dma_now r ! ADDR"
  shows "0 \<le> k" "k < 2 ^ 31" "2 ^ sh dvd k"
proof -
  have now: "0 \<le> dma_now r ! ADDR" "dma_now r ! ADDR < 2 ^ (16 + sh)" "2 ^ sh dvd dma_now r ! ADDR"
    using assms(1) by (simp_all add: regs_wf_def)
  moreover have "(2::int) ^ (16 + sh) \<le> 2 ^ 31" using assms(2) by (intro power_increasing) simp_all
  ultimately have "dma_now r ! ADDR < 2 ^ 31" by linarith
  moreover have "int (unat (pageh r AND 0x7f)) < 128" using unat_and_numeral(5) [of "pageh r"] by simp
  then have "push_bit 24 (uint (pageh r AND 0x7f)) < 2 ^ 31" by (simp add: push_bit_eq_mult)
  moreover have "uint (page r) < 256" using unsigned_less [of "page r", where ?'a = int] by simp
  then have "push_bit 16 (uint (page r)) < 2 ^ 31" by (simp add: push_bit_eq_mult)
  ultimately show "k < 2 ^ 31" unfolding k_def using now(1) by (intro or_below) simp_all
  show "0 \<le> k" using now(1) by (simp add: k_def)
  have "take_bit sh (dma_now r ! ADDR) = 0" using now(3) by (simp add: take_bit_eq_0_iff)
  then have "take_bit sh k = 0" using assms(2) by (simp add: k_def take_bit_push_bit)
  then show "2 ^ sh dvd k" by (simp add: take_bit_eq_0_iff)
qed

text \<open>
  C33: Device transfers stay where the page registers put them. In every reachable state the
  physical address of a channel is below 2 GB (bit 7 of the high page register never reaches
  it), and the address of a channel of the 16-bit controller is even.
\<close>

theorem dma_address_bounds:
  assumes "reachable (\<lambda>dw. fst dw = DMA_init) dma_step (ds, w)" "nchan < 8"
  shows "dma_addr nchan ds < 0x80000000 \<and> (nchan > 3 \<longrightarrow> \<not> bit (dma_addr nchan ds) 0)"
proof -
  define c where "c = (if nchan > 3 then 1 else 0 :: nat)"
  define r where "r = regs (ds ! c) ! (nchan mod 4)"
  have "c < 2" by (simp add: c_def)
  then have "cont_wf c (ds ! c)" using dma.reachable_wf [OF assms(1)] by (simp add: dma_wf_def)
  then have r: "regs_wf c r" by (simp add: cont_wf_def r_def)
  define k where "k = push_bit 24 (uint (pageh r AND 0x7f)) OR push_bit 16 (uint (page r)) OR dma_now r ! ADDR"
  have a: "dma_addr nchan ds = word_of_int k" by (simp add: dma_addr_def Let_def k_def r_def c_def)
  note k = uint_dma_addr [OF r \<open>c < 2\<close>, folded k_def]
  have "uint (dma_addr nchan ds) = k" using k by (simp add: a uint_word_of_int)
  then have "dma_addr nchan ds < 0x80000000" using k by (simp add: word_less_def)
  moreover have "bit (word_of_int k :: u64) 0 = odd k"
    by (simp only: bit_word_of_int_iff) (simp add: bit_0)
  then have "\<not> bit (dma_addr nchan ds) 0" if "nchan > 3"
    using k(3) that by (simp add: a c_def)
  ultimately show ?thesis by blast
qed

theorem dma_address_bounds_witness: "dma_addr 5 DMA_init < 0x80000000"
proof -
  have "reachable (\<lambda>dw. fst dw = DMA_init) dma_step (DMA_init, ())" by (rule reachable.start) simp
  from dma_address_bounds [OF this, of 5] show ?thesis by simp
qed

section \<open>Which channels run\<close>














section \<open>Memory accesses of a device\<close>

lemma length_mem_read [simp]: "length (mem_read mem a n) = n"
  by (simp add: mem_read_def)

lemma nth_mem_read: "i < n \<Longrightarrow> mem_read mem a n ! i = mem (a + of_nat i)"
  by (simp add: mem_read_def)

lemma mem_write_outside: "(\<And>i. i < length bs \<Longrightarrow> x \<noteq> a + of_nat i) \<Longrightarrow> mem_write a bs mem x = mem x"
proof (induction bs arbitrary: a mem)
  case (Cons b bs)
  have "x \<noteq> a" using Cons.prems [of 0] by simp
  moreover have "x \<noteq> a + 1 + of_nat i" if "i < length bs" for i
    using Cons.prems [of "Suc i"] that by (simp add: add.assoc)
  then have "mem_write (a + 1) bs (mem(a := b)) x = (mem(a := b)) x" by (rule Cons.IH)
  ultimately show ?case by simp
qed simp

lemma of_nat_64_neq_0: "0 < i \<Longrightarrow> i < 2 ^ 64 \<Longrightarrow> of_nat i \<noteq> (0 :: u64)"
  by (auto simp: word_of_nat_eq_0_iff dest: dvd_imp_le)

lemma mem_write_inside:
  assumes "i < length bs" "length bs \<le> 2 ^ 64"
  shows "mem_write a bs mem (a + of_nat i) = bs ! i"
  using assms
proof (induction bs arbitrary: a mem i)
  case (Cons b bs)
  show ?case
  proof (cases i)
    case 0
    have "a \<noteq> a + 1 + of_nat j" if "j < length bs" for j
      using of_nat_64_neq_0 [of "Suc j"] that Cons.prems(2) by (simp add: add.assoc)
    from mem_write_outside [OF this] show ?thesis by (simp add: 0)
  next
    case (Suc j)
    have "a + of_nat (Suc j) = a + 1 + of_nat j" by simp
    moreover have "mem_write (a + 1) bs (mem(a := b)) (a + 1 + of_nat j) = bs ! j"
      using Suc Cons.prems by (intro Cons.IH) simp_all
    ultimately show ?thesis by (simp only: Suc mem_write.simps nth_Cons_Suc)
  qed
qed simp

lemma mem_write_read: "length bs \<le> 2 ^ 64 \<Longrightarrow> mem_read (mem_write a bs mem) a (length bs) = bs"
  by (rule nth_equalityI) (simp_all add: nth_mem_read mem_write_inside)

text \<open>
  Memory a device writes through a channel in ascending mode reads back. The write stores
  the buffer at the channel's address plus the position and leaves the buffer and all other
  memory alone; a read of the same channel, position and length returns the buffer.
\<close>

theorem dma_memory_roundtrip:
  assumes "DMA_get_channel_mode nchan ds AND 0x20 = 0" "length buf \<le> 2 ^ 64"
  shows "DMA_read_memory nchan pos (length buf) ds (fst (DMA_write_memory nchan buf pos ds mem)) = buf
    \<and> snd (DMA_write_memory nchan buf pos ds mem) = buf
    \<and> (\<forall>x. (\<forall>i<length buf. x \<noteq> dma_addr nchan ds + of_nat pos + of_nat i) \<longrightarrow>
           fst (DMA_write_memory nchan buf pos ds mem) x = mem x)"
  using assms by (simp add: DMA_read_memory_def DMA_write_memory_def Let_def mem_write_read mem_write_outside)

theorem dma_memory_roundtrip_witness:
  "DMA_read_memory 2 5 3 DMA_init (fst (DMA_write_memory 2 [7, 8, 9] 5 DMA_init (\<lambda>_. 0))) = [7, 8, 9]"
proof -
  have "DMA_get_channel_mode 2 DMA_init AND 0x20 = 0" by code_simp
  from dma_memory_roundtrip [OF this, of "[7, 8, 9]" 5] show ?thesis by (simp add: numeral_3_eq_3)
qed

lemma mirror_loop:
  assumes "length buf = n" "k \<le> n div 2"
  defines "p \<equiv> foldl (\<lambda>p i. p[i := p ! (n - i - 1)]) buf [0..<k]"
  shows "length p = n \<and> (\<forall>j<n. p ! j = (if j < k then buf ! (n - 1 - j) else buf ! j))"
  using assms(2) unfolding p_def
proof (induction k)
  case (Suc k)
  then show ?case by (auto simp: nth_list_update_if less_Suc_eq assms(1))
qed (simp add: assms(1))

text \<open>
  In descending mode a read does not return the bytes of memory in descending order. The
  device gets the block that ends below the channel's address minus the position; the first half
  of its buffer is the upper half of the block reversed, but the second half is left in
  ascending order, so the lower half of the block is never delivered.
\<close>

theorem dma_descending_read_mirrors:
  fixes pos :: nat
  assumes "DMA_get_channel_mode nchan ds AND 0x20 \<noteq> 0" "j < len"
  defines "a \<equiv> dma_addr nchan ds - of_nat pos - of_nat len"
  shows "DMA_read_memory nchan pos len ds mem ! j
    = mem (a + of_nat (if j < len div 2 then len - 1 - j else j))"
proof -
  let ?buf = "mem_read mem a len"
  have "DMA_read_memory nchan pos len ds mem = foldl (\<lambda>p i. p[i := p ! (len - i - 1)]) ?buf [0..<len div 2]"
    using assms(1) by (simp add: DMA_read_memory_def a_def Let_def)
  with mirror_loop [of ?buf len "len div 2"] assms(2) show ?thesis by (simp add: nth_mem_read)
qed

theorem dma_descending_read_mirrors_witness:
  defines "ds \<equiv> [upd_regs 2 (\<lambda>r. r\<lparr>dma_mode := 0x20, dma_now := [4, 0]\<rparr>) dma_zero, dma_zero]"
  defines "buf \<equiv> DMA_read_memory 2 0 4 ds ucast"
  shows "buf ! 0 = 3 \<and> buf ! 1 = 2 \<and> buf ! 2 = 2 \<and> buf ! 3 = 3"
proof -
  have m: "DMA_get_channel_mode 2 ds AND 0x20 \<noteq> 0" and a: "dma_addr 2 ds = 4"
    unfolding ds_def by code_simp+
  show ?thesis
    using dma_descending_read_mirrors [OF m, of 0 4 0 ucast] dma_descending_read_mirrors [OF m, of 1 4 0 ucast]
      dma_descending_read_mirrors [OF m, of 2 4 0 ucast] dma_descending_read_mirrors [OF m, of 3 4 0 ucast]
    by (simp add: a buf_def)
qed

end
