(* ===== verification/Serial.thy ===== *)
theory Serial
  imports Byte_Queue Qemu_Common
begin

text \<open>
  The 16550A UART (\<open>hw/serial.c\<close>). An operation returns the new state and, in order, the
  levels it drives on its interrupt line and the calls it makes to the character back end.
  What the back end answers is an argument: the record \<open>chr_env\<close> has the clock, the return
  value of \<open>qemu_chr_write\<close> for a byte, the modem lines the back end reports (\<open>None\<close> is
  \<open>-ENOTSUP\<close>), and the value of the local variable that \<open>serial_ioport_write\<close> reads
  uninitialised where the back end reports none. \<open>qemu_chr_accept_input\<close>, which may call
  \<open>serial_receive1\<close>, is always the last call of an operation, so that such a call is a step
  of its own. Shown are that the interrupt line and the identification register always tell
  the pending source of the highest priority, that received bytes are read in order, that
  transmitted bytes leave at once, and that the computed line speed is never zero.
\<close>

section \<open>Definitions\<close>

definition UART_LCR_DLAB :: u8 where "UART_LCR_DLAB = 0x80"
definition UART_IER_MSI :: u8 where "UART_IER_MSI = 0x08"
definition UART_IER_RLSI :: u8 where "UART_IER_RLSI = 0x04"
definition UART_IER_THRI :: u8 where "UART_IER_THRI = 0x02"
definition UART_IER_RDI :: u8 where "UART_IER_RDI = 0x01"
definition UART_IIR_NO_INT :: u8 where "UART_IIR_NO_INT = 0x01"
definition UART_IIR_ID :: u8 where "UART_IIR_ID = 0x06"
definition UART_IIR_MSI :: u8 where "UART_IIR_MSI = 0x00"
definition UART_IIR_THRI :: u8 where "UART_IIR_THRI = 0x02"
definition UART_IIR_RDI :: u8 where "UART_IIR_RDI = 0x04"
definition UART_IIR_RLSI :: u8 where "UART_IIR_RLSI = 0x06"
definition UART_IIR_CTI :: u8 where "UART_IIR_CTI = 0x0C"
definition UART_IIR_FE :: u8 where "UART_IIR_FE = 0xC0"
definition UART_MCR_LOOP :: u8 where "UART_MCR_LOOP = 0x10"
definition UART_MCR_OUT2 :: u8 where "UART_MCR_OUT2 = 0x08"
definition UART_MCR_RTS :: u8 where "UART_MCR_RTS = 0x02"
definition UART_MCR_DTR :: u8 where "UART_MCR_DTR = 0x01"
definition UART_MSR_DCD :: u8 where "UART_MSR_DCD = 0x80"
definition UART_MSR_RI :: u8 where "UART_MSR_RI = 0x40"
definition UART_MSR_DSR :: u8 where "UART_MSR_DSR = 0x20"
definition UART_MSR_CTS :: u8 where "UART_MSR_CTS = 0x10"
definition UART_MSR_TERI :: u8 where "UART_MSR_TERI = 0x04"
definition UART_MSR_ANY_DELTA :: u8 where "UART_MSR_ANY_DELTA = 0x0F"
definition UART_LSR_TEMT :: u8 where "UART_LSR_TEMT = 0x40"
definition UART_LSR_THRE :: u8 where "UART_LSR_THRE = 0x20"
definition UART_LSR_BI :: u8 where "UART_LSR_BI = 0x10"
definition UART_LSR_OE :: u8 where "UART_LSR_OE = 0x02"
definition UART_LSR_DR :: u8 where "UART_LSR_DR = 0x01"
definition UART_LSR_INT_ANY :: u8 where "UART_LSR_INT_ANY = 0x1E"
definition UART_FCR_ITL_1 :: u32 where "UART_FCR_ITL_1 = 0x00"
definition UART_FCR_ITL_2 :: u32 where "UART_FCR_ITL_2 = 0x40"
definition UART_FCR_ITL_3 :: u32 where "UART_FCR_ITL_3 = 0x80"
definition UART_FCR_ITL_4 :: u32 where "UART_FCR_ITL_4 = 0xC0"
definition UART_FCR_XFR :: u32 where "UART_FCR_XFR = 0x04"
definition UART_FCR_RFR :: u32 where "UART_FCR_RFR = 0x02"
definition UART_FCR_FE :: u8 where "UART_FCR_FE = 0x01"
definition UART_FIFO_LENGTH :: nat where "UART_FIFO_LENGTH = 16"
definition MAX_XMIT_RETRY :: int where "MAX_XMIT_RETRY = 4"
definition CHR_TIOCM_CTS :: u32 where "CHR_TIOCM_CTS = 0x020"
definition CHR_TIOCM_CAR :: u32 where "CHR_TIOCM_CAR = 0x040"
definition CHR_TIOCM_DSR :: u32 where "CHR_TIOCM_DSR = 0x100"
definition CHR_TIOCM_RI :: u32 where "CHR_TIOCM_RI = 0x080"
definition CHR_TIOCM_DTR :: u32 where "CHR_TIOCM_DTR = 0x002"
definition CHR_TIOCM_RTS :: u32 where "CHR_TIOCM_RTS = 0x004"

record serial_fifo =
  fifo_data :: "u8 list"
  fifo_count :: u8
  itl :: u8
  fifo_tail :: u8
  fifo_head :: u8

record serial_state =
  divider :: u16
  rbr :: u8
  thr :: u8
  tsr :: u8
  ier :: u8
  iir :: u8
  lcr :: u8
  mcr :: u8
  lsr :: u8
  msr :: u8
  scr :: u8
  fcr :: u8
  fcr_vmstate :: u8
  thr_ipending :: int
  last_break_enable :: int
  it_shift :: nat
  baudbase :: int
  tsr_retry :: int
  last_xmit_ts :: u64
  recv_fifo :: serial_fifo
  xmit_fifo :: serial_fifo
  fifo_timeout_timer :: qemu_timer
  timeout_ipending :: int
  transmit_timer :: qemu_timer
  char_transmit_time :: u64
  poll_msl :: int
  modem_status_poll :: qemu_timer

datatype serial_out = Irq_level int | Chr_write u8 | Set_params int char int int
  | Set_break int | Set_tiocm u32 | Accept_input

record chr_env =
  vm_clock :: u64
  chr_write :: "u8 \<Rightarrow> int"
  chr_tiocm :: "u32 option"
  stack_flags :: u32

datatype which_fifo = XMIT_FIFO | RECV_FIFO

definition fifo_of :: "which_fifo \<Rightarrow> serial_state \<Rightarrow> serial_fifo" where
  "fifo_of w s = (case w of RECV_FIFO \<Rightarrow> recv_fifo s | XMIT_FIFO \<Rightarrow> xmit_fifo s)"

definition set_fifo :: "which_fifo \<Rightarrow> serial_fifo \<Rightarrow> serial_state \<Rightarrow> serial_state" where
  "set_fifo w f s = (case w of RECV_FIFO \<Rightarrow> s\<lparr>recv_fifo := f\<rparr> | XMIT_FIFO \<Rightarrow> s\<lparr>xmit_fifo := f\<rparr>)"

definition fifo_clear :: "which_fifo \<Rightarrow> serial_state \<Rightarrow> serial_state" where
  "fifo_clear w s = set_fifo w ((fifo_of w s)\<lparr>fifo_data := replicate UART_FIFO_LENGTH 0,
     fifo_count := 0, fifo_head := 0, fifo_tail := 0\<rparr>) s"

text \<open>The part of \<open>fifo_put\<close> and of \<open>fifo_get\<close> that changes the FIFO.\<close>

definition fifo_store :: "which_fifo \<Rightarrow> u8 \<Rightarrow> serial_fifo \<Rightarrow> serial_fifo" where
  "fifo_store w chr f =
     (let f = (if w = XMIT_FIFO \<or> unat (fifo_count f) < UART_FIFO_LENGTH
               then f\<lparr>fifo_data := (fifo_data f)[unat (fifo_head f) := chr],
                      fifo_head := (if unat (fifo_head f + 1) = UART_FIFO_LENGTH then 0 else fifo_head f + 1)\<rparr>
               else f)
      in if unat (fifo_count f) < UART_FIFO_LENGTH then f\<lparr>fifo_count := fifo_count f + 1\<rparr> else f)"

definition fifo_put :: "which_fifo \<Rightarrow> u8 \<Rightarrow> serial_state \<Rightarrow> serial_state" where
  "fifo_put w chr s =
     (let s' = set_fifo w (fifo_store w chr (fifo_of w s)) s
      in if \<not> unat (fifo_count (fifo_of w s)) < UART_FIFO_LENGTH \<and> w = RECV_FIFO
         then s'\<lparr>lsr := lsr s' OR UART_LSR_OE\<rparr> else s')"

definition fifo_take :: "serial_fifo \<Rightarrow> u8 \<times> serial_fifo" where
  "fifo_take f =
     (if fifo_count f = 0 then (0, f)
      else (fifo_data f ! unat (fifo_tail f),
            f\<lparr>fifo_tail := (if unat (fifo_tail f + 1) = UART_FIFO_LENGTH then 0 else fifo_tail f + 1),
              fifo_count := fifo_count f - 1\<rparr>))"

definition fifo_get :: "which_fifo \<Rightarrow> serial_state \<Rightarrow> u8 \<times> serial_state" where
  "fifo_get w s = (let (c, f) = fifo_take (fifo_of w s) in (c, set_fifo w f s))"

text \<open>The identification code of the pending source of the highest priority.\<close>

definition pending_iir :: "serial_state \<Rightarrow> u8" where
  "pending_iir s =
     (if ier s AND UART_IER_RLSI \<noteq> 0 \<and> lsr s AND UART_LSR_INT_ANY \<noteq> 0 then UART_IIR_RLSI
      else if ier s AND UART_IER_RDI \<noteq> 0 \<and> timeout_ipending s \<noteq> 0 then UART_IIR_CTI
      else if ier s AND UART_IER_RDI \<noteq> 0 \<and> lsr s AND UART_LSR_DR \<noteq> 0
              \<and> (fcr s AND UART_FCR_FE = 0 \<or> itl (recv_fifo s) \<le> fifo_count (recv_fifo s)) then UART_IIR_RDI
      else if ier s AND UART_IER_THRI \<noteq> 0 \<and> thr_ipending s \<noteq> 0 then UART_IIR_THRI
      else if ier s AND UART_IER_MSI \<noteq> 0 \<and> msr s AND UART_MSR_ANY_DELTA \<noteq> 0 then UART_IIR_MSI
      else UART_IIR_NO_INT)"

definition serial_update_irq :: "serial_state \<Rightarrow> serial_state \<times> serial_out list" where
  "serial_update_irq s =
     (let tmp_iir = pending_iir s
      in (s\<lparr>iir := tmp_iir OR (iir s AND 0xF0)\<rparr>,
          [Irq_level (if tmp_iir \<noteq> UART_IIR_NO_INT then 1 else 0)]))"

text \<open>
  \<open>speed\<close> is the C quotient; where it is zero the division by it traps, which
  \<open>serial_traps\<close> tells.
\<close>

definition serial_speed :: "serial_state \<Rightarrow> int" where
  "serial_speed s = c_div (baudbase s) (uint (divider s))"

definition serial_traps :: "serial_state \<Rightarrow> bool" where
  "serial_traps s \<longleftrightarrow> divider s \<noteq> 0 \<and> serial_speed s = 0"

definition serial_update_parameters :: "serial_state \<Rightarrow> serial_state \<times> serial_out list" where
  "serial_update_parameters s =
     (if divider s = 0 then (s, [])
      else
        let parity = (if lcr s AND 0x08 \<noteq> 0 then (if lcr s AND 0x10 \<noteq> 0 then CHR ''E'' else CHR ''O'') else CHR ''N'');
            stop_bits = (if lcr s AND 0x04 \<noteq> 0 then 2 else 1);
            data_bits = uint (lcr s AND 0x03) + 5;
            frame_size = 1 + (if lcr s AND 0x08 \<noteq> 0 then 1 else 0) + (data_bits + stop_bits);
            speed = serial_speed s
        in (s\<lparr>char_transmit_time := word_of_int (c_div 1000000000 speed * frame_size)\<rparr>,
            [Set_params speed parity data_bits stop_bits]))"

text \<open>One modem line of the status register follows one flag of the back end.\<close>

definition msr_line :: "u32 \<Rightarrow> u32 \<Rightarrow> u8 \<Rightarrow> u8 \<Rightarrow> u8" where
  "msr_line flags f b m = (if flags AND f \<noteq> 0 then m OR b else m AND NOT b)"

definition serial_update_msl :: "chr_env \<Rightarrow> serial_state \<Rightarrow> serial_state \<times> serial_out list" where
  "serial_update_msl e s =
     (let s = s\<lparr>modem_status_poll := qemu_del_timer (modem_status_poll s)\<rparr>
      in case chr_tiocm e of None \<Rightarrow> (s\<lparr>poll_msl := -1\<rparr>, [])
       | Some flags \<Rightarrow>
          let omsr = msr s;
              m = msr_line flags CHR_TIOCM_RI UART_MSR_RI
                   (msr_line flags CHR_TIOCM_CAR UART_MSR_DCD
                     (msr_line flags CHR_TIOCM_DSR UART_MSR_DSR
                       (msr_line flags CHR_TIOCM_CTS UART_MSR_CTS omsr)));
              (s, out) =
                (if m \<noteq> omsr then
                   let m1 = m OR (drop_bit 4 m XOR drop_bit 4 omsr);
                       m2 = (if m1 AND UART_MSR_TERI \<noteq> 0 \<and> omsr AND UART_MSR_RI = 0 then m1 AND NOT UART_MSR_TERI else m1)
                   in serial_update_irq (s\<lparr>msr := m2\<rparr>)
                 else (s\<lparr>msr := m\<rparr>, []))
          in (if poll_msl s \<noteq> 0
              then s\<lparr>modem_status_poll := qemu_mod_timer (modem_status_poll s) (vm_clock e + get_ticks_per_sec div 100)\<rparr>
              else s, out))"

definition serial_receive1 :: "chr_env \<Rightarrow> u8 list \<Rightarrow> serial_state \<Rightarrow> serial_state \<times> serial_out list" where
  "serial_receive1 e buf s =
     serial_update_irq
       (if fcr s AND UART_FCR_FE \<noteq> 0 then
          let s = fold (fifo_put RECV_FIFO) buf s
          in s\<lparr>lsr := lsr s OR UART_LSR_DR,
               fifo_timeout_timer := qemu_mod_timer (fifo_timeout_timer s) (vm_clock e + char_transmit_time s * 4)\<rparr>
        else
          let s = (if lsr s AND UART_LSR_DR \<noteq> 0 then s\<lparr>lsr := lsr s OR UART_LSR_OE\<rparr> else s)
          in s\<lparr>rbr := buf ! 0, lsr := lsr s OR UART_LSR_DR\<rparr>)"

definition serial_xmit :: "chr_env \<Rightarrow> serial_state \<Rightarrow> serial_state \<times> serial_out list" where
  "serial_xmit e s =
     (let new_xmit_ts = vm_clock e;
          s = (if tsr_retry s \<le> 0 then
                 (if fcr s AND UART_FCR_FE \<noteq> 0 then
                    let (c, s) = fifo_get XMIT_FIFO s; s = s\<lparr>tsr := c\<rparr>
                    in if fifo_count (xmit_fifo s) = 0 then s\<lparr>lsr := lsr s OR UART_LSR_THRE\<rparr> else s
                  else s\<lparr>tsr := thr s, lsr := lsr s OR UART_LSR_THRE\<rparr>)
               else s);
          loopback = (mcr s AND UART_MCR_LOOP \<noteq> 0);
          failed = (\<not> loopback \<and> chr_write e (tsr s) \<noteq> 1);
          (s, out) = (if loopback then serial_receive1 e [tsr s] s else (s, [Chr_write (tsr s)]))
      in if failed \<and> tsr_retry s > 0 \<and> tsr_retry s \<le> MAX_XMIT_RETRY then
           (s\<lparr>tsr_retry := tsr_retry s + 1,
              transmit_timer := qemu_mod_timer (transmit_timer s) (new_xmit_ts + char_transmit_time s)\<rparr>, out)
         else
           let s = (if failed then (if poll_msl s < 0 then s\<lparr>tsr_retry := -1\<rparr> else s)
                    else if loopback then s else s\<lparr>tsr_retry := 0\<rparr>);
               s = s\<lparr>last_xmit_ts := vm_clock e\<rparr>
           in if lsr s AND UART_LSR_THRE = 0 then
                (s\<lparr>transmit_timer := qemu_mod_timer (transmit_timer s) (last_xmit_ts s + char_transmit_time s)\<rparr>, out)
              else
                let (s, out') = serial_update_irq (s\<lparr>lsr := lsr s OR UART_LSR_TEMT, thr_ipending := 1\<rparr>)
                in (s, out @ out'))"

text \<open>The eight registers on a write, one definition per \<open>case\<close> of the switch.\<close>

definition write_thr :: "chr_env \<Rightarrow> u32 \<Rightarrow> serial_state \<Rightarrow> serial_state \<times> serial_out list" where
  "write_thr e val s =
     (if lcr s AND UART_LCR_DLAB \<noteq> 0 then
        serial_update_parameters (s\<lparr>divider := (divider s AND 0xff00) OR ucast val\<rparr>)
      else
        let s = s\<lparr>thr := ucast val\<rparr>;
            (s, out) =
              (if fcr s AND UART_FCR_FE \<noteq> 0 then
                 let s = fifo_put XMIT_FIFO (thr s) s
                 in serial_update_irq (s\<lparr>thr_ipending := 0,
                      lsr := lsr s AND NOT UART_LSR_TEMT AND NOT UART_LSR_THRE\<rparr>)
               else serial_update_irq (s\<lparr>thr_ipending := 0, lsr := lsr s AND NOT UART_LSR_THRE\<rparr>));
            (s, out') = serial_xmit e s
        in (s, out @ out'))"

definition write_ier :: "chr_env \<Rightarrow> u32 \<Rightarrow> serial_state \<Rightarrow> serial_state \<times> serial_out list" where
  "write_ier e val s =
     (if lcr s AND UART_LCR_DLAB \<noteq> 0 then
        serial_update_parameters (s\<lparr>divider := (divider s AND 0x00ff) OR ucast (push_bit 8 val)\<rparr>)
      else
        let s = s\<lparr>ier := ucast (val AND 0x0f)\<rparr>;
            (s, out) =
              (if poll_msl s \<ge> 0 then
                 (if ier s AND UART_IER_MSI \<noteq> 0 then serial_update_msl e (s\<lparr>poll_msl := 1\<rparr>)
                  else (s\<lparr>modem_status_poll := qemu_del_timer (modem_status_poll s), poll_msl := 0\<rparr>, []))
               else (s, []))
        in if lsr s AND UART_LSR_THRE \<noteq> 0 then
             let (s, out') = serial_update_irq (s\<lparr>thr_ipending := 1\<rparr>) in (s, out @ out')
           else (s, out))"

definition fcr_itl :: "u32 \<Rightarrow> u8" where
  "fcr_itl val = (if val AND 0xC0 = UART_FCR_ITL_1 then 1 else if val AND 0xC0 = UART_FCR_ITL_2 then 4
     else if val AND 0xC0 = UART_FCR_ITL_3 then 8 else 14)"

definition write_fcr :: "u32 \<Rightarrow> serial_state \<Rightarrow> serial_state \<times> serial_out list" where
  "write_fcr val s =
     (let val = val AND 0xFF
      in if ucast (fcr s) = val then (s, [])
         else
           let val = (if (val XOR ucast (fcr s)) AND ucast UART_FCR_FE \<noteq> 0 then val OR UART_FCR_XFR OR UART_FCR_RFR else val);
               s = (if val AND UART_FCR_RFR \<noteq> 0
                    then fifo_clear RECV_FIFO (s\<lparr>fifo_timeout_timer := qemu_del_timer (fifo_timeout_timer s), timeout_ipending := 0\<rparr>)
                    else s);
               s = (if val AND UART_FCR_XFR \<noteq> 0 then fifo_clear XMIT_FIFO s else s);
               s = (if val AND ucast UART_FCR_FE \<noteq> 0
                    then s\<lparr>iir := iir s OR UART_IIR_FE, recv_fifo := (recv_fifo s)\<lparr>itl := fcr_itl val\<rparr>\<rparr>
                    else s\<lparr>iir := iir s AND NOT UART_IIR_FE\<rparr>)
           in serial_update_irq (s\<lparr>fcr := ucast (val AND 0xC9)\<rparr>))"

definition write_lcr :: "u32 \<Rightarrow> serial_state \<Rightarrow> serial_state \<times> serial_out list" where
  "write_lcr val s =
     (let (s, out) = serial_update_parameters (s\<lparr>lcr := ucast val\<rparr>);
          break_enable = uint (drop_bit 6 val AND 1)
      in if break_enable \<noteq> last_break_enable s
         then (s\<lparr>last_break_enable := break_enable\<rparr>, out @ [Set_break break_enable]) else (s, out))"

definition write_mcr :: "chr_env \<Rightarrow> u32 \<Rightarrow> serial_state \<Rightarrow> serial_state \<times> serial_out list" where
  "write_mcr e val s =
     (let old_mcr = mcr s; s = s\<lparr>mcr := ucast (val AND 0x1f)\<rparr>
      in if val AND ucast UART_MCR_LOOP \<noteq> 0 then (s, [])
         else if poll_msl s \<ge> 0 \<and> old_mcr \<noteq> mcr s then
           let flags = (case chr_tiocm e of Some f \<Rightarrow> f | None \<Rightarrow> stack_flags e);
               flags = flags AND NOT (CHR_TIOCM_RTS OR CHR_TIOCM_DTR);
               flags = (if val AND ucast UART_MCR_RTS \<noteq> 0 then flags OR CHR_TIOCM_RTS else flags);
               flags = (if val AND ucast UART_MCR_DTR \<noteq> 0 then flags OR CHR_TIOCM_DTR else flags)
           in (s\<lparr>modem_status_poll := qemu_mod_timer (modem_status_poll s) (vm_clock e + char_transmit_time s)\<rparr>,
               [Set_tiocm flags])
         else (s, []))"

definition serial_ioport_write :: "chr_env \<Rightarrow> u32 \<Rightarrow> u32 \<Rightarrow> serial_state \<Rightarrow> serial_state \<times> serial_out list" where
  "serial_ioport_write e addr val s =
     (let a = addr AND 7
      in if a = 0 then write_thr e val s
         else if a = 1 then write_ier e val s
         else if a = 2 then write_fcr val s
         else if a = 3 then write_lcr val s
         else if a = 4 then write_mcr e val s
         else if a = 7 then (s\<lparr>scr := ucast val\<rparr>, [])
         else (s, []))"

text \<open>The registers that change on a read.\<close>

definition read_rbr :: "chr_env \<Rightarrow> serial_state \<Rightarrow> u32 \<times> serial_state \<times> serial_out list" where
  "read_rbr e s =
     (if lcr s AND UART_LCR_DLAB \<noteq> 0 then (ucast (divider s AND 0xff), s, [])
      else
        let (ret, s) =
              (if fcr s AND UART_FCR_FE \<noteq> 0 then
                 let (c, s) = fifo_get RECV_FIFO s;
                     s = (if fifo_count (recv_fifo s) = 0
                          then s\<lparr>lsr := lsr s AND NOT (UART_LSR_DR OR UART_LSR_BI)\<rparr>
                          else s\<lparr>fifo_timeout_timer := qemu_mod_timer (fifo_timeout_timer s)
                                   (vm_clock e + char_transmit_time s * 4)\<rparr>)
                 in (ucast c, s\<lparr>timeout_ipending := 0\<rparr>)
               else (ucast (rbr s), s\<lparr>lsr := lsr s AND NOT (UART_LSR_DR OR UART_LSR_BI)\<rparr>));
            (s, out) = serial_update_irq s
        in (ret, s, out @ (if mcr s AND UART_MCR_LOOP = 0 then [Accept_input] else [])))"

definition read_iir :: "serial_state \<Rightarrow> u32 \<times> serial_state \<times> serial_out list" where
  "read_iir s =
     (ucast (iir s), if iir s AND UART_IIR_ID = UART_IIR_THRI then serial_update_irq (s\<lparr>thr_ipending := 0\<rparr>) else (s, []))"

definition read_lsr :: "serial_state \<Rightarrow> u32 \<times> serial_state \<times> serial_out list" where
  "read_lsr s =
     (ucast (lsr s),
      if lsr s AND (UART_LSR_BI OR UART_LSR_OE) \<noteq> 0
      then serial_update_irq (s\<lparr>lsr := lsr s AND NOT (UART_LSR_BI OR UART_LSR_OE)\<rparr>) else (s, []))"

definition read_msr :: "chr_env \<Rightarrow> serial_state \<Rightarrow> u32 \<times> serial_state \<times> serial_out list" where
  "read_msr e s =
     (if mcr s AND UART_MCR_LOOP \<noteq> 0 then
        (push_bit 4 (ucast (mcr s AND 0x0c)) OR push_bit 3 (ucast (mcr s AND 0x02)) OR push_bit 5 (ucast (mcr s AND 0x01)), s, [])
      else
        let (s, out) = (if poll_msl s \<ge> 0 then serial_update_msl e s else (s, []))
        in (ucast (msr s),
            if msr s AND UART_MSR_ANY_DELTA \<noteq> 0
            then let (s, out') = serial_update_irq (s\<lparr>msr := msr s AND 0xF0\<rparr>) in (s, out @ out')
            else (s, out)))"

definition serial_ioport_read :: "chr_env \<Rightarrow> u32 \<Rightarrow> serial_state \<Rightarrow> u32 \<times> serial_state \<times> serial_out list" where
  "serial_ioport_read e addr s =
     (let a = addr AND 7
      in if a = 0 then read_rbr e s
         else if a = 1 then (if lcr s AND UART_LCR_DLAB \<noteq> 0 then (ucast (drop_bit 8 (divider s) AND 0xff), s, []) else (ucast (ier s), s, []))
         else if a = 2 then read_iir s
         else if a = 3 then (ucast (lcr s), s, [])
         else if a = 4 then (ucast (mcr s), s, [])
         else if a = 5 then read_lsr s
         else if a = 6 then read_msr e s
         else (ucast (scr s), s, []))"

definition serial_can_receive :: "serial_state \<Rightarrow> int" where
  "serial_can_receive s =
     (let f = recv_fifo s
      in if fcr s AND UART_FCR_FE \<noteq> 0 then
           (if unat (fifo_count f) < UART_FIFO_LENGTH
            then (if fifo_count f \<le> itl f then uint (itl f) - uint (fifo_count f) else 1) else 0)
         else c_bool (lsr s AND UART_LSR_DR = 0))"

definition serial_receive_break :: "serial_state \<Rightarrow> serial_state \<times> serial_out list" where
  "serial_receive_break s =
     (let s = fifo_put RECV_FIFO 0 (s\<lparr>rbr := 0\<rparr>)
      in serial_update_irq (s\<lparr>lsr := lsr s OR (UART_LSR_BI OR UART_LSR_DR)\<rparr>))"

definition fifo_timeout_int :: "serial_state \<Rightarrow> serial_state \<times> serial_out list" where
  "fifo_timeout_int s =
     (if fifo_count (recv_fifo s) \<noteq> 0 then serial_update_irq (s\<lparr>timeout_ipending := 1\<rparr>) else (s, []))"

definition serial_can_receive1 :: "serial_state \<Rightarrow> int" where
  "serial_can_receive1 s = serial_can_receive s"

definition serial_event :: "int \<Rightarrow> serial_state \<Rightarrow> serial_state \<times> serial_out list" where
  "serial_event event s = (if event = 0 then serial_receive_break s else (s, []))"

definition serial_pre_save :: "serial_state \<Rightarrow> serial_state" where
  "serial_pre_save s = s\<lparr>fcr_vmstate := fcr s\<rparr>"

definition serial_post_load :: "chr_env \<Rightarrow> int \<Rightarrow> serial_state \<Rightarrow> serial_state \<times> serial_out list" where
  "serial_post_load e version_id s =
     (let s = (if version_id < 3 then s\<lparr>fcr_vmstate := 0\<rparr> else s);
          (s, out) = serial_ioport_write e 0x02 (ucast (fcr_vmstate s)) s;
          (s, out') = serial_update_parameters s
      in (s, out @ out'))"

definition serial_reset :: "u64 \<Rightarrow> serial_state \<Rightarrow> serial_state \<times> serial_out list" where
  "serial_reset now s =
     (let s = s\<lparr>rbr := 0, ier := 0, iir := UART_IIR_NO_INT, lcr := 0, lsr := UART_LSR_TEMT OR UART_LSR_THRE,
                msr := UART_MSR_DCD OR UART_MSR_DSR OR UART_MSR_CTS, divider := 0x0C, mcr := UART_MCR_OUT2, scr := 0,
                tsr_retry := 0, char_transmit_time := get_ticks_per_sec div 9600 * 10, poll_msl := 0\<rparr>;
          s = fifo_clear XMIT_FIFO (fifo_clear RECV_FIFO s)
      in (s\<lparr>last_xmit_ts := now, thr_ipending := 0, last_break_enable := 0\<rparr>, [Irq_level 0]))"

text \<open>
  A new UART is zeroed memory with its base frequency and its three timers. A missing back
  end ends the program.
\<close>

definition serial_fifo_zero :: serial_fifo where
  "serial_fifo_zero = \<lparr>fifo_data = replicate UART_FIFO_LENGTH 0, fifo_count = 0, itl = 0, fifo_tail = 0, fifo_head = 0\<rparr>"

definition serial_zero :: serial_state where
  "serial_zero = \<lparr>divider = 0, rbr = 0, thr = 0, tsr = 0, ier = 0, iir = 0, lcr = 0, mcr = 0, lsr = 0, msr = 0, scr = 0,
     fcr = 0, fcr_vmstate = 0, thr_ipending = 0, last_break_enable = 0, it_shift = 0, baudbase = 0, tsr_retry = 0,
     last_xmit_ts = 0, recv_fifo = serial_fifo_zero, xmit_fifo = serial_fifo_zero, fifo_timeout_timer = NoTimer,
     timeout_ipending = 0, transmit_timer = NoTimer, char_transmit_time = 0, poll_msl = 0, modem_status_poll = NoTimer\<rparr>"

definition serial_init_core :: "bool \<Rightarrow> serial_state \<Rightarrow> serial_state option" where
  "serial_init_core has_chr s =
     (if has_chr then Some (s\<lparr>modem_status_poll := Timer None, fifo_timeout_timer := Timer None, transmit_timer := Timer None\<rparr>)
      else None)"

definition serial_set_frequency :: "u32 \<Rightarrow> serial_state \<Rightarrow> serial_state \<times> serial_out list" where
  "serial_set_frequency frequency s = serial_update_parameters (s\<lparr>baudbase := sint frequency\<rparr>)"

definition isa_serial_io :: "u32 list" where "isa_serial_io = [0x3f8, 0x2f8, 0x3e8, 0x2e8]"
definition isa_serial_irq :: "u32 list" where "isa_serial_irq = [4, 3, 4, 3]"

record isa_serial_state =
  index :: u32
  iobase :: u32
  isairq :: u32
  uart :: serial_state

text \<open>
  The first argument is the static counter of the devices made so far, which is counted up.
  The properties that the user leaves open have the value -1.
\<close>

datatype init_result = Init_failed | Init_exit | Init_ok isa_serial_state u32

definition serial_isa_initfn :: "bool \<Rightarrow> u32 \<Rightarrow> isa_serial_state \<Rightarrow> init_result" where
  "serial_isa_initfn has_chr counter isa =
     (let isa = (if index isa = -1 then isa\<lparr>index := counter\<rparr> else isa)
      in if index isa \<ge> 4 then Init_failed
         else
           let isa = (if iobase isa = -1 then isa\<lparr>iobase := isa_serial_io ! unat (index isa)\<rparr> else isa);
               isa = (if isairq isa = -1 then isa\<lparr>isairq := isa_serial_irq ! unat (index isa)\<rparr> else isa)
           in case serial_init_core has_chr ((uart isa)\<lparr>baudbase := 115200\<rparr>) of
                None \<Rightarrow> Init_exit
              | Some s \<Rightarrow> Init_ok (isa\<lparr>uart := s\<rparr>) (counter + 1))"

definition serial_init :: "int \<Rightarrow> bool \<Rightarrow> serial_state option" where
  "serial_init baud has_chr = serial_init_core has_chr (serial_zero\<lparr>baudbase := baud\<rparr>)"

text \<open>The memory-mapped interface. A register is one byte wide in the low bits of the bus value.\<close>

definition bswap16 :: "u16 \<Rightarrow> u16" where
  "bswap16 x = drop_bit 8 (x AND 0xff00) OR push_bit 8 (x AND 0x00ff)"

definition bswap32 :: "u32 \<Rightarrow> u32" where
  "bswap32 x = push_bit 24 (x AND 0x000000ff) OR push_bit 8 (x AND 0x0000ff00)
     OR drop_bit 8 (x AND 0x00ff0000) OR drop_bit 24 (x AND 0xff000000)"

definition mm_read :: "chr_env \<Rightarrow> u64 \<Rightarrow> serial_state \<Rightarrow> u32 \<times> serial_state \<times> serial_out list" where
  "mm_read e addr s = serial_ioport_read e (ucast (drop_bit (it_shift s) addr)) s"

definition mm_write :: "chr_env \<Rightarrow> u64 \<Rightarrow> u32 \<Rightarrow> serial_state \<Rightarrow> serial_state \<times> serial_out list" where
  "mm_write e addr value s = serial_ioport_write e (ucast (drop_bit (it_shift s) addr)) value s"

definition serial_mm_readb :: "chr_env \<Rightarrow> u64 \<Rightarrow> serial_state \<Rightarrow> u32 \<times> serial_state \<times> serial_out list" where
  "serial_mm_readb e addr s = apfst (\<lambda>v. v AND 0xFF) (mm_read e addr s)"

definition serial_mm_writeb :: "chr_env \<Rightarrow> u64 \<Rightarrow> u32 \<Rightarrow> serial_state \<Rightarrow> serial_state \<times> serial_out list" where
  "serial_mm_writeb e addr value s = mm_write e addr (value AND 0xFF) s"

definition serial_mm_readw_be :: "chr_env \<Rightarrow> u64 \<Rightarrow> serial_state \<Rightarrow> u32 \<times> serial_state \<times> serial_out list" where
  "serial_mm_readw_be e addr s = apfst (\<lambda>v. ucast (bswap16 (ucast (v AND 0xFFFF)))) (mm_read e addr s)"

definition serial_mm_readw_le :: "chr_env \<Rightarrow> u64 \<Rightarrow> serial_state \<Rightarrow> u32 \<times> serial_state \<times> serial_out list" where
  "serial_mm_readw_le e addr s = apfst (\<lambda>v. v AND 0xFFFF) (mm_read e addr s)"

definition serial_mm_writew_be :: "chr_env \<Rightarrow> u64 \<Rightarrow> u32 \<Rightarrow> serial_state \<Rightarrow> serial_state \<times> serial_out list" where
  "serial_mm_writew_be e addr value s = mm_write e addr (ucast (bswap16 (ucast value)) AND 0xFFFF) s"

definition serial_mm_writew_le :: "chr_env \<Rightarrow> u64 \<Rightarrow> u32 \<Rightarrow> serial_state \<Rightarrow> serial_state \<times> serial_out list" where
  "serial_mm_writew_le e addr value s = mm_write e addr (value AND 0xFFFF) s"

definition serial_mm_readl_be :: "chr_env \<Rightarrow> u64 \<Rightarrow> serial_state \<Rightarrow> u32 \<times> serial_state \<times> serial_out list" where
  "serial_mm_readl_be e addr s = apfst bswap32 (mm_read e addr s)"

definition serial_mm_readl_le :: "chr_env \<Rightarrow> u64 \<Rightarrow> serial_state \<Rightarrow> u32 \<times> serial_state \<times> serial_out list" where
  "serial_mm_readl_le e addr s = mm_read e addr s"

definition serial_mm_writel_be :: "chr_env \<Rightarrow> u64 \<Rightarrow> u32 \<Rightarrow> serial_state \<Rightarrow> serial_state \<times> serial_out list" where
  "serial_mm_writel_be e addr value s = mm_write e addr (bswap32 value) s"

definition serial_mm_writel_le :: "chr_env \<Rightarrow> u64 \<Rightarrow> u32 \<Rightarrow> serial_state \<Rightarrow> serial_state \<times> serial_out list" where
  "serial_mm_writel_le e addr value s = mm_write e addr value s"

definition serial_mm_init :: "chr_env \<Rightarrow> nat \<Rightarrow> int \<Rightarrow> bool \<Rightarrow> (serial_state \<times> serial_out list) option" where
  "serial_mm_init e sh baud has_chr =
     map_option (serial_update_msl e) (serial_init_core has_chr (serial_zero\<lparr>it_shift := sh, baudbase := baud\<rparr>))"

section \<open>The FIFOs\<close>

definition fifo_ok :: "serial_fifo \<Rightarrow> bool" where
  "fifo_ok f \<longleftrightarrow> length (fifo_data f) = 16
     \<and> ring_ok (fifo_data f) (unat (fifo_tail f)) (unat (fifo_head f)) (unat (fifo_count f))"

definition fifo_elems :: "serial_fifo \<Rightarrow> u8 list" where
  "fifo_elems f = ring_elems (fifo_data f) (unat (fifo_tail f)) (unat (fifo_count f))"

lemma length_fifo_elems [simp]: "length (fifo_elems f) = unat (fifo_count f)"
  by (simp add: fifo_elems_def)

lemma unat_inc8: "unat x < 16 \<Longrightarrow> unat (x + 1 :: u8) = Suc (unat x)"
  by (simp add: unat_word_ariths(1))

lemma unat_dec8: "x \<noteq> 0 \<Longrightarrow> unat (x - 1 :: u8) = unat x - 1"
  by (simp add: unat_minus_one)

lemma unat_wrap16:
  assumes "unat (x::u8) < 16"
  shows "unat (if unat (x + 1) = 16 then 0 else x + 1) = Suc (unat x) mod 16"
  using assms by (simp add: unat_inc8 mod_Suc)

lemma fifo_store_ring:
  assumes "fifo_ok f" "unat (fifo_count f) < 16"
  shows "fifo_ok (fifo_store w x f)" and "fifo_elems (fifo_store w x f) = fifo_elems f @ [x]"
    and "unat (fifo_count (fifo_store w x f)) = Suc (unat (fifo_count f))"
proof -
  have h: "unat (fifo_head f) < 16" and l: "length (fifo_data f) = 16"
    and r: "ring_ok (fifo_data f) (unat (fifo_tail f)) (unat (fifo_head f)) (unat (fifo_count f))"
    using assms(1) by (auto simp: fifo_ok_def ring_ok_def)
  note put = ring_put [OF r, of x, unfolded l, OF assms(2)]
  show "fifo_ok (fifo_store w x f)" and "fifo_elems (fifo_store w x f) = fifo_elems f @ [x]"
    and "unat (fifo_count (fifo_store w x f)) = Suc (unat (fifo_count f))"
    using put assms(2) l
    by (simp_all add: fifo_ok_def fifo_elems_def fifo_store_def Let_def UART_FIFO_LENGTH_def unat_inc8 unat_wrap16 [OF h] del: One_nat_def)
qed

lemma fifo_take_ring:
  assumes "fifo_ok f"
  shows "fifo_ok (snd (fifo_take f))"
    and "fifo_elems f = x # xs \<Longrightarrow> fst (fifo_take f) = x"
    and "fifo_elems f = x # xs \<Longrightarrow> fifo_elems (snd (fifo_take f)) = xs"
    and "unat (fifo_count (snd (fifo_take f))) = unat (fifo_count f) - 1"
proof -
  have *: "fifo_ok (snd (fifo_take f)) \<and> (\<forall>x xs. fifo_elems f = x # xs \<longrightarrow>
      fst (fifo_take f) = x \<and> fifo_elems (snd (fifo_take f)) = xs)
      \<and> unat (fifo_count (snd (fifo_take f))) = unat (fifo_count f) - 1"
  proof (cases "fifo_count f = 0")
    case True
    then have "fifo_elems f = []" by (simp add: fifo_elems_def)
    then show ?thesis using assms True by (simp add: fifo_take_def)
  next
    case False
    then have c: "unat (fifo_count f) = Suc (unat (fifo_count f - 1))" by (simp add: unat_dec8 unat_gt_0)
    have t: "unat (fifo_tail f) < 16" and l: "length (fifo_data f) = 16"
      and r: "ring_ok (fifo_data f) (unat (fifo_tail f)) (unat (fifo_head f)) (Suc (unat (fifo_count f - 1)))"
      using assms c by (auto simp: fifo_ok_def ring_ok_def)
    note get = ring_get [OF r, unfolded l]
    show ?thesis
      using get False c l
      by (simp add: fifo_ok_def fifo_elems_def fifo_take_def UART_FIFO_LENGTH_def unat_wrap16 [OF t])
  qed
  then show "fifo_ok (snd (fifo_take f))"
    and "fifo_elems f = x # xs \<Longrightarrow> fst (fifo_take f) = x"
    and "fifo_elems f = x # xs \<Longrightarrow> fifo_elems (snd (fifo_take f)) = xs"
    and "unat (fifo_count (snd (fifo_take f))) = unat (fifo_count f) - 1" by auto
qed

lemma fifo_store_full: "fifo_ok f \<Longrightarrow> unat (fifo_count f) = 16 \<Longrightarrow> fifo_store RECV_FIFO x f = f"
  by (simp add: fifo_store_def UART_FIFO_LENGTH_def)

interpretation uart_fifo: dropping_fifo 16 "fifo_store RECV_FIFO" fifo_take fifo_elems fifo_ok
  by unfold_locales (simp_all add: fifo_store_ring fifo_take_ring fifo_store_full, auto simp: fifo_ok_def ring_ok_def)

section \<open>The interrupt line tells the pending source\<close>

lemmas uart_bits =
  UART_LCR_DLAB_def UART_IER_MSI_def UART_IER_RLSI_def UART_IER_THRI_def UART_IER_RDI_def
  UART_IIR_NO_INT_def UART_IIR_ID_def UART_IIR_MSI_def UART_IIR_THRI_def UART_IIR_RDI_def
  UART_IIR_RLSI_def UART_IIR_CTI_def UART_IIR_FE_def UART_MCR_LOOP_def UART_MCR_OUT2_def
  UART_MCR_RTS_def UART_MCR_DTR_def UART_MSR_DCD_def UART_MSR_RI_def UART_MSR_DSR_def
  UART_MSR_CTS_def UART_MSR_TERI_def UART_MSR_ANY_DELTA_def UART_LSR_TEMT_def UART_LSR_THRE_def
  UART_LSR_BI_def UART_LSR_OE_def UART_LSR_DR_def UART_LSR_INT_ANY_def UART_FCR_ITL_1_def
  UART_FCR_ITL_2_def UART_FCR_ITL_3_def UART_FCR_ITL_4_def UART_FCR_XFR_def UART_FCR_RFR_def
  UART_FCR_FE_def

primrec line_after :: "int \<Rightarrow> serial_out list \<Rightarrow> int" where
  "line_after l [] = l"
| "line_after l (x # xs) = line_after (case x of Irq_level k \<Rightarrow> k | _ \<Rightarrow> l) xs"

lemma line_after_append [simp]: "line_after l (xs @ ys) = line_after (line_after l xs) ys"
  by (induction xs arbitrary: l) simp_all

definition agree :: "serial_state \<Rightarrow> int \<Rightarrow> bool" where
  "agree s l \<longleftrightarrow> iir s AND 0x0f = pending_iir s \<and> l = c_bool (pending_iir s \<noteq> UART_IIR_NO_INT)"

definition serial_ok :: "serial_state \<Rightarrow> bool" where
  "serial_ok s \<longleftrightarrow> fifo_ok (recv_fifo s) \<and> fifo_ok (xmit_fifo s) \<and> fifo_count (xmit_fifo s) = 0
     \<and> bit (lsr s) 5 \<and> bit (lsr s) 6 \<and> tsr_retry s \<in> {0, -1} \<and> transmit_timer s = Timer None"

text \<open>Recomputing the line leaves it in agreement, whatever the state was.\<close>

lemma pending_iir_cases: "pending_iir s \<in> {6, 12, 4, 2, 0, 1}"
  by (simp add: pending_iir_def uart_bits)

lemma pending_iir_iir [simp]: "pending_iir (s\<lparr>iir := v\<rparr>) = pending_iir s"
  by (simp add: pending_iir_def)

lemma iir_low: "x \<in> {6, 12, 4, 2, 0, 1} \<Longrightarrow> (x OR (v AND 0xF0)) AND 0x0F = (x :: u8)"
  by (auto simp: bit.conj_disj_distrib2 and.assoc)

lemma agree_update_irq [simp]: "agree (fst (serial_update_irq s)) (line_after l (snd (serial_update_irq s)))"
  using iir_low [OF pending_iir_cases] by (simp add: agree_def serial_update_irq_def Let_def)

lemma update_irq_fst: "fst (serial_update_irq s) = s\<lparr>iir := pending_iir s OR (iir s AND 0xF0)\<rparr>"
  by (simp add: serial_update_irq_def Let_def)

lemma ok_update_irq [simp]: "serial_ok (fst (serial_update_irq s)) = serial_ok s"
  by (simp add: update_irq_fst serial_ok_def)

text \<open>Changes that neither touch an interrupt source nor the transmitter.\<close>

definition same_sources :: "serial_state \<Rightarrow> serial_state \<Rightarrow> bool" where
  "same_sources s t \<longleftrightarrow> iir t = iir s \<and> pending_iir t = pending_iir s"

lemma agree_same: "same_sources s t \<Longrightarrow> agree t l = agree s l"
  by (simp add: same_sources_def agree_def)

lemma params_same:
  "same_sources s (fst (serial_update_parameters s))" "line_after l (snd (serial_update_parameters s)) = l"
  "serial_ok (fst (serial_update_parameters s)) = serial_ok s"
  by (simp_all add: serial_update_parameters_def Let_def same_sources_def pending_iir_def serial_ok_def)

lemma msl_ok: "serial_ok s \<Longrightarrow> serial_ok (fst (serial_update_msl e s))"
  by (auto simp: serial_update_msl_def Let_def split_beta serial_ok_def update_irq_fst split: option.split)

lemma msl_agree: "agree s l \<Longrightarrow> agree (fst (serial_update_msl e s)) (line_after l (snd (serial_update_msl e s)))"
proof (cases "chr_tiocm e")
  case None
  assume "agree s l"
  then show ?thesis using None by (simp add: serial_update_msl_def agree_def pending_iir_def)
next
  case (Some f)
  assume a: "agree s l"
  define m where "m = msr_line f CHR_TIOCM_RI UART_MSR_RI (msr_line f CHR_TIOCM_CAR UART_MSR_DCD
    (msr_line f CHR_TIOCM_DSR UART_MSR_DSR (msr_line f CHR_TIOCM_CTS UART_MSR_CTS (msr s))))"
  have poll: "agree (t\<lparr>modem_status_poll := x\<rparr>) k = agree t k" for t x k by (simp add: agree_def pending_iir_def)
  show ?thesis
  proof (cases "m = msr s")
    case True
    then have "agree (s\<lparr>modem_status_poll := x, msr := m\<rparr>) l" for x using a by (simp add: agree_def pending_iir_def)
    then show ?thesis using True Some by (simp add: serial_update_msl_def m_def Let_def poll)
  next
    case False
    then show ?thesis using Some by (simp add: serial_update_msl_def m_def [symmetric] Let_def split_beta poll)
  qed
qed

text \<open>The operations keep the state of the transmitter and of the FIFOs.\<close>

lemma fifo_of_set [simp]: "fifo_of w (set_fifo w f s) = f"
  by (cases w) (simp_all add: fifo_of_def set_fifo_def)

lemma fifo_put_recv_fifo: "recv_fifo (fifo_put RECV_FIFO x s) = fifo_store RECV_FIFO x (recv_fifo s)"
  by (simp add: fifo_put_def set_fifo_def fifo_of_def Let_def)

lemma fifo_put_recv_ok: "serial_ok s \<Longrightarrow> serial_ok (fifo_put RECV_FIFO x s)"
  by (simp add: serial_ok_def fifo_put_recv_fifo uart_fifo.invar_put_any)
    (simp add: fifo_put_def set_fifo_def fifo_of_def Let_def bit_simps)

lemma fold_put_ok: "serial_ok s \<Longrightarrow> serial_ok (fold (fifo_put RECV_FIFO) bs s)"
  by (induction bs arbitrary: s) (simp_all add: fifo_put_recv_ok)

lemma ok_recv_fields:
  "serial_ok s \<Longrightarrow> serial_ok (s\<lparr>lsr := lsr s OR v, fifo_timeout_timer := t\<rparr>)"
  "serial_ok s \<Longrightarrow> serial_ok (s\<lparr>rbr := c, lsr := lsr s OR v\<rparr>)"
  "serial_ok s \<Longrightarrow> serial_ok (s\<lparr>lsr := lsr s OR v\<rparr>)"
  "serial_ok s \<Longrightarrow> serial_ok (s\<lparr>timeout_ipending := i\<rparr>)"
  "serial_ok s \<Longrightarrow> serial_ok (s\<lparr>rbr := c\<rparr>)"
  by (simp_all add: serial_ok_def bit_simps)

lemma receive1_ok: "serial_ok s \<Longrightarrow> serial_ok (fst (serial_receive1 e bs s))"
  by (simp add: serial_receive1_def Let_def fold_put_ok ok_recv_fields)

lemma receive1_agree: "agree (fst (serial_receive1 e bs s)) (line_after l (snd (serial_receive1 e bs s)))"
  by (simp add: serial_receive1_def)

text \<open>A transmission with the FIFO or the holding register filled just before.\<close>

definition sendable :: "serial_state \<Rightarrow> bool" where
  "sendable s \<longleftrightarrow> fifo_ok (recv_fifo s) \<and> fifo_ok (xmit_fifo s) \<and> tsr_retry s \<in> {0, -1} \<and> transmit_timer s = Timer None
     \<and> unat (fifo_count (xmit_fifo s)) = (if fcr s AND UART_FCR_FE \<noteq> 0 then 1 else 0)"

text \<open>The state in which \<open>serial_xmit\<close> hands the byte on.\<close>

definition loaded :: "serial_state \<Rightarrow> serial_state" where
  "loaded s = (if fcr s AND UART_FCR_FE \<noteq> 0
     then s\<lparr>xmit_fifo := snd (fifo_take (xmit_fifo s)), tsr := fst (fifo_take (xmit_fifo s)), lsr := lsr s OR UART_LSR_THRE\<rparr>
     else s\<lparr>tsr := thr s, lsr := lsr s OR UART_LSR_THRE\<rparr>)"

lemma sendable_take:
  assumes "sendable s" "fcr s AND UART_FCR_FE \<noteq> 0"
  shows "fifo_count (snd (fifo_take (xmit_fifo s))) = 0"
  using assms fifo_take_ring(4) [of "xmit_fifo s"] by (simp add: sendable_def unat_eq_0)

lemma loaded_ok: "sendable s \<Longrightarrow> serial_ok ((loaded s)\<lparr>lsr := lsr (loaded s) OR UART_LSR_TEMT\<rparr>)"
  using sendable_take [of s]
  by (auto simp: loaded_def serial_ok_def sendable_def fifo_take_ring uart_bits bit_simps unat_eq_0)

lemma loaded_eq:
  assumes "sendable s"
  shows "(if tsr_retry s \<le> 0 then
                 (if fcr s AND UART_FCR_FE \<noteq> 0 then
                    let (c, s) = fifo_get XMIT_FIFO s; s = s\<lparr>tsr := c\<rparr>
                    in if fifo_count (xmit_fifo s) = 0 then s\<lparr>lsr := lsr s OR UART_LSR_THRE\<rparr> else s
                  else s\<lparr>tsr := thr s, lsr := lsr s OR UART_LSR_THRE\<rparr>)
               else s) = loaded s"
  using assms sendable_take [of s]
  by (auto simp: loaded_def fifo_get_def fifo_of_def set_fifo_def split_beta Let_def sendable_def)

definition sent :: "chr_env \<Rightarrow> serial_state \<Rightarrow> serial_state" where
  "sent e s = (if chr_write e (tsr s) = 1 then s\<lparr>tsr_retry := 0\<rparr>
     else if poll_msl s < 0 then s\<lparr>tsr_retry := -1\<rparr> else s)"

definition finished :: "chr_env \<Rightarrow> serial_state \<Rightarrow> serial_state" where
  "finished e s = s\<lparr>last_xmit_ts := vm_clock e, lsr := lsr s OR UART_LSR_TEMT, thr_ipending := 1\<rparr>"

lemma put_lsr: "bit (lsr s) n \<Longrightarrow> bit (lsr (fifo_put RECV_FIFO x s)) n"
  by (simp add: fifo_put_def set_fifo_def fifo_of_def Let_def bit_simps)

lemma fold_put_lsr: "bit (lsr s) n \<Longrightarrow> bit (lsr (fold (fifo_put RECV_FIFO) bs s)) n"
  by (induction bs arbitrary: s) (simp_all add: put_lsr)

lemma receive1_lsr: "bit (lsr s) n \<Longrightarrow> bit (lsr (fst (serial_receive1 e bs s))) n"
  by (simp add: serial_receive1_def update_irq_fst Let_def bit_or_iff fold_put_lsr)

lemma thre_bit: "lsr s AND UART_LSR_THRE = 0 \<longleftrightarrow> \<not> bit (lsr s) 5"
  by (simp add: uart_bits and_numeral_eq_0)

lemma xmit_eq:
  assumes "sendable s"
  shows "serial_xmit e s =
    (let r = (if mcr s AND UART_MCR_LOOP \<noteq> 0 then serial_receive1 e [tsr (loaded s)] (loaded s)
              else (sent e (loaded s), [Chr_write (tsr (loaded s))]));
         u = serial_update_irq (finished e (fst r))
     in (fst u, snd r @ snd u))"
proof -
  have m: "mcr (loaded s) = mcr s" "tsr_retry (loaded s) \<le> 0" using assms by (auto simp: loaded_def sendable_def)
  have thre: "bit (lsr (loaded s)) 5" by (simp add: loaded_def uart_bits bit_or_iff)
  then have rc: "bit (lsr (fst (serial_receive1 e bs (loaded s)))) 5" for bs by (rule receive1_lsr)
  show ?thesis
  proof (cases "mcr s AND UART_MCR_LOOP = 0")
    case True
    then show ?thesis unfolding serial_xmit_def unfolding loaded_eq [OF assms] unfolding Let_def
      using m thre by (simp add: split_beta sent_def finished_def thre_bit)
  next
    case False
    then show ?thesis unfolding serial_xmit_def unfolding loaded_eq [OF assms] unfolding Let_def
      using m rc by (simp add: split_beta finished_def thre_bit)
  qed
qed

lemma receive1_fields [simp]:
  "tsr_retry (fst (serial_receive1 e bs s)) = tsr_retry s"
  "transmit_timer (fst (serial_receive1 e bs s)) = transmit_timer s"
  "xmit_fifo (fst (serial_receive1 e bs s)) = xmit_fifo s"
proof -
  have "tsr_retry (fold (fifo_put RECV_FIFO) bs s) = tsr_retry s
    \<and> transmit_timer (fold (fifo_put RECV_FIFO) bs s) = transmit_timer s
    \<and> xmit_fifo (fold (fifo_put RECV_FIFO) bs s) = xmit_fifo s"
    by (induction bs arbitrary: s) (simp_all add: fifo_put_def set_fifo_def fifo_of_def Let_def)
  then show "tsr_retry (fst (serial_receive1 e bs s)) = tsr_retry s"
    "transmit_timer (fst (serial_receive1 e bs s)) = transmit_timer s"
    "xmit_fifo (fst (serial_receive1 e bs s)) = xmit_fifo s"
    by (simp_all add: serial_receive1_def update_irq_fst Let_def)
qed

lemma receive1_recv_ok:
  assumes "fifo_ok (recv_fifo s)"
  shows "fifo_ok (recv_fifo (fst (serial_receive1 e bs s)))"
proof -
  have "recv_fifo (fold (fifo_put RECV_FIFO) bs s) = fold (fifo_store RECV_FIFO) bs (recv_fifo s)"
    by (induction bs arbitrary: s) (simp_all add: fifo_put_recv_fifo)
  then show ?thesis using assms by (simp add: serial_receive1_def update_irq_fst Let_def uart_fifo.put_take)
qed

lemma xmit_ok:
  assumes "sendable s"
  shows "serial_ok (fst (serial_xmit e s))"
proof -
  let ?l = "loaded s"
  have l: "fifo_ok (recv_fifo ?l)" "fifo_ok (xmit_fifo ?l)" "fifo_count (xmit_fifo ?l) = 0" "bit (lsr ?l) 5"
    "tsr_retry ?l \<in> {0, -1}" "transmit_timer ?l = Timer None"
    using loaded_ok [OF assms] by (simp_all add: serial_ok_def uart_bits bit_simps)
  have "serial_ok (finished e t)" if "fifo_ok (recv_fifo t)" "fifo_ok (xmit_fifo t)" "fifo_count (xmit_fifo t) = 0"
    "bit (lsr t) 5" "tsr_retry t \<in> {0, -1}" "transmit_timer t = Timer None" for t
    using that by (simp add: finished_def serial_ok_def uart_bits bit_or_iff)
  then show ?thesis using l
    by (simp add: xmit_eq [OF assms] Let_def sent_def receive1_lsr receive1_recv_ok)
qed

lemma xmit_agree:
  assumes "sendable s"
  shows "agree (fst (serial_xmit e s)) (line_after l (snd (serial_xmit e s)))"
  by (simp add: xmit_eq [OF assms] Let_def)

text \<open>What \<open>serial_ioport_write\<close> hands to \<open>serial_xmit\<close> for a byte in the holding register.\<close>

definition thr_filled :: "u8 \<Rightarrow> serial_state \<Rightarrow> serial_state" where
  "thr_filled c s =
     (if fcr s AND UART_FCR_FE \<noteq> 0
      then s\<lparr>thr := c, xmit_fifo := fifo_store XMIT_FIFO c (xmit_fifo s), thr_ipending := 0,
             lsr := lsr s AND NOT UART_LSR_TEMT AND NOT UART_LSR_THRE\<rparr>
      else s\<lparr>thr := c, thr_ipending := 0, lsr := lsr s AND NOT UART_LSR_THRE\<rparr>)"

lemma write_thr_eq:
  assumes "lcr s AND UART_LCR_DLAB = 0"
  shows "write_thr e val s =
    (let u = serial_update_irq (thr_filled (ucast val) s); x = serial_xmit e (fst u) in (fst x, snd u @ snd x))"
  using assms by (simp add: write_thr_def thr_filled_def fifo_put_def fifo_of_def set_fifo_def Let_def split_beta)

lemma thr_filled_sendable: "serial_ok s \<Longrightarrow> sendable (fst (serial_update_irq (thr_filled c s)))"
  by (auto simp: sendable_def update_irq_fst thr_filled_def serial_ok_def fifo_store_ring)

lemma ok_fields:
  "serial_ok (s\<lparr>divider := d\<rparr>) = serial_ok s"
  "serial_ok (s\<lparr>lcr := c\<rparr>) = serial_ok s"
  "serial_ok (s\<lparr>mcr := c\<rparr>) = serial_ok s"
  "serial_ok (s\<lparr>scr := c\<rparr>) = serial_ok s"
  "serial_ok (s\<lparr>ier := c\<rparr>) = serial_ok s"
  "serial_ok (s\<lparr>msr := c\<rparr>) = serial_ok s"
  "serial_ok (s\<lparr>iir := c\<rparr>) = serial_ok s"
  "serial_ok (s\<lparr>fcr := c\<rparr>) = serial_ok s"
  "serial_ok (s\<lparr>poll_msl := i\<rparr>) = serial_ok s"
  "serial_ok (s\<lparr>thr_ipending := i\<rparr>) = serial_ok s"
  "serial_ok (s\<lparr>timeout_ipending := i\<rparr>) = serial_ok s"
  "serial_ok (s\<lparr>last_break_enable := i\<rparr>) = serial_ok s"
  "serial_ok (s\<lparr>modem_status_poll := t\<rparr>) = serial_ok s"
  "serial_ok (s\<lparr>fifo_timeout_timer := t\<rparr>) = serial_ok s"
  by (simp_all add: serial_ok_def)

lemma agree_fields:
  "agree (s\<lparr>divider := d\<rparr>) l = agree s l"
  "agree (s\<lparr>lcr := c\<rparr>) l = agree s l"
  "agree (s\<lparr>mcr := c\<rparr>) l = agree s l"
  "agree (s\<lparr>scr := c\<rparr>) l = agree s l"
  "agree (s\<lparr>poll_msl := i\<rparr>) l = agree s l"
  "agree (s\<lparr>last_break_enable := i\<rparr>) l = agree s l"
  "agree (s\<lparr>modem_status_poll := t\<rparr>) l = agree s l"
  by (simp_all add: agree_def pending_iir_def)

definition uart_wf :: "serial_state \<times> int \<Rightarrow> bool" where
  "uart_wf x \<longleftrightarrow> serial_ok (fst x) \<and> agree (fst x) (snd x)"

definition after :: "int \<Rightarrow> serial_state \<times> serial_out list \<Rightarrow> serial_state \<times> int" where
  "after l r = (fst r, line_after l (snd r))"

lemma params_wf: "uart_wf (s, l) \<Longrightarrow> uart_wf (after l (serial_update_parameters s))"
  by (simp add: uart_wf_def after_def params_same agree_same [OF params_same(1)])

lemma write_thr_wf: "uart_wf (s, l) \<Longrightarrow> uart_wf (after l (write_thr e val s))"
proof (cases "lcr s AND UART_LCR_DLAB = 0")
  case True
  assume "uart_wf (s, l)"
  then have "sendable (fst (serial_update_irq (thr_filled (ucast val) s)))"
    by (intro thr_filled_sendable) (simp add: uart_wf_def)
  then show ?thesis by (simp add: write_thr_eq [OF True] after_def uart_wf_def Let_def xmit_ok xmit_agree)
next
  case False
  assume "uart_wf (s, l)"
  then have "uart_wf (s\<lparr>divider := d\<rparr>, l)" for d by (simp add: uart_wf_def ok_fields agree_fields)
  then show ?thesis using False by (simp add: write_thr_def params_wf)
qed

lemma msl_lsr: "lsr (fst (serial_update_msl e s)) = lsr s"
  by (simp add: serial_update_msl_def Let_def split_beta update_irq_fst split: option.split)

lemma write_ier_wf: "uart_wf (s, l) \<Longrightarrow> uart_wf (after l (write_ier e val s))"
proof (cases "lcr s AND UART_LCR_DLAB = 0")
  case True
  assume w: "uart_wf (s, l)"
  define t where "t = s\<lparr>ier := ucast (val AND 0x0f)\<rparr>"
  define r where "r = (if poll_msl t \<ge> 0 then
      (if ier t AND UART_IER_MSI \<noteq> 0 then serial_update_msl e (t\<lparr>poll_msl := 1\<rparr>)
       else (t\<lparr>modem_status_poll := qemu_del_timer (modem_status_poll t), poll_msl := 0\<rparr>, [])) else (t, []))"
  have ok: "serial_ok (fst r)" using w by (simp add: r_def t_def uart_wf_def msl_ok ok_fields)
  then have "lsr (fst r) AND UART_LSR_THRE \<noteq> 0" by (simp add: thre_bit serial_ok_def)
  then have "write_ier e val s = (let u = serial_update_irq ((fst r)\<lparr>thr_ipending := 1\<rparr>) in (fst u, snd r @ snd u))"
    using True by (simp add: write_ier_def t_def [symmetric] r_def [symmetric] split_beta Let_def)
  then show ?thesis using ok by (simp add: after_def uart_wf_def Let_def ok_fields)
next
  case False
  assume "uart_wf (s, l)"
  then have "uart_wf (s\<lparr>divider := d\<rparr>, l)" for d by (simp add: uart_wf_def ok_fields agree_fields)
  then show ?thesis using False by (simp add: write_ier_def params_wf)
qed

lemma fifo_clear_ok: "serial_ok s \<Longrightarrow> serial_ok (fifo_clear w s)"
  by (cases w) (simp_all add: fifo_clear_def set_fifo_def fifo_of_def serial_ok_def fifo_ok_def ring_ok_def UART_FIFO_LENGTH_def)

lemma itl_ok: "serial_ok s \<Longrightarrow> serial_ok (s\<lparr>iir := i, recv_fifo := (recv_fifo s)\<lparr>itl := v\<rparr>\<rparr>)"
  by (auto simp: serial_ok_def fifo_ok_def)

lemma ok_if: "serial_ok x \<Longrightarrow> serial_ok y \<Longrightarrow> serial_ok (if b then x else y)"
  by simp

lemma write_fcr_wf:
  assumes "uart_wf (s, l)"
  shows "uart_wf (after l (write_fcr val s))"
proof (cases "ucast (fcr s) = val AND 0xFF")
  case True
  then show ?thesis using assms by (simp add: write_fcr_def after_def)
next
  case False
  have s: "serial_ok s" using assms by (simp add: uart_wf_def)
  have "serial_ok (fst (write_fcr val s))"
    unfolding write_fcr_def Let_def if_not_P [OF False] ok_update_irq ok_fields
    by (intro ok_if itl_ok fifo_clear_ok) (simp_all only: ok_fields s ok_if fifo_clear_ok)
  moreover have "agree (fst (write_fcr val s)) (line_after l (snd (write_fcr val s)))"
    unfolding write_fcr_def Let_def if_not_P [OF False] by (rule agree_update_irq)
  ultimately show ?thesis by (simp add: uart_wf_def after_def)
qed

lemma write_lcr_wf: "uart_wf (s, l) \<Longrightarrow> uart_wf (after l (write_lcr val s))"
  using params_wf [of "s\<lparr>lcr := ucast val\<rparr>" l]
  by (simp add: write_lcr_def Let_def after_def uart_wf_def ok_fields agree_fields split_beta)

lemma write_mcr_wf: "uart_wf (s, l) \<Longrightarrow> uart_wf (after l (write_mcr e val s))"
  by (simp add: write_mcr_def Let_def after_def uart_wf_def ok_fields agree_fields)

lemma uart_ioport_write_wf: "uart_wf (s, l) \<Longrightarrow> uart_wf (after l (serial_ioport_write e addr val s))"
  by (simp add: serial_ioport_write_def Let_def write_thr_wf write_ier_wf write_fcr_wf write_lcr_wf write_mcr_wf)
    (simp add: after_def uart_wf_def ok_fields agree_fields)

lemma take_recv_ok: "serial_ok s \<Longrightarrow> serial_ok (snd (fifo_get RECV_FIFO s))"
  by (simp add: fifo_get_def split_beta fifo_of_def set_fifo_def serial_ok_def fifo_take_ring)

lemma clear_lsr_ok:
  "serial_ok s \<Longrightarrow> serial_ok (s\<lparr>lsr := lsr s AND NOT UART_LSR_DR AND NOT UART_LSR_BI\<rparr>)"
  "serial_ok s \<Longrightarrow> serial_ok (s\<lparr>lsr := lsr s AND NOT UART_LSR_BI AND NOT UART_LSR_OE\<rparr>)"
  by (simp_all add: serial_ok_def uart_bits bit_simps)

lemma read_rbr_wf: "uart_wf (s, l) \<Longrightarrow> uart_wf (after l (snd (read_rbr e s)))"
proof -
  assume w: "uart_wf (s, l)"
  then have s: "serial_ok s" by (simp add: uart_wf_def)
  have line: "line_after k (if b then [Accept_input] else []) = k" for b k by simp
  show ?thesis using w
    by (simp add: read_rbr_def Let_def split_beta after_def uart_wf_def ok_fields line s take_recv_ok clear_lsr_ok)
qed

lemma read_iir_wf: "uart_wf (s, l) \<Longrightarrow> uart_wf (after l (snd (read_iir s)))"
  by (simp add: read_iir_def after_def uart_wf_def ok_fields)

lemma read_lsr_wf: "uart_wf (s, l) \<Longrightarrow> uart_wf (after l (snd (read_lsr s)))"
  by (simp add: read_lsr_def after_def uart_wf_def clear_lsr_ok)

lemma msl_wf: "uart_wf (s, l) \<Longrightarrow> uart_wf (after l (serial_update_msl e s))"
  by (simp add: after_def uart_wf_def msl_ok msl_agree)

lemma read_msr_wf:
  assumes "uart_wf (s, l)"
  shows "uart_wf (after l (snd (read_msr e s)))"
proof (cases "mcr s AND UART_MCR_LOOP = 0")
  case True
  define r where "r = (if poll_msl s \<ge> 0 then serial_update_msl e s else (s, []))"
  have r: "uart_wf (after l r)" using assms msl_wf [OF assms] by (simp add: r_def) (simp add: after_def)
  have "read_msr e s = (ucast (msr (fst r)), if msr (fst r) AND UART_MSR_ANY_DELTA \<noteq> 0
      then let u = serial_update_irq ((fst r)\<lparr>msr := msr (fst r) AND 0xF0\<rparr>) in (fst u, snd r @ snd u) else r)"
    using True unfolding read_msr_def r_def [symmetric] Let_def by (simp add: split_beta)
  then show ?thesis using r by (simp add: after_def uart_wf_def Let_def ok_fields)
next
  case False
  then show ?thesis using assms by (simp add: read_msr_def after_def)
qed

lemma uart_ioport_read_wf: "uart_wf (s, l) \<Longrightarrow> uart_wf (after l (snd (serial_ioport_read e addr s)))"
  by (simp add: serial_ioport_read_def Let_def read_rbr_wf read_iir_wf read_lsr_wf read_msr_wf) (simp add: after_def)

lemma receive1_wf: "uart_wf (s, l) \<Longrightarrow> uart_wf (after l (serial_receive1 e bs s))"
  by (simp add: after_def uart_wf_def receive1_ok receive1_agree)

lemma break_wf: "uart_wf (s, l) \<Longrightarrow> uart_wf (after l (serial_event ev s))"
  by (simp add: serial_event_def serial_receive_break_def Let_def after_def uart_wf_def ok_recv_fields fifo_put_recv_ok)

lemma timeout_wf: "uart_wf (s, l) \<Longrightarrow> uart_wf (after l (fifo_timeout_int s))"
  by (simp add: fifo_timeout_int_def after_def uart_wf_def ok_fields)

lemma reset_wf: "transmit_timer s = Timer None \<Longrightarrow> uart_wf (after l (serial_reset now s))"
  by (simp add: serial_reset_def Let_def after_def uart_wf_def serial_ok_def agree_def pending_iir_def uart_bits
      fifo_clear_def set_fifo_def fifo_of_def fifo_ok_def ring_ok_def UART_FIFO_LENGTH_def bit_simps)

lemma timer_not_armed: "uart_wf (s, l) \<Longrightarrow> transmit_timer s = Timer None"
  by (simp add: uart_wf_def serial_ok_def)

datatype uart_event = Port_write u32 u32 | Port_read u32 | Received "u8 list" | Back_end_event int
  | Rx_timeout | Modem_poll | Transmit_timer | Reset_uart | Frequency u32

inductive uart_step :: "serial_state \<times> int \<Rightarrow> uart_event \<Rightarrow> serial_state \<times> int \<Rightarrow> bool" where
  port_write: "uart_step (s, l) (Port_write a v) (after l (serial_ioport_write e a v s))"
| port_read: "uart_step (s, l) (Port_read a) (after l (snd (serial_ioport_read e a s)))"
| received: "bs \<noteq> [] \<Longrightarrow> uart_step (s, l) (Received bs) (after l (serial_receive1 e bs s))"
| back_end: "uart_step (s, l) (Back_end_event ev) (after l (serial_event ev s))"
| rx_timeout: "uart_step (s, l) Rx_timeout (after l (fifo_timeout_int s))"
| modem_poll: "uart_step (s, l) Modem_poll (after l (serial_update_msl e s))"
| transmit: "transmit_timer s = Timer (Some t) \<Longrightarrow>
    uart_step (s, l) Transmit_timer (after l (serial_xmit e (s\<lparr>transmit_timer := Timer None\<rparr>)))"
| reset: "uart_step (s, l) Reset_uart (after l (serial_reset t s))"
| frequency: "uart_step (s, l) (Frequency f) (after l (serial_set_frequency f s))"

text \<open>Machines start with the reset that \<open>serial_init_core\<close> registers.\<close>

definition uart_start :: "serial_state \<times> int \<Rightarrow> bool" where
  "uart_start x \<longleftrightarrow> (\<exists>baud s t l. serial_init baud True = Some s \<and> x = after l (serial_reset t s))"

lemma frequency_wf: "uart_wf (s, l) \<Longrightarrow> uart_wf (after l (serial_set_frequency f s))"
proof -
  assume "uart_wf (s, l)"
  then have "uart_wf (s\<lparr>baudbase := b\<rparr>, l)" for b by (simp add: uart_wf_def serial_ok_def agree_def pending_iir_def)
  then show ?thesis by (simp add: serial_set_frequency_def params_wf)
qed

lemma uart_step_wf: "uart_step x ev y \<Longrightarrow> uart_wf x \<Longrightarrow> uart_wf y"
  by (induction rule: uart_step.induct)
    (simp_all add: uart_ioport_write_wf uart_ioport_read_wf receive1_wf break_wf timeout_wf msl_wf reset_wf timer_not_armed frequency_wf)

lemma uart_start_wf: "uart_start x \<Longrightarrow> uart_wf x"
  by (auto simp: uart_start_def serial_init_def serial_init_core_def intro!: reset_wf)

interpretation uart: device uart_start uart_step uart_wf
  by unfold_locales (auto intro: uart_start_wf uart_step_wf)

text \<open>
  C11: The interrupt line of the UART and its identification register always tell the truth.
  In every state the guest and the back end can bring it to, the line is high exactly when an
  enabled source is pending (a line error or break, the receive timeout, received data up to
  the trigger level, the empty transmitter, a changed modem line), and the low four bits of the
  identification register are the code of the pending source of the highest priority.
\<close>

theorem serial_irq_tells_pending:
  assumes "reachable uart_start uart_step (s, l)"
  defines "data \<equiv> bit (lsr s) 0 \<and> (\<not> bit (fcr s) 0 \<or> itl (recv_fifo s) \<le> fifo_count (recv_fifo s))"
  shows "iir s AND 0x0f = pending_iir s
    \<and> l = c_bool (bit (ier s) 2 \<and> lsr s AND 0x1E \<noteq> 0 \<or> bit (ier s) 0 \<and> (timeout_ipending s \<noteq> 0 \<or> data)
        \<or> bit (ier s) 1 \<and> thr_ipending s \<noteq> 0 \<or> bit (ier s) 3 \<and> msr s AND 0x0F \<noteq> 0)"
proof -
  have a: "agree s l" using uart.reachable_wf [OF assms(1)] by (simp add: uart_wf_def)
  have "(pending_iir s \<noteq> UART_IIR_NO_INT) = (bit (ier s) 2 \<and> lsr s AND 0x1E \<noteq> 0 \<or> bit (ier s) 0 \<and> (timeout_ipending s \<noteq> 0 \<or> data)
        \<or> bit (ier s) 1 \<and> thr_ipending s \<noteq> 0 \<or> bit (ier s) 3 \<and> msr s AND 0x0F \<noteq> 0)"
    unfolding data_def pending_iir_def uart_bits by (simp add: and_numeral_eq_0)
  then show ?thesis using a by (simp add: agree_def)
qed

lemma uart_started: "reachable uart_start uart_step (after 0 (serial_reset 0 (the (serial_init 115200 True))))"
  by (rule reachable.start) (auto simp: uart_start_def serial_init_def serial_init_core_def)

abbreviation uart0 :: serial_state where
  "uart0 \<equiv> fst (serial_reset 0 (the (serial_init 115200 True)))"

definition env0 :: chr_env where
  "env0 = \<lparr>vm_clock = 0, chr_write = (\<lambda>_. 1), chr_tiocm = None, stack_flags = 0\<rparr>"

lemma uart_started0: "reachable uart_start uart_step (uart0, 0)"
proof -
  have "line_after 0 (snd (serial_reset 0 s)) = 0" for s by (simp add: serial_reset_def Let_def)
  then show ?thesis using uart_started by (simp add: after_def)
qed

theorem serial_irq_tells_pending_witness:
  "line_after 0 (snd (serial_ioport_write env0 1 2 uart0)) = 1"
proof -
  let ?r = "serial_ioport_write env0 1 2 uart0"
  have "reachable uart_start uart_step (after 0 ?r)"
    by (rule reachable.next_state [OF uart_started0], rule uart_step.port_write)
  then have "reachable uart_start uart_step (fst ?r, line_after 0 (snd ?r))" by (simp add: after_def)
  from serial_irq_tells_pending [OF this] have
    "bit (ier (fst ?r)) 1 \<and> thr_ipending (fst ?r) \<noteq> 0 \<longrightarrow> line_after 0 (snd ?r) = 1" by simp
  moreover have "bit (ier (fst ?r)) 1" "thr_ipending (fst ?r) \<noteq> 0" by code_simp+
  ultimately show ?thesis by blast
qed

section \<open>Transmission\<close>

text \<open>The bytes handed to the back end, and a guest that writes bytes one after the other.\<close>

definition chr_written :: "serial_out list \<Rightarrow> u8 list" where
  "chr_written = List.map_filter (\<lambda>x. case x of Chr_write c \<Rightarrow> Some c | _ \<Rightarrow> None)"

lemma chr_written_simps [simp]:
  "chr_written [] = []" "chr_written (Chr_write c # xs) = c # chr_written xs"
  "chr_written (Irq_level k # xs) = chr_written xs" "chr_written (xs @ ys) = chr_written xs @ chr_written ys"
  by (simp_all add: chr_written_def List.map_filter_def)


lemma update_irq_written [simp]: "chr_written (snd (serial_update_irq s)) = []"
  by (simp add: serial_update_irq_def Let_def)

lemma loaded_tsr:
  assumes "serial_ok s"
  shows "tsr (loaded (fst (serial_update_irq (thr_filled c s)))) = c"
proof (cases "fcr s AND UART_FCR_FE = 0")
  case True
  then show ?thesis by (simp add: loaded_def update_irq_fst thr_filled_def)
next
  case False
  have x: "fifo_ok (xmit_fifo s)" "unat (fifo_count (xmit_fifo s)) < 16" "fifo_elems (xmit_fifo s) = []"
    using assms by (simp_all add: serial_ok_def fifo_elems_def)
  then have "fifo_elems (fifo_store XMIT_FIFO c (xmit_fifo s)) = [c]" "fifo_ok (fifo_store XMIT_FIFO c (xmit_fifo s))"
    by (simp_all add: fifo_store_ring)
  then have "fst (fifo_take (fifo_store XMIT_FIFO c (xmit_fifo s))) = c" by (simp add: fifo_take_ring)
  then show ?thesis using False by (simp add: loaded_def update_irq_fst thr_filled_def)
qed

lemma write_thr_sends:
  fixes c :: u8 and e :: chr_env
  assumes "serial_ok s" "lcr s AND UART_LCR_DLAB = 0" "mcr s AND UART_MCR_LOOP = 0"
  defines "r \<equiv> write_thr e (ucast c) s"
  shows "serial_ok (fst r)" "lcr (fst r) = lcr s" "mcr (fst r) = mcr s" "chr_written (snd r) = [c]"
proof -
  define t where "t = fst (serial_update_irq (thr_filled c s))"
  have t: "sendable t" unfolding t_def using assms(1) by (rule thr_filled_sendable)
  have m: "mcr t = mcr s" "lcr t = lcr s" by (simp_all add: t_def update_irq_fst thr_filled_def)
  have r: "r = (fst (serial_xmit e t), snd (serial_update_irq (thr_filled c s)) @ snd (serial_xmit e t))"
    using write_thr_eq [OF assms(2), of e "ucast c"] by (simp add: r_def t_def Let_def)
  show "serial_ok (fst r)" using xmit_ok [OF t] by (simp add: r)
  have x: "serial_xmit e t = (let u = serial_update_irq (finished e (sent e (loaded t)))
      in (fst u, Chr_write c # snd u))"
    using xmit_eq [OF t] loaded_tsr [OF assms(1), of c] assms(3) m by (simp add: Let_def t_def [symmetric])
  show "lcr (fst r) = lcr s" "mcr (fst r) = mcr s" "chr_written (snd r) = [c]"
    using m by (simp_all add: r x Let_def update_irq_fst finished_def sent_def loaded_def)
qed

lemma write_port_0: "serial_ioport_write e 0 v s = write_thr e v s"
  by (simp add: serial_ioport_write_def)



text \<open>
  A byte the back end refuses is lost. The retry counter starts at zero and is only counted
  up where it is already positive, so that in every reachable state it is at most zero. After
  the one refused attempt the byte is in no buffer, the timer of the transmitter is stopped and
  the guest is told that the byte was sent: the retries that \<open>MAX_XMIT_RETRY\<close> allows never
  happen.
\<close>

theorem serial_never_retries:
  assumes "reachable uart_start uart_step (s, l)" "lcr s AND UART_LCR_DLAB = 0" "mcr s AND UART_MCR_LOOP = 0"
    "chr_write e c \<noteq> 1"
  defines "r \<equiv> serial_ioport_write e 0 (ucast c) s"
  shows "chr_written (snd r) = [c] \<and> tsr_retry (fst r) \<le> 0 \<and> transmit_timer (fst r) = Timer None
    \<and> fifo_elems (xmit_fifo (fst r)) = [] \<and> bit (lsr (fst r)) 5 \<and> bit (lsr (fst r)) 6"
proof -
  have s: "serial_ok s" using uart.reachable_wf [OF assms(1)] by (simp add: uart_wf_def)
  note w = write_thr_sends [OF s assms(2,3), of e c, folded write_port_0, folded r_def]
  show ?thesis using w(1,4) by (auto simp: serial_ok_def fifo_elems_def)
qed

theorem serial_never_retries_witness:
  "transmit_timer (fst (serial_ioport_write (env0\<lparr>chr_write := \<lambda>_. 0\<rparr>) 0 0x41 uart0)) = Timer None"
proof -
  have "lcr uart0 AND UART_LCR_DLAB = 0" "mcr uart0 AND UART_MCR_LOOP = 0" by code_simp+
  moreover have "chr_write (env0\<lparr>chr_write := \<lambda>_. 0\<rparr>) 0x41 \<noteq> 1" by simp
  ultimately show ?thesis using serial_never_retries [OF uart_started0, where c = "0x41"] by simp
qed

section \<open>Reception\<close>

text \<open>A guest that reads the receive register \<open>n\<close> times.\<close>

primrec uart_recv :: "chr_env \<Rightarrow> nat \<Rightarrow> serial_state \<Rightarrow> u32 list \<times> serial_state" where
  "uart_recv e 0 s = ([], s)"
| "uart_recv e (Suc n) s =
     (let (v, s, out) = serial_ioport_read e 0 s; (vs, s) = uart_recv e n s in (v # vs, s))"

lemma read_rbr_fifo:
  fixes e :: chr_env
  assumes "lcr s AND UART_LCR_DLAB = 0" "fcr s AND UART_FCR_FE \<noteq> 0"
  defines "r \<equiv> serial_ioport_read e 0 s"
  shows "fst r = ucast (fst (fifo_take (recv_fifo s)))" "recv_fifo (fst (snd r)) = snd (fifo_take (recv_fifo s))"
    "lcr (fst (snd r)) = lcr s" "fcr (fst (snd r)) = fcr s"
  using assms(1,2)
  by (simp_all add: r_def serial_ioport_read_def read_rbr_def Let_def split_beta update_irq_fst
      fifo_get_def fifo_of_def set_fifo_def)

lemma uart_recv_drain:
  assumes "lcr s AND UART_LCR_DLAB = 0" "fcr s AND UART_FCR_FE \<noteq> 0"
  shows "fst (uart_recv e n s) = map ucast (fst (drain fifo_take n (recv_fifo s)))
    \<and> recv_fifo (snd (uart_recv e n s)) = snd (drain fifo_take n (recv_fifo s))"
  using assms
proof (induction n arbitrary: s)
  case (Suc n)
  note r = read_rbr_fifo [OF Suc.prems, of e]
  show ?case using Suc.IH [of "fst (snd (serial_ioport_read e 0 s))"] Suc.prems r
    by (simp add: split_beta Let_def)
qed simp

lemma receive1_fifo:
  fixes e :: chr_env and bs :: "u8 list"
  assumes "fcr s AND UART_FCR_FE \<noteq> 0"
  defines "t \<equiv> fst (serial_receive1 e bs s)"
  shows "recv_fifo t = fold (fifo_store RECV_FIFO) bs (recv_fifo s)" "lcr t = lcr s" "fcr t = fcr s"
proof -
  have "recv_fifo (fold (fifo_put RECV_FIFO) bs s) = fold (fifo_store RECV_FIFO) bs (recv_fifo s)
    \<and> lcr (fold (fifo_put RECV_FIFO) bs s) = lcr s \<and> fcr (fold (fifo_put RECV_FIFO) bs s) = fcr s"
    by (induction bs arbitrary: s) (simp_all add: fifo_put_def set_fifo_def fifo_of_def Let_def)
  then show "recv_fifo t = fold (fifo_store RECV_FIFO) bs (recv_fifo s)" "lcr t = lcr s" "fcr t = fcr s"
    using assms(1) by (simp_all add: t_def serial_receive1_def Let_def update_irq_fst)
qed

lemma fold_put_overrun:
  assumes "fifo_ok (recv_fifo s)"
  shows "bit (lsr (fold (fifo_put RECV_FIFO) bs s)) 1 \<longleftrightarrow>
    bit (lsr s) 1 \<or> unat (fifo_count (recv_fifo s)) + length bs > 16"
  using assms
proof (induction bs arbitrary: s)
  case Nil
  then show ?case by (auto simp: fifo_ok_def ring_ok_def)
next
  case (Cons b bs)
  have ok: "fifo_ok (recv_fifo (fifo_put RECV_FIFO b s))"
    using Cons.prems by (simp add: fifo_put_recv_fifo uart_fifo.invar_put_any)
  have c: "unat (fifo_count (recv_fifo s)) \<le> 16" using Cons.prems by (auto simp: fifo_ok_def ring_ok_def)
  have put: "unat (fifo_count (recv_fifo (fifo_put RECV_FIFO b s))) = min 16 (Suc (unat (fifo_count (recv_fifo s))))"
  proof (cases "unat (fifo_count (recv_fifo s)) < 16")
    case True
    then show ?thesis using Cons.prems by (simp add: fifo_put_recv_fifo fifo_store_ring(3))
  next
    case False
    then show ?thesis using c Cons.prems by (simp add: fifo_put_recv_fifo fifo_store_full)
  qed
  have oe: "bit (lsr (fifo_put RECV_FIFO b s)) 1 \<longleftrightarrow> bit (lsr s) 1 \<or> unat (fifo_count (recv_fifo s)) = 16"
    using c by (auto simp: fifo_put_def set_fifo_def fifo_of_def Let_def UART_FIFO_LENGTH_def UART_LSR_OE_def bit_simps)
  show ?case using Cons.IH [OF ok] c oe by (auto simp: put)
qed

text \<open>
  C30: Received bytes are read in the order they came, and an overrun is reported. In every
  reachable state with the FIFO enabled and the divisor latch closed, after the back end
  delivers some bytes the guest reads the bytes that were waiting followed by the new ones, cut
  at sixteen, and the FIFO is then empty; the overrun bit is set if and only if it was set
  before or a byte did not fit.
\<close>

theorem serial_receives_in_order:
  fixes e :: chr_env and bs :: "u8 list"
  assumes "reachable uart_start uart_step (s, l)" "lcr s AND UART_LCR_DLAB = 0" "fcr s AND UART_FCR_FE \<noteq> 0"
  defines "t \<equiv> fst (serial_receive1 e bs s)" and "q \<equiv> take 16 (fifo_elems (recv_fifo s) @ bs)"
  shows "fst (uart_recv e (length q) t) = map ucast q
    \<and> fifo_elems (recv_fifo (snd (uart_recv e (length q) t))) = []
    \<and> (bit (lsr t) 1 \<longleftrightarrow> bit (lsr s) 1 \<or> length (fifo_elems (recv_fifo s)) + length bs > 16)"
proof -
  have s: "fifo_ok (recv_fifo s)" using uart.reachable_wf [OF assms(1)] by (simp add: uart_wf_def serial_ok_def)
  note t = receive1_fifo [OF assms(3), of e bs, folded t_def]
  have q: "fifo_ok (recv_fifo t)" "fifo_elems (recv_fifo t) = q"
    using uart_fifo.put_take [OF s, of bs] by (simp_all add: t q_def)
  have "lcr t AND UART_LCR_DLAB = 0" "fcr t AND UART_FCR_FE \<noteq> 0" using assms(2,3) by (simp_all add: t)
  note r = uart_recv_drain [OF this, of e "length q"]
  have "bit (lsr t) 1 \<longleftrightarrow> bit (lsr (fold (fifo_put RECV_FIFO) bs s)) 1"
    using assms(3) by (simp add: t_def serial_receive1_def Let_def update_irq_fst UART_LSR_DR_def bit_simps)
  then show ?thesis
    using r uart_fifo.drain_take [OF q(1), of "length q"] fold_put_overrun [OF s, of bs] by (simp add: q(2))
qed

lemma uart0_fifo_on: "reachable uart_start uart_step (after 0 (serial_ioport_write env0 2 1 uart0))"
  by (rule reachable.next_state [OF uart_started0], rule uart_step.port_write)

lemma uart0_fifo_state:
  defines "s \<equiv> fst (serial_ioport_write env0 2 1 uart0)"
  shows "lcr s = 0" "fcr s = 1" "fifo_elems (recv_fifo s) = []"
  unfolding s_def
  by (simp_all add: serial_ioport_write_def write_fcr_def uart_bits Let_def update_irq_fst fifo_elems_def
      fifo_clear_def set_fifo_def fifo_of_def serial_reset_def serial_init_def serial_init_core_def serial_zero_def)

theorem serial_receives_in_order_witness:
  "fst (uart_recv env0 2 (fst (serial_receive1 env0 [0x6f, 0x6b] (fst (serial_ioport_write env0 2 1 uart0))))) = [0x6f, 0x6b]"
proof -
  let ?s = "fst (serial_ioport_write env0 2 1 uart0)"
  have "lcr ?s AND UART_LCR_DLAB = 0" "fcr ?s AND UART_FCR_FE \<noteq> 0" by (simp_all only: uart0_fifo_state) (simp_all add: uart_bits)
  note order = serial_receives_in_order [OF uart0_fifo_on [unfolded after_def] this, of env0 "[0x6f, 0x6b]", unfolded uart0_fifo_state(3)]
  have "length (take 16 ([] @ [0x6f, 0x6b :: u8])) = 2" "map ucast (take 16 ([] @ [0x6f, 0x6b :: u8])) = [0x6f, 0x6b :: u32]"
    by simp_all
  with order show ?thesis by (simp only:)
qed

text \<open>
  Flushing the receive FIFO does not take back the data-ready bit. In every reachable state
  with the FIFO enabled and data ready, the write that clears the receive FIFO empties it but
  leaves data ready in the line status register, so that the next read returns the byte zero,
  which nobody sent.
\<close>

theorem serial_flush_keeps_data_ready:
  fixes e :: chr_env
  assumes "reachable uart_start uart_step (s, l)" "fcr s = 1" "lcr s AND UART_LCR_DLAB = 0" "bit (lsr s) 0"
  defines "t \<equiv> fst (serial_ioport_write e 2 3 s)"
  shows "fifo_elems (recv_fifo t) = [] \<and> bit (lsr t) 0 \<and> fst (serial_ioport_read e 0 t) = 0"
proof -
  have "recv_fifo t = (recv_fifo s)\<lparr>fifo_data := replicate 16 0, fifo_count := 0, fifo_head := 0, fifo_tail := 0, itl := 1\<rparr>"
    "lsr t = lsr s" "lcr t = lcr s" "fcr t = 1"
    using assms(2) by (simp_all add: t_def serial_ioport_write_def write_fcr_def uart_bits Let_def update_irq_fst
      fifo_clear_def set_fifo_def fifo_of_def fcr_itl_def UART_FIFO_LENGTH_def)
  then show ?thesis using read_rbr_fifo(1) [of t e] assms(3,4)
    by (simp add: fifo_elems_def fifo_take_def UART_FCR_FE_def)
qed

theorem serial_flush_keeps_data_ready_witness:
  defines "s \<equiv> fst (serial_receive1 env0 [0x41] (fst (serial_ioport_write env0 2 1 uart0)))"
  shows "bit (lsr (fst (serial_ioport_write env0 2 3 s))) 0 \<and> fst (serial_ioport_read env0 0 (fst (serial_ioport_write env0 2 3 s))) = 0"
proof -
  let ?r = "serial_receive1 env0 [0x41] (fst (serial_ioport_write env0 2 1 uart0))"
  let ?l = "line_after 0 (snd (serial_ioport_write env0 2 1 uart0))"
  have "reachable uart_start uart_step (after ?l ?r)"
    by (rule reachable.next_state [OF uart0_fifo_on [unfolded after_def]], rule uart_step.received) simp
  then have "reachable uart_start uart_step (s, line_after ?l (snd ?r))" by (simp add: after_def s_def)
  moreover have "fcr s = 1" "lcr s AND UART_LCR_DLAB = 0"
    unfolding s_def using receive1_fifo [of "fst (serial_ioport_write env0 2 1 uart0)" env0 "[0x41]"] uart0_fifo_state
    by (simp_all add: uart_bits)
  moreover have "bit (lsr s) 0"
    by (simp add: s_def serial_receive1_def update_irq_fst Let_def UART_LSR_DR_def bit_or_iff)
  ultimately show ?thesis using serial_flush_keeps_data_ready by blast
qed

section \<open>Line speed\<close>

text \<open>
  The line parameters are sane for every divisor. On a PC port, whose base frequency is
  115200, no divisor makes the computed speed zero, which would trap in the division by it;
  the speed is between 1 and 115200, and the time of a character, which is stored in 64 bits,
  is between 60760 ns and 12 seconds, without wrapping around.
\<close>

theorem serial_char_time_bounds:
  assumes "baudbase s = 115200" "divider s \<noteq> 0"
  defines "t \<equiv> fst (serial_update_parameters s)"
  shows "\<not> serial_traps s \<and> 1 \<le> serial_speed s \<and> serial_speed s \<le> 115200
    \<and> 60760 \<le> uint (char_transmit_time t) \<and> uint (char_transmit_time t) \<le> 12000000000"
proof -
  let ?d = "uint (divider s)"
  define n where "n = 1 + (if lcr s AND 0x08 \<noteq> 0 then 1 else 0)
    + (uint (lcr s AND 0x03) + 5 + (if lcr s AND 0x04 \<noteq> 0 then 2 else 1))"
  have "int (unat (lcr s AND 3)) < 4" using unat_and_numeral(2) [of "lcr s"] by simp
  then have "0 \<le> uint (lcr s AND 3)" "uint (lcr s AND 3) \<le> 3" by simp_all
  then have n: "7 \<le> n" "n \<le> 12" by (simp_all add: n_def)
  have "?d \<noteq> 0" using assms(2) by (simp add: unsigned_eq_0_iff)
  moreover have "0 \<le> ?d" "?d < 65536" using unsigned_less [of "divider s", where ?'a = int] by simp_all
  ultimately have d: "1 \<le> ?d" "?d \<le> 65535" by linarith+
  then have v: "serial_speed s = 115200 div ?d" by (simp add: serial_speed_def assms(1))
  have "115200 div 65535 \<le> 115200 div ?d" "115200 div ?d \<le> 115200 div 1"
    using d by (intro zdiv_mono2; simp)+
  then have sp: "1 \<le> serial_speed s" "serial_speed s \<le> 115200" by (simp_all add: v)
  define q where "q = 1000000000 div serial_speed s"
  have "1000000000 div 115200 \<le> q" "q \<le> 1000000000 div 1"
    unfolding q_def using sp by (intro zdiv_mono2; simp)+
  then have q: "8680 \<le> q" "q \<le> 1000000000" by simp_all
  define k where "k = q * n"
  have "8680 * 7 \<le> k" "k \<le> 1000000000 * 12" unfolding k_def using q n by (intro mult_mono; simp)+
  moreover have "char_transmit_time t = word_of_int k"
    using assms(2) sp by (simp add: t_def serial_update_parameters_def Let_def n_def q_def k_def)
  ultimately show ?thesis using sp by (simp add: serial_traps_def uint_word_of_int)
qed

theorem serial_char_time_bounds_witness:
  "uint (char_transmit_time (fst (serial_update_parameters (uart0\<lparr>divider := 1\<rparr>)))) \<le> 12000000000"
proof -
  have "baudbase (uart0\<lparr>divider := 1\<rparr>) = 115200" "divider (uart0\<lparr>divider := 1\<rparr>) \<noteq> 0"
    by (simp_all add: serial_reset_def serial_init_def serial_init_core_def fifo_clear_def set_fifo_def fifo_of_def
        serial_zero_def Let_def)
  from serial_char_time_bounds [OF this] show ?thesis by blast
qed

end
