(* ===== verification/Ioport.thy ===== *)
theory Ioport
  imports Prelude
begin

text \<open>
  The table of I/O ports (\<open>ioport.c\<close>): for each of the widths 1, 2 and 4 and each port a
  handler or NULL, and for each port one opaque pointer that the handlers of all widths share.
  A pointer is a number; handlers act on the world \<open>'w\<close>. The guest's ports are 16 bits wide,
  so that the table is a total function. \<open>hw_error\<close> ends the program, which is \<open>None\<close>. An
  \<open>IORange\<close> is what its pointer refers to. Shown are dispatch, and that registration and removal
  of a range touch exactly that range.
\<close>

section \<open>Definitions\<close>

type_synonym 'w read_func = "nat option \<Rightarrow> u32 \<Rightarrow> 'w \<Rightarrow> u32 \<times> 'w"
type_synonym 'w write_func = "nat option \<Rightarrow> u32 \<Rightarrow> u32 \<Rightarrow> 'w \<Rightarrow> 'w"

definition IOPORTS_MASK :: u32 where "IOPORTS_MASK = 64 * 1024 - 1"

record 'w ioports =
  ioport_opaque :: "u32 \<Rightarrow> nat option"
  ioport_read_table :: "nat \<Rightarrow> u32 \<Rightarrow> 'w read_func option"
  ioport_write_table :: "nat \<Rightarrow> u32 \<Rightarrow> 'w write_func option"

definition no_ports :: "'w ioports" where
  "no_ports = \<lparr>ioport_opaque = (\<lambda>_. None), ioport_read_table = (\<lambda>_ _. None), ioport_write_table = (\<lambda>_ _. None)\<rparr>"

definition default_ioport_readb :: "'w read_func" where
  "default_ioport_readb opaque address w = (0xff, w)"

definition default_ioport_writeb :: "'w write_func" where
  "default_ioport_writeb opaque address data w = w"

text \<open>The handler of a port, or the given default, called with the port's pointer.\<close>

definition call_read :: "'w ioports \<Rightarrow> nat \<Rightarrow> 'w read_func \<Rightarrow> u32 \<Rightarrow> 'w \<Rightarrow> u32 \<times> 'w" where
  "call_read p index dflt address =
     (case ioport_read_table p index address of Some f \<Rightarrow> f | None \<Rightarrow> dflt) (ioport_opaque p address) address"

definition call_write :: "'w ioports \<Rightarrow> nat \<Rightarrow> 'w write_func \<Rightarrow> u32 \<Rightarrow> u32 \<Rightarrow> 'w \<Rightarrow> 'w" where
  "call_write p index dflt address =
     (case ioport_write_table p index address of Some f \<Rightarrow> f | None \<Rightarrow> dflt) (ioport_opaque p address) address"

definition default_ioport_readw :: "'w ioports \<Rightarrow> 'w read_func" where
  "default_ioport_readw p opaque address w =
     (let (lo, w) = call_read p 0 default_ioport_readb address w;
          address = (address + 1) AND IOPORTS_MASK;
          (hi, w) = call_read p 0 default_ioport_readb address w
      in (lo OR push_bit 8 hi, w))"

definition default_ioport_writew :: "'w ioports \<Rightarrow> 'w write_func" where
  "default_ioport_writew p opaque address data w =
     (let w = call_write p 0 default_ioport_writeb address (data AND 0xff) w;
          address = (address + 1) AND IOPORTS_MASK
      in call_write p 0 default_ioport_writeb address (drop_bit 8 data AND 0xff) w)"

definition default_ioport_readl :: "'w read_func" where
  "default_ioport_readl opaque address w = (0xffffffff, w)"

definition default_ioport_writel :: "'w write_func" where
  "default_ioport_writel opaque address data w = w"

definition ioport_read :: "'w ioports \<Rightarrow> nat \<Rightarrow> u32 \<Rightarrow> 'w \<Rightarrow> u32 \<times> 'w" where
  "ioport_read p index address =
     call_read p index ([default_ioport_readb, default_ioport_readw p, default_ioport_readl] ! index) address"

definition ioport_write :: "'w ioports \<Rightarrow> nat \<Rightarrow> u32 \<Rightarrow> u32 \<Rightarrow> 'w \<Rightarrow> 'w" where
  "ioport_write p index address data =
     call_write p index ([default_ioport_writeb, default_ioport_writew p, default_ioport_writel] ! index) address data"

definition ioport_bsize :: "int \<Rightarrow> nat option" where
  "ioport_bsize sz = (if sz = 1 then Some 0 else if sz = 2 then Some 1 else if sz = 4 then Some 2 else None)"

text \<open>The loops over the ports of a range; \<open>i\<close> is the next port and \<open>n\<close> the number of turns left.\<close>

primrec set_read :: "nat \<Rightarrow> 'w read_func \<Rightarrow> nat option \<Rightarrow> nat \<Rightarrow> nat \<Rightarrow> 'w ioports \<Rightarrow> 'w ioports option" where
  "set_read bsize func opaque i 0 p = Some p"
| "set_read bsize func opaque i (Suc n) p =
     (let a = of_nat i;
          p = p\<lparr>ioport_read_table := (ioport_read_table p)(bsize := (ioport_read_table p bsize)(a := Some func))\<rparr>
      in if ioport_opaque p a \<noteq> None \<and> ioport_opaque p a \<noteq> opaque then None
         else set_read bsize func opaque (i + 1) n (p\<lparr>ioport_opaque := (ioport_opaque p)(a := opaque)\<rparr>))"

primrec set_write :: "nat \<Rightarrow> 'w write_func \<Rightarrow> nat option \<Rightarrow> nat \<Rightarrow> nat \<Rightarrow> 'w ioports \<Rightarrow> 'w ioports option" where
  "set_write bsize func opaque i 0 p = Some p"
| "set_write bsize func opaque i (Suc n) p =
     (let a = of_nat i;
          p = p\<lparr>ioport_write_table := (ioport_write_table p)(bsize := (ioport_write_table p bsize)(a := Some func))\<rparr>
      in if ioport_opaque p a \<noteq> None \<and> ioport_opaque p a \<noteq> opaque then None
         else set_write bsize func opaque (i + 1) n (p\<lparr>ioport_opaque := (ioport_opaque p)(a := opaque)\<rparr>))"

definition register_ioport_read ::
    "nat \<Rightarrow> nat \<Rightarrow> int \<Rightarrow> 'w read_func \<Rightarrow> nat option \<Rightarrow> 'w ioports \<Rightarrow> 'w ioports option" where
  "register_ioport_read start len sz func opaque p =
     (case ioport_bsize sz of None \<Rightarrow> None | Some bsize \<Rightarrow> set_read bsize func opaque start len p)"

definition register_ioport_write ::
    "nat \<Rightarrow> nat \<Rightarrow> int \<Rightarrow> 'w write_func \<Rightarrow> nat option \<Rightarrow> 'w ioports \<Rightarrow> 'w ioports option" where
  "register_ioport_write start len sz func opaque p =
     (case ioport_bsize sz of None \<Rightarrow> None | Some bsize \<Rightarrow> set_write bsize func opaque start len p)"

record 'w iorange =
  range_base :: u64
  range_len :: u64
  range_read :: "u64 \<Rightarrow> nat \<Rightarrow> 'w \<Rightarrow> u64 \<times> 'w"
  range_write :: "u64 \<Rightarrow> nat \<Rightarrow> u64 \<Rightarrow> 'w \<Rightarrow> 'w"

text \<open>The thunks for accesses of \<open>n\<close> bytes; \<open>mem\<close> is what a pointer to an \<open>IORange\<close> refers to.\<close>

definition read_thunk :: "nat \<Rightarrow> (nat \<Rightarrow> 'w iorange) \<Rightarrow> 'w read_func" where
  "read_thunk n mem opaque addr w =
     (let ioport = mem (the opaque); (data, w) = range_read ioport (ucast addr - range_base ioport) n w
      in (ucast data, w))"

definition write_thunk :: "nat \<Rightarrow> (nat \<Rightarrow> 'w iorange) \<Rightarrow> 'w write_func" where
  "write_thunk n mem opaque addr data w =
     (let ioport = mem (the opaque) in range_write ioport (ucast addr - range_base ioport) n (ucast data) w)"

definition ioport_register :: "(nat \<Rightarrow> 'w iorange) \<Rightarrow> nat \<Rightarrow> 'w ioports \<Rightarrow> 'w ioports option" where
  "ioport_register mem ioport p =
     (let b = unat (range_base (mem ioport)); l = unat (range_len (mem ioport)); r = Some ioport
      in Option.bind (register_ioport_read b l 1 (read_thunk 1 mem) r p)
           (\<lambda>p. Option.bind (register_ioport_read b l 2 (read_thunk 2 mem) r p)
           (\<lambda>p. Option.bind (register_ioport_read b l 4 (read_thunk 4 mem) r p)
           (\<lambda>p. Option.bind (register_ioport_write b l 1 (write_thunk 1 mem) r p)
           (\<lambda>p. Option.bind (register_ioport_write b l 2 (write_thunk 2 mem) r p)
           (register_ioport_write b l 4 (write_thunk 4 mem) r))))))"

definition unassign_port :: "nat \<Rightarrow> 'w ioports \<Rightarrow> 'w ioports" where
  "unassign_port i p =
     (let a = of_nat i in
       p\<lparr>ioport_read_table := (\<lambda>b. if b < 3 then (ioport_read_table p b)(a := None) else ioport_read_table p b),
         ioport_write_table := (\<lambda>b. if b < 3 then (ioport_write_table p b)(a := None) else ioport_write_table p b),
         ioport_opaque := (ioport_opaque p)(a := None)\<rparr>)"

definition isa_unassign_ioport :: "nat \<Rightarrow> nat \<Rightarrow> 'w ioports \<Rightarrow> 'w ioports" where
  "isa_unassign_ioport start len p = fold unassign_port [start..<start + len] p"

definition isa_is_ioport_assigned :: "u32 \<Rightarrow> 'w ioports \<Rightarrow> bool" where
  "isa_is_ioport_assigned start p \<longleftrightarrow>
     \<not> Option.is_none (ioport_read_table p 0 start) \<or> \<not> Option.is_none (ioport_write_table p 0 start)
     \<or> \<not> Option.is_none (ioport_read_table p 1 start) \<or> \<not> Option.is_none (ioport_write_table p 1 start)
     \<or> \<not> Option.is_none (ioport_read_table p 2 start) \<or> \<not> Option.is_none (ioport_write_table p 2 start)"

definition cpu_outb :: "'w ioports \<Rightarrow> u32 \<Rightarrow> u8 \<Rightarrow> 'w \<Rightarrow> 'w" where
  "cpu_outb p addr val = ioport_write p 0 addr (ucast val)"

definition cpu_outw :: "'w ioports \<Rightarrow> u32 \<Rightarrow> u16 \<Rightarrow> 'w \<Rightarrow> 'w" where
  "cpu_outw p addr val = ioport_write p 1 addr (ucast val)"

definition cpu_outl :: "'w ioports \<Rightarrow> u32 \<Rightarrow> u32 \<Rightarrow> 'w \<Rightarrow> 'w" where
  "cpu_outl p addr val = ioport_write p 2 addr val"

definition cpu_inb :: "'w ioports \<Rightarrow> u32 \<Rightarrow> 'w \<Rightarrow> u8 \<times> 'w" where
  "cpu_inb p addr w = apfst ucast (ioport_read p 0 addr w)"

definition cpu_inw :: "'w ioports \<Rightarrow> u32 \<Rightarrow> 'w \<Rightarrow> u16 \<times> 'w" where
  "cpu_inw p addr w = apfst ucast (ioport_read p 1 addr w)"

definition cpu_inl :: "'w ioports \<Rightarrow> u32 \<Rightarrow> 'w \<Rightarrow> u32 \<times> 'w" where
  "cpu_inl p addr w = ioport_read p 2 addr w"

section \<open>Registration\<close>

lemma port_eq_iff: "i < 65536 \<Longrightarrow> of_nat i = (a :: u32) \<longleftrightarrow> unat a = i"
  by (auto simp: unat_of_nat)

lemma set_read_spec:
  assumes "set_read b f r i n p = Some q" "i + n \<le> 65536" "r \<noteq> None"
  shows "ioport_read_table q c a = (if c = b \<and> i \<le> unat a \<and> unat a < i + n then Some f else ioport_read_table p c a)
    \<and> ioport_opaque q a = (if i \<le> unat a \<and> unat a < i + n then r else ioport_opaque p a)
    \<and> ioport_write_table q = ioport_write_table p
    \<and> (i \<le> unat a \<and> unat a < i + n \<longrightarrow> ioport_opaque p a \<in> {None, r})"
  using assms
proof (induction n arbitrary: i p)
  case (Suc n)
  define p' where "p' = p\<lparr>ioport_read_table := (ioport_read_table p)(b := (ioport_read_table p b)(of_nat i := Some f)),
    ioport_opaque := (ioport_opaque p)(of_nat i := r)\<rparr>"
  have q: "set_read b f r (Suc i) n p' = Some q" and o: "ioport_opaque p (of_nat i) \<in> {None, r}"
    using Suc.prems(1) by (auto simp: p'_def Let_def split: if_splits)
  have i: "of_nat i = a \<longleftrightarrow> unat a = i"
    using Suc.prems(2) by (intro port_eq_iff) simp
  show ?case using Suc.IH [OF q] Suc.prems(2,3) o i
    by (cases "unat a = i") (auto simp: p'_def)
qed auto

lemma unassign_spec:
  assumes "start + len \<le> 65536"
  shows "ioport_read_table (isa_unassign_ioport start len p) c a
      = (if c < 3 \<and> start \<le> unat a \<and> unat a < start + len then None else ioport_read_table p c a)
    \<and> ioport_write_table (isa_unassign_ioport start len p) c a
      = (if c < 3 \<and> start \<le> unat a \<and> unat a < start + len then None else ioport_write_table p c a)"
  using assms
proof (induction len)
  case (Suc len)
  have i: "of_nat (start + len) = a \<longleftrightarrow> unat a = start + len"
    using Suc.prems by (intro port_eq_iff) simp
  have "isa_unassign_ioport start (Suc len) p = unassign_port (start + len) (isa_unassign_ioport start len p)"
    by (simp add: isa_unassign_ioport_def)
  then show ?case using Suc.IH Suc.prems i by (auto simp: unassign_port_def Let_def simp del: of_nat_add)
qed (auto simp: isa_unassign_ioport_def)

text \<open>
  C34: A device that registers byte handlers for a range gets the accesses to that range, and
  only those. Where registration succeeds, a byte read in the range calls its handler with its
  pointer and the port; a word read, where no word handler is registered, calls it for the low
  byte and then, in the state after that, for the high byte at the next port; no other port or
  width changes its handler. Removing the range makes it read as all ones again.
\<close>

theorem ioport_byte_device:
  assumes "register_ioport_read start len 1 f (Some r) p = Some q" "start + len \<le> 65536"
    "start \<le> unat a" "unat a < start + len"
  shows "cpu_inb q a w = apfst ucast (f (Some r) a w)
    \<and> (unat a + 1 < start + len \<and> ioport_read_table p 1 a = None \<longrightarrow>
         cpu_inw q a w = (let (lo, w1) = f (Some r) a w; (hi, w2) = f (Some r) (a + 1) w1 in (ucast (lo OR push_bit 8 hi), w2)))
    \<and> (\<forall>i x. \<not> (i = 0 \<and> start \<le> unat x \<and> unat x < start + len) \<longrightarrow> ioport_read_table q i x = ioport_read_table p i x)
    \<and> \<not> isa_is_ioport_assigned a (isa_unassign_ioport start len q)
    \<and> cpu_inb (isa_unassign_ioport start len q) a w = (0xff, w)"
proof -
  have "set_read 0 f (Some r) start len p = Some q"
    using assms(1) by (simp add: register_ioport_read_def ioport_bsize_def)
  note q = set_read_spec [OF this assms(2)]
  have byte: "call_read q 0 d x = f (Some r) x" if "start \<le> unat x" "unat x < start + len" for d x
    using q [of 0 x] that by (simp add: call_read_def)
  have "cpu_inb q a w = apfst ucast (f (Some r) a w)"
    using byte [OF assms(3,4)] by (simp add: cpu_inb_def ioport_read_def)
  moreover have "cpu_inw q a w = (let (lo, w1) = f (Some r) a w; (hi, w2) = f (Some r) (a + 1) w1 in (ucast (lo OR push_bit 8 hi), w2))"
    if "unat a + 1 < start + len \<and> ioport_read_table p 1 a = None"
  proof -
    have u: "unat (a + 1) = unat a + 1" using that assms(2) by (simp add: unat_word_ariths(1))
    then have "unat ((a + 1) AND mask 16) = unat (a + 1)"
      using that assms(2) by (simp add: unat_and_mask)
    moreover have "IOPORTS_MASK = mask 16" by (simp add: IOPORTS_MASK_def mask_eq_exp_minus_1)
    ultimately have m: "(a + 1) AND IOPORTS_MASK = a + 1" by (simp add: word_unat_eq_iff)
    have n: "call_read q 0 d (a + 1) = f (Some r) (a + 1)" for d
      using that assms(3) by (intro byte) (simp_all add: u)
    have none: "ioport_read_table q 1 a = None" using q [of 1 a] that by simp
    show ?thesis
      using byte [OF assms(3,4)] none
      by (simp add: cpu_inw_def ioport_read_def call_read_def [of q "Suc 0"] default_ioport_readw_def m n split_beta Let_def)
  qed
  moreover have "\<not> isa_is_ioport_assigned a (isa_unassign_ioport start len q)"
    using unassign_spec [OF assms(2), of q _ a] assms(3,4) by (simp add: isa_is_ioport_assigned_def)
  moreover have "cpu_inb (isa_unassign_ioport start len q) a w = (0xff, w)"
    using unassign_spec [OF assms(2), of q 0 a] assms(3,4)
    by (simp add: cpu_inb_def ioport_read_def call_read_def default_ioport_readb_def)
  ultimately show ?thesis using q by simp
qed

theorem ioport_byte_device_witness:
  defines "f \<equiv> \<lambda>r a n. (a + of_nat n, n + 1 :: nat)"
  defines "q \<equiv> the (register_ioport_read 0x60 8 1 f (Some 7) no_ports)"
  shows "cpu_inw q 0x61 5 = (0x6866, 7)"
proof -
  have "set_read 0 f (Some 7) i n p \<noteq> None" if "\<forall>a. ioport_opaque p a \<in> {None, Some 7}" for i n p
    using that by (induction n arbitrary: i p) (auto simp: Let_def)
  then have q: "register_ioport_read 0x60 8 1 f (Some 7) no_ports = Some q"
    by (auto simp: q_def register_ioport_read_def ioport_bsize_def no_ports_def)
  have "ioport_read_table (no_ports :: nat ioports) 1 0x61 = None" by (simp add: no_ports_def)
  with ioport_byte_device [OF q, of "0x61" 5] have
    "cpu_inw q 0x61 5 = (let (lo, w1) = f (Some 7) 0x61 5; (hi, w2) = f (Some 7) (0x61 + 1) w1 in (ucast (lo OR push_bit 8 hi), w2))"
    by (simp only: unsigned_numeral) simp
  then show ?thesis by (simp add: f_def)
qed

end
