(* ===== verification/Pc.thy ===== *)
theory Pc
  imports Irq Lapic Mc146818rtc Pckbd
begin

text \<open>
  The board (\<open>hw/pc.c\<close>): the wiring of the ISA interrupt lines to the two interrupt
  controllers and of these to the CPUs, the FPU error line, port 0x92, the debug ports of the
  BIOS, the memory map handed to the firmware, and the configuration the board writes to the
  CMOS memory. The drives appear as their geometry.
  Shown are that the memory size reaches the firmware through the CMOS bytes, and that a
  pressed key interrupts the CPU with the vector of line 1 and is then read from the data port.
\<close>

section \<open>Interrupts\<close>

record 'w isa_irq_state =
  isa_i8259 :: "'w qemu_irq list"
  isa_ioapic :: "'w qemu_irq list"

text \<open>The test of \<open>isa->ioapic\<close> always succeeds, since it is an array in the structure.\<close>

definition isa_irq_handler :: "'w isa_irq_state \<Rightarrow> nat \<Rightarrow> int \<Rightarrow> 'w \<Rightarrow> 'w" where
  "isa_irq_handler isa n level w =
     (let w = (if n < 16 then qemu_set_irq (isa_i8259 isa ! n) level w else w)
      in qemu_set_irq (isa_ioapic isa ! n) level w)"

definition ioport80_write :: "u32 \<Rightarrow> u32 \<Rightarrow> 'w \<Rightarrow> 'w" where
  "ioport80_write addr data w = w"

definition pc_register_ferr_irq :: "'w qemu_irq \<Rightarrow> 'w qemu_irq \<Rightarrow> 'w qemu_irq" where
  "pc_register_ferr_irq irq ferr_irq = irq"

definition cpu_set_ferr :: "'w qemu_irq \<Rightarrow> 'w \<Rightarrow> 'w" where
  "cpu_set_ferr ferr_irq = qemu_irq_raise ferr_irq"

definition ioportF0_write :: "'w qemu_irq \<Rightarrow> u32 \<Rightarrow> u32 \<Rightarrow> 'w \<Rightarrow> 'w" where
  "ioportF0_write ferr_irq addr data = qemu_irq_lower ferr_irq"

section \<open>CMOS\<close>

datatype fdrive_type = FDRIVE_DRV_144 | FDRIVE_DRV_288 | FDRIVE_DRV_120 | FDRIVE_DRV_NONE

definition cmos_get_fd_drive_type :: "fdrive_type \<Rightarrow> int" where
  "cmos_get_fd_drive_type fd0 =
     (case fd0 of FDRIVE_DRV_144 \<Rightarrow> 4 | FDRIVE_DRV_288 \<Rightarrow> 5 | FDRIVE_DRV_120 \<Rightarrow> 2 | FDRIVE_DRV_NONE \<Rightarrow> 0)"

record hd_geometry =
  cylinders :: int
  heads :: int
  sectors :: int
  translation :: int

definition cmos_init_hd :: "int \<Rightarrow> int \<Rightarrow> hd_geometry \<Rightarrow> rtc_state \<Rightarrow> rtc_state" where
  "cmos_init_hd type_ofs info_ofs drv s =
     (let s = rtc_set_memory type_ofs 47 s;
          s = rtc_set_memory info_ofs (cylinders drv) s;
          s = rtc_set_memory (info_ofs + 1) (drop_bit 8 (cylinders drv)) s;
          s = rtc_set_memory (info_ofs + 2) (heads drv) s;
          s = rtc_set_memory (info_ofs + 3) 0xff s;
          s = rtc_set_memory (info_ofs + 4) 0xff s;
          s = rtc_set_memory (info_ofs + 5) (0xc0 OR push_bit 3 (c_bool (heads drv > 8))) s;
          s = rtc_set_memory (info_ofs + 6) (cylinders drv) s;
          s = rtc_set_memory (info_ofs + 7) (drop_bit 8 (cylinders drv)) s
      in rtc_set_memory (info_ofs + 8) (sectors drv) s)"

definition boot_device2nibble :: "char \<Rightarrow> int" where
  "boot_device2nibble boot_device =
     (if boot_device = CHR ''a'' \<or> boot_device = CHR ''b'' then 0x01
      else if boot_device = CHR ''c'' then 0x02
      else if boot_device = CHR ''d'' then 0x03
      else if boot_device = CHR ''n'' then 0x04
      else 0)"

definition PC_MAX_BOOT_DEVICES :: nat where "PC_MAX_BOOT_DEVICES = 3"

definition set_boot_dev :: "string \<Rightarrow> bool \<Rightarrow> rtc_state \<Rightarrow> int \<times> rtc_state" where
  "set_boot_dev boot_device fd_bootchk s =
     (let nibbles = map boot_device2nibble boot_device;
          bds = nibbles @ replicate (3 - length nibbles) 0
      in if length boot_device > PC_MAX_BOOT_DEVICES \<or> 0 \<in> set nibbles then (1, s)
         else (0, rtc_set_memory 0x38 (push_bit 4 (bds ! 2) OR (if fd_bootchk then 0x0 else 0x1))
                   (rtc_set_memory 0x3d (push_bit 4 (bds ! 1) OR bds ! 0) s)))"

definition pc_boot_set :: "string \<Rightarrow> rtc_state \<Rightarrow> int \<times> rtc_state" where
  "pc_boot_set boot_device s = set_boot_dev boot_device False s"

text \<open>\<open>BIOS_ATA_TRANSLATION_AUTO\<close> is zero.\<close>

definition hd_translation :: "hd_geometry \<Rightarrow> int" where
  "hd_translation drv =
     (if translation drv = 0 then
        (if cylinders drv \<le> 1024 \<and> heads drv \<le> 16 \<and> sectors drv \<le> 63 then 0 else 1)
      else translation drv - 1)"

definition pc_cmos_init_late :: "hd_geometry option list \<Rightarrow> rtc_state \<Rightarrow> rtc_state" where
  "pc_cmos_init_late hd_table s =
     (let s = rtc_set_memory 0x12 ((if hd_table ! 0 \<noteq> None then 0xf0 else 0) OR (if hd_table ! 1 \<noteq> None then 0x0f else 0)) s;
          s = (case hd_table ! 0 of Some drv \<Rightarrow> cmos_init_hd 0x19 0x1b drv s | None \<Rightarrow> s);
          s = (case hd_table ! 1 of Some drv \<Rightarrow> cmos_init_hd 0x1a 0x24 drv s | None \<Rightarrow> s);
          val = fold (\<lambda>i val. case hd_table ! i of None \<Rightarrow> val | Some drv \<Rightarrow> val OR push_bit (i * 2) (hd_translation drv)) [0..<4] 0
      in rtc_set_memory 0x39 val s)"

text \<open>The conversion of an unsigned 64-bit value to the \<open>int\<close> variable \<open>val\<close>, cut at 65535.\<close>

definition val_65535 :: "u64 \<Rightarrow> int" where
  "val_65535 x = (let val = sint (ucast x :: u32) in if val > 65535 then 65535 else val)"

text \<open>
  The two drives and the number of CPUs are arguments; an invalid list of boot devices ends the
  program (\<open>None\<close>).
\<close>

definition pc_cmos_init ::
    "u64 \<Rightarrow> u64 \<Rightarrow> string \<Rightarrow> bool \<Rightarrow> int \<Rightarrow> fdrive_type \<Rightarrow> fdrive_type \<Rightarrow> rtc_state \<Rightarrow> rtc_state option" where
  "pc_cmos_init ram_size above_4g_mem_size boot_device fd_bootchk smp_cpus fd0 fd1 s =
     (let val = 640;
          s = rtc_set_memory 0x16 (drop_bit 8 val) (rtc_set_memory 0x15 val s);
          val = val_65535 (ram_size div 1024 - 1024);
          s = rtc_set_memory 0x18 (drop_bit 8 val) (rtc_set_memory 0x17 val s);
          s = rtc_set_memory 0x31 (drop_bit 8 val) (rtc_set_memory 0x30 val s);
          s = (if above_4g_mem_size \<noteq> 0 then
                 rtc_set_memory 0x5d (sint (ucast (drop_bit 32 above_4g_mem_size) :: u32))
                  (rtc_set_memory 0x5c (sint (drop_bit 24 (ucast above_4g_mem_size :: u32)))
                   (rtc_set_memory 0x5b (sint (drop_bit 16 (ucast above_4g_mem_size :: u32))) s))
               else s);
          val = (if ram_size > 16 * 1024 * 1024
                 then val_65535 (ram_size div 65536 - (16 * 1024 * 1024) div 65536) else 0);
          s = rtc_set_memory 0x35 (drop_bit 8 val) (rtc_set_memory 0x34 val s);
          s = rtc_set_memory 0x5f (smp_cpus - 1) s;
          (err, s) = set_boot_dev boot_device fd_bootchk s
      in if err \<noteq> 0 then None
         else
           let s = rtc_set_memory 0x10 (push_bit 4 (cmos_get_fd_drive_type fd0) OR cmos_get_fd_drive_type fd1) s;
               nb = length [fd \<leftarrow> [fd0, fd1]. fd \<noteq> FDRIVE_DRV_NONE];
               val = (if nb = 1 then 0x01 else if nb = 2 then 0x41 else 0) OR 0x02 OR 0x04
           in Some (rtc_set_memory 0x14 val s))"

section \<open>Port 0x92 and the BIOS\<close>

record port92_state =
  port92_outport :: u8

datatype board_out = A20_level int | Reset_request

definition port92_write :: "u32 \<Rightarrow> port92_state \<Rightarrow> port92_state \<times> board_out list" where
  "port92_write val s =
     (s\<lparr>port92_outport := ucast val\<rparr>,
      A20_level (uint (drop_bit 1 val AND 1)) # (if val AND 1 \<noteq> 0 then [Reset_request] else []))"

definition port92_read :: "port92_state \<Rightarrow> u32" where
  "port92_read s = ucast (port92_outport s)"

definition port92_reset :: "port92_state \<Rightarrow> port92_state" where
  "port92_reset s = s\<lparr>port92_outport := port92_outport s AND NOT 1\<rparr>"

definition port92_initfn :: port92_state where
  "port92_initfn = \<lparr>port92_outport = 0\<rparr>"

text \<open>
  The state is the number of letters of ``Shutdown'' seen. The result is \<open>None\<close> where the
  program exits, and otherwise whether the machine is asked to shut down.
\<close>

definition bochs_bios_write :: "u32 \<Rightarrow> u32 \<Rightarrow> nat \<Rightarrow> (nat \<times> bool) option" where
  "bochs_bios_write addr val shutdown_index =
     (if addr = 0x8900 then
        (if val = of_char (''Shutdown'' ! shutdown_index) then
           (if shutdown_index + 1 = 8 then Some (0, True) else Some (shutdown_index + 1, False))
         else Some (0, False))
      else if addr = 0x501 \<or> addr = 0x502 then None
      else Some (shutdown_index, False))"

definition E820_NR_ENTRIES :: nat where "E820_NR_ENTRIES = 16"

record e820_entry =
  e820_address :: u64
  e820_length :: u64
  e820_type :: u32

text \<open>\<open>Inl\<close> is \<open>-EBUSY\<close>. The table is kept in the order of its entries; the PC is little endian.\<close>

definition e820_add_entry :: "u64 \<Rightarrow> u64 \<Rightarrow> u32 \<Rightarrow> e820_entry list \<Rightarrow> unit + (nat \<times> e820_entry list)" where
  "e820_add_entry address len type table =
     (if length table \<ge> E820_NR_ENTRIES then Inl ()
      else Inr (length table + 1, table @ [\<lparr>e820_address = address, e820_length = len, e820_type = type\<rparr>]))"

section \<open>The memory size reaches the firmware\<close>

lemma two_cmos_bytes:
  assumes "0 \<le> v" "v \<le> 65535"
  shows "unat (word_of_int v :: u8) + 256 * unat (word_of_int (drop_bit 8 v) :: u8) = nat v"
proof -
  have b: "uint (word_of_int k :: u8) = k mod 256" for k by (simp add: uint_word_of_int)
  have "drop_bit 8 v = v div 256" by (simp add: drop_bit_eq_div)
  moreover have "v div 256 mod 256 = v div 256" using assms by simp
  ultimately have "uint (word_of_int v :: u8) + 256 * uint (word_of_int (drop_bit 8 v) :: u8) = v"
    by (simp only: b) simp
  then have "int (unat (word_of_int v :: u8) + 256 * unat (word_of_int (drop_bit 8 v) :: u8)) = v" by simp
  then show ?thesis by linarith
qed

lemma val_65535_small:
  assumes "unat x < 2 ^ 31"
  shows "val_65535 x = int (min (unat x) 65535)"
proof -
  have "int (unat x) < int (2 ^ 31)" using assms by (simp only: of_nat_less_iff)
  then have "uint x < 2 ^ 31" by simp
  then have "sint (ucast x :: u32) = uint x" by (rule sint_ucast_small)
  moreover have "int (min (unat x) 65535) = min (uint x) 65535" by (simp add: of_nat_min)
  ultimately show ?thesis by (simp add: val_65535_def Let_def min_def)
qed

lemma unat_low_byte: "unat (word_of_int (sint (w :: u32)) :: u8) = unat w mod 256"
proof -
  have "word_of_int (sint w) = (ucast w :: u8)" by (rule bit_word_eqI) (simp add: bit_simps)
  then show ?thesis by (simp add: unat_ucast_8)
qed

lemma three_high_bytes:
  fixes h :: nat
  assumes "h < 1099511627776" "65536 dvd h"
  shows "65536 * (h mod 4294967296 div 65536 mod 256) + 16777216 * (h mod 4294967296 div 16777216 mod 256)
    + 4294967296 * (h div 4294967296 mod 256) = h"
proof -
  obtain q where h: "h = 65536 * q" using assms(2) by blast
  define r where "r = q mod 65536"
  have "h mod 4294967296 = 65536 * r" using mult_mod_right [of 65536 q 65536] by (simp add: h r_def)
  then have "h mod 4294967296 div 65536 = r" "h mod 4294967296 div 16777216 = r div 256"
    using div_mult2_eq [of "65536 * r" 65536 256] by simp_all
  moreover have "h div 4294967296 = q div 65536" using div_mult2_eq [of h 65536 65536] by (simp add: h)
  moreover have "q div 65536 < 256" "r div 256 < 256" using assms(1) by (simp_all add: h r_def less_mult_imp_div_less)
  ultimately have e: "h mod 4294967296 div 65536 mod 256 = r mod 256" "h mod 4294967296 div 16777216 mod 256 = r div 256"
    "h div 4294967296 mod 256 = q div 65536" by simp_all
  have "r mod 256 + 256 * (r div 256) = r" "r + 65536 * (q div 65536) = q" by (simp_all add: r_def)
  moreover have "65536 * a + 16777216 * b + 4294967296 * c = 65536 * q"
    if "a + 256 * b = r" "r + 65536 * c = q" for a b c using that by linarith
  ultimately show ?thesis unfolding e unfolding h by blast
qed

lemma set_memory_cmos:
  "length (cmos_data (rtc_set_memory a v s)) = length (cmos_data s)"
  "length (cmos_data s) = 128 \<Longrightarrow> k < 128 \<Longrightarrow> cmos (rtc_set_memory a v s) k = (if a = int k then word_of_int v else cmos s k)"
  by (auto simp: rtc_set_memory_def)

text \<open>
  The firmware learns the memory size. With more than 16 MB of memory below 4 GB, in units
  of 64 KB, the CMOS bytes 0x34 and 0x35 hold the number of such units above 16 MB, from which
  the size is recovered exactly, and 0x30 and 0x31, like 0x17 and 0x18, the number of KB above
  1 MB, cut at 65535; memory above 4 GB, of less than 1 TB, is recovered from 0x5b to 0x5d.
\<close>

theorem pc_cmos_memory_size:
  assumes "pc_cmos_init ram high boot chk cpus fd0 fd1 s = Some t" "length (cmos_data s) = 128"
    "16 * 1024 * 1024 < unat ram" "unat ram < 2 ^ 32" "65536 dvd unat ram"
    "high \<noteq> 0" "unat high < 2 ^ 40" "65536 dvd unat high"
  shows "16 * 1024 * 1024 + 65536 * (unat (cmos t 0x34) + 256 * unat (cmos t 0x35)) = unat ram
    \<and> unat (cmos t 0x30) + 256 * unat (cmos t 0x31) = min (unat ram div 1024 - 1024) 65535
    \<and> cmos t 0x17 = cmos t 0x30 \<and> cmos t 0x18 = cmos t 0x31
    \<and> 2 ^ 16 * unat (cmos t 0x5b) + 2 ^ 24 * unat (cmos t 0x5c) + 2 ^ 32 * unat (cmos t 0x5d) = unat high"
proof -
  define k where "k = val_65535 (ram div 1024 - 1024)"
  define m where "m = val_65535 (ram div 65536 - 256)"
  have "unat (ram div 1024) = unat ram div 1024" "unat (ram div 65536) = unat ram div 65536" by (simp_all add: unat_div)
  then have u: "unat (ram div 1024 - 1024) = unat ram div 1024 - 1024" "unat (ram div 65536 - 256) = unat ram div 65536 - 256"
    using assms(3) by (subst unat_sub; simp add: word_le_nat_alt)+
  have k: "k = int (min (unat ram div 1024 - 1024) 65535)"
    unfolding k_def using assms(4) u(1) by (subst val_65535_small) simp_all
  have m: "m = int (unat ram div 65536 - 256)"
    unfolding m_def using assms(4) u(2) by (subst val_65535_small) simp_all
  have big: "ram > 16 * 1024 * 1024" using assms(3) by (simp add: word_less_nat_alt)
  have cm: "cmos t 0x34 = word_of_int m" "cmos t 0x35 = word_of_int (drop_bit 8 m)"
    "cmos t 0x30 = word_of_int k" "cmos t 0x31 = word_of_int (drop_bit 8 k)"
    "cmos t 0x17 = word_of_int k" "cmos t 0x18 = word_of_int (drop_bit 8 k)"
    "cmos t 0x5b = word_of_int (sint (drop_bit 16 (ucast high :: u32)))"
    "cmos t 0x5c = word_of_int (sint (drop_bit 24 (ucast high :: u32)))"
    "cmos t 0x5d = word_of_int (sint (ucast (drop_bit 32 high) :: u32))"
    using assms(1,2,6) big unfolding pc_cmos_init_def set_boot_dev_def
    by (auto simp: set_memory_cmos Let_def k_def m_def split: if_splits)
  have low: "unat (cmos t 0x34) + 256 * unat (cmos t 0x35) = unat ram div 65536 - 256"
    using two_cmos_bytes [of m] assms(4) by (simp add: cm m)
  have "65536 * (unat ram div 65536) = unat ram" using assms(5) by simp
  then have size: "16 * 1024 * 1024 + 65536 * (unat ram div 65536 - 256) = unat ram" using assms(3) by simp
  have kb: "unat (cmos t 0x30) + 256 * unat (cmos t 0x31) = min (unat ram div 1024 - 1024) 65535"
    using two_cmos_bytes [of k] by (simp add: cm k)
  have same: "cmos t 0x17 = cmos t 0x30" "cmos t 0x18 = cmos t 0x31" by (simp_all only: cm)
  have high: "unat (cmos t 0x5b) = unat high mod 4294967296 div 65536 mod 256"
    "unat (cmos t 0x5c) = unat high mod 4294967296 div 16777216 mod 256"
    "unat (cmos t 0x5d) = unat high div 4294967296 mod 256"
    unfolding cm unat_low_byte unat_drop_bit unat_u64_u32 using assms(7) by simp_all
  have p: "(2::nat) ^ 16 = 65536" "(2::nat) ^ 24 = 16777216" "(2::nat) ^ 32 = 4294967296" by simp_all
  have "unat high < 1099511627776" using assms(7) by simp
  note bytes = three_high_bytes [OF this assms(8)]
  show ?thesis unfolding low size kb same high p bytes by simp
qed

theorem pc_cmos_memory_size_witness:
  defines "s \<equiv> rtc_initfn False 2000 new_year 0"
  shows "\<exists>t. pc_cmos_init 0x2000000 0x4000000 ''c'' True 1 FDRIVE_DRV_144 FDRIVE_DRV_NONE s = Some t
    \<and> 16 * 1024 * 1024 + 65536 * (unat (cmos t 0x34) + 256 * unat (cmos t 0x35)) = 0x2000000"
proof -
  have "\<exists>t. pc_cmos_init 0x2000000 0x4000000 ''c'' True 1 FDRIVE_DRV_144 FDRIVE_DRV_NONE s = Some t"
    by (simp add: pc_cmos_init_def set_boot_dev_def Let_def boot_device2nibble_def PC_MAX_BOOT_DEVICES_def)
  then obtain t where t: "pc_cmos_init 0x2000000 0x4000000 ''c'' True 1 FDRIVE_DRV_144 FDRIVE_DRV_NONE s = Some t" ..
  have "length (cmos_data s) = 128" by (simp add: s_def rtc_initfn_regs)
  from pc_cmos_memory_size [OF t this] t show ?thesis by simp
qed

section \<open>The wiring\<close>

text \<open>
  A board without an I/O APIC and with one CPU that has no local APIC: the interrupt hardware is
  the 8259 pair with its line to the CPU. Keyboard and mouse drive lines 1 and 12.
\<close>

definition pic_line :: "nat \<Rightarrow> int \<Rightarrow> intr_sys \<Rightarrow> intr_sys" where
  "pic_line n level b = on_pic (i8259_set_irq n level) b"

definition board_isa :: "intr_sys isa_irq_state" where
  "board_isa = \<lparr>isa_i8259 = qemu_allocate_irqs pic_line 16, isa_ioapic = replicate 24 None\<rparr>"

definition deliver :: "kbd_out \<Rightarrow> intr_sys \<Rightarrow> intr_sys" where
  "deliver out b = (case out of IrqKbd l \<Rightarrow> isa_irq_handler board_isa 1 l b
     | IrqMouse l \<Rightarrow> isa_irq_handler board_isa 12 l b | _ \<Rightarrow> b)"

lemma isa_line: "n < 16 \<Longrightarrow> isa_irq_handler board_isa n level b = pic_line n level b"
  by (simp add: isa_irq_handler_def board_isa_def allocate_irqs_call qemu_set_irq_def [of None])

lemma pic_line_calls:
  assumes "cpu_apics b ! 0 = None"
  shows "cpu_calls (pic_line n level b) = cpu_calls b @
    map (\<lambda>l. if l \<noteq> 0 then Cpu_interrupt 0 INT_HARD else Cpu_reset_interrupt 0 INT_HARD) (snd (i8259_set_irq n level (isa_pic b)))"
proof -
  have "cpu_calls (fold pic_irq_request ls c) = cpu_calls c @
      map (\<lambda>l. if l \<noteq> 0 then Cpu_interrupt 0 INT_HARD else Cpu_reset_interrupt 0 INT_HARD) ls" if "cpu_apics c ! 0 = None" for ls c
    using that by (induction ls arbitrary: c) (simp_all add: pic_irq_request_def)
  then show ?thesis using assms by (simp add: pic_line_def on_pic_def Let_def split_beta)
qed

lemma pic_line_state: "isa_pic (pic_line n level b) = fst (i8259_set_irq n level (isa_pic b))" "cpu_apics (pic_line n level b) = cpu_apics b"
  by (simp_all add: pic_line_def)

definition pic_idle :: "pic_state2 \<Rightarrow> bool" where
  "pic_idle p \<longleftrightarrow> irr (pic0 p) = 0 \<and> isr (pic0 p) = 0 \<and> irr (pic1 p) = 0"

definition key_pending :: "u8 \<Rightarrow> u8 \<Rightarrow> pic_state2 \<Rightarrow> bool" where
  "key_pending masked vector p \<longleftrightarrow> irr (pic0 p) = 2 \<and> isr (pic0 p) = 0 \<and> irr (pic1 p) = 0
     \<and> imr (pic0 p) = masked \<and> irq_base (pic0 p) = vector"

lemma no_slave: "irr (pic1 p) = 0 \<Longrightarrow> pic_get_irq 1 (pic1 p) = None"
  using pic_get_irq_spec [of 1 "pic1 p"] by (cases "pic_get_irq 1 (pic1 p)") (auto simp: requested_def)

lemma irr_2I: "(\<And>n. bit (x :: u8) n \<longleftrightarrow> n = 1) \<Longrightarrow> x = 2"
  by (rule bit_word_eqI) (simp add: bit_2_iff)

lemma key_pending_get:
  assumes "key_pending m v p" "\<not> bit m 1"
  shows "pic_get_irq 0 (pic0 p) = Some 1"
proof (rule pic_get_irq_single)
  show "requested (pic0 p) 1" using assms by (simp add: key_pending_def requested_def bit_2_iff)
  show "k = 1" if "requested (pic0 p) k" for k using that assms by (simp add: key_pending_def requested_def bit_2_iff)
  show "\<not> blocking 0 (pic0 p) k" for k using assms by (simp add: key_pending_def blocking_def)
qed

lemma raise_key:
  assumes "pic_idle p \<and> \<not> bit (last_irr (pic0 p)) 1 \<and> imr (pic0 p) = m \<and> irq_base (pic0 p) = v \<or> key_pending m v p"
    "\<not> bit m 1"
  shows "key_pending m v (fst (i8259_set_irq 1 1 p)) \<and> snd (i8259_set_irq 1 1 p) = [1]"
proof -
  define q where "q = p\<lparr>pic0 := pic_set_irq1 (pic0 p) 1 1\<rparr>"
  have "irr (pic0 q) = 2"
    using assms(1) by (intro irr_2I) (auto simp: q_def pic_set_irq1_irr pic_idle_def key_pending_def bit_2_iff)
  then have q: "key_pending m v q" using assms(1) by (auto simp: q_def pic_idle_def key_pending_def)
  have "i8259_set_irq 1 1 p = pic_update_irq q" by (simp add: i8259_set_irq_def upd_pics_def q_def)
  also have "\<dots> = (q, [1])"
    using no_slave [of q] key_pending_get [OF q assms(2)] q by (simp add: pic_update_irq_def key_pending_def)
  finally show ?thesis using q by simp
qed

lemma lower_mouse:
  assumes "key_pending m v p" "\<not> bit m 1"
  shows "key_pending m v (fst (i8259_set_irq 12 0 p)) \<and> snd (i8259_set_irq 12 0 p) = [1]"
proof -
  define q where "q = p\<lparr>pic1 := pic_set_irq1 (pic1 p) 4 0\<rparr>"
  have "irr (pic1 q) = 0"
    using assms(1) by (intro bit_word_eqI) (simp add: q_def pic_set_irq1_irr key_pending_def)
  then have q: "key_pending m v q" using assms(1) by (simp add: q_def key_pending_def)
  have "i8259_set_irq 12 0 p = pic_update_irq q" by (simp add: i8259_set_irq_def upd_pics_def q_def)
  also have "\<dots> = (q, [1])"
    using no_slave [of q] key_pending_get [OF q assms(2)] q by (simp add: pic_update_irq_def key_pending_def)
  finally show ?thesis using q by simp
qed

lemma deliver_key:
  assumes "pic_idle (isa_pic b) \<and> \<not> bit (last_irr (pic0 (isa_pic b))) 1 \<and> imr (pic0 (isa_pic b)) = m
      \<and> irq_base (pic0 (isa_pic b)) = v \<or> key_pending m v (isa_pic b)"
    "\<not> bit m 1" "0 < n" "cpu_apics b ! 0 = None"
  defines "c \<equiv> \<lambda>n b. fold deliver (concat (replicate n [IrqKbd 1, IrqMouse 0])) b"
  shows "key_pending m v (isa_pic (c n b)) \<and> Cpu_interrupt 0 INT_HARD \<in> set (cpu_calls (c n b)) \<and> cpu_apics (c n b) = cpu_apics b"
  using assms(1,3,4)
proof (induction n arbitrary: b)
  case (Suc n)
  define b1 where "b1 = pic_line 1 1 b"
  define b2 where "b2 = pic_line 12 0 b1"
  note r = raise_key [OF Suc.prems(1) assms(2)]
  have p1: "isa_pic b1 = fst (i8259_set_irq 1 1 (isa_pic b))" "cpu_apics b1 = cpu_apics b" by (simp_all add: b1_def pic_line_state)
  note l = lower_mouse [OF conjunct1 [OF r] assms(2)]
  have p2: "isa_pic b2 = fst (i8259_set_irq 12 0 (isa_pic b1))" "cpu_apics b2 = cpu_apics b" by (simp_all add: b2_def pic_line_state p1)
  have q: "key_pending m v (isa_pic b2)" using l by (simp add: p2 p1)
  have calls: "Cpu_interrupt 0 INT_HARD \<in> set (cpu_calls b2)"
    using r Suc.prems(3) by (simp add: b2_def b1_def pic_line_calls pic_line_state)
  have step: "fold deliver [IrqKbd 1, IrqMouse 0] b = b2"
    by (simp add: deliver_def isa_line b1_def b2_def)
  have next_turn: "c (Suc n) b = c n b2"
    by (simp only: c_def replicate_Suc concat.simps fold_append comp_apply step)
  show ?case unfolding next_turn using Suc.IH [of b2] q calls p2(2) Suc.prems(3) by (cases n) (simp_all add: c_def)
qed simp

lemma key_calls:
  assumes "ctl_ok s a False" "ctl_mode s AND KBD_MODE_KBD_INT \<noteq> 0" "ctl_mode s AND KBD_MODE_DISABLE_KBD = 0"
  shows "snd (kbd_calls kbd_update_kbd_irq (replicate n 1) s) = concat (replicate n [IrqKbd 1, IrqMouse 0])"
  using assms
proof (induction n arbitrary: s a)
  case (Suc n)
  let ?t = "s\<lparr>pending := pending s OR KBD_PENDING_KBD\<rparr>"
  have p: "pending ?t = pending_of True False" using Suc.prems(1) by (simp add: ctl_ok_def pending_update)
  have out: "snd (kbd_update_irq ?t) = [IrqKbd 1, IrqMouse 0]"
    using p Suc.prems(2,3) by (simp add: kbd_update_irq_def Let_def pending_of_def KBD_PENDING_AUX_def)
  have "ctl_ok (fst (kbd_update_irq ?t)) True False" using kbd_update_irq_ok(1) [OF p] .
  from Suc.IH [OF this] Suc.prems(2,3) out show ?case by (simp add: kbd_update_kbd_irq_def split_beta Let_def)
qed simp

lemma queues_levels:
  "ps2_count (queue s) + length bs \<le> 256 \<Longrightarrow> snd (ps2_queues bs s) = replicate (length bs) 1"
  by (induction bs arbitrary: s) (simp_all add: ps2_queue_def PS2_QUEUE_SIZE_def Let_def split_beta)

text \<open>The bytes of a key.\<close>

definition key_bytes :: "int \<Rightarrow> ps2_kbd_state \<Rightarrow> int list" where
  "key_bytes keycode s =
     (if translate s = 0 \<and> keycode < 0xe0 \<and> scancode_set s > 1 then
        (if keycode AND 0x80 \<noteq> 0 then [0xf0] else []) @
        [if scancode_set s = 2 then uint (ps2_raw_keycode ! nat (keycode AND 0x7f))
         else if scancode_set s = 3 then uint (ps2_raw_keycode_set3 ! nat (keycode AND 0x7f))
         else keycode]
      else [keycode])"

lemma put_keycode_bytes:
  "ps2_put_keycode k s = kbd_queues (key_bytes k s) s" "key_bytes k s \<noteq> []" "length (key_bytes k s) \<le> 2"
  by (simp_all add: ps2_put_keycode_def key_bytes_def)

lemma key_press:
  fixes k :: int
  assumes "kbd_wf s" "ports s = ([], [])" "ctl_mode s AND KBD_MODE_KBD_INT \<noteq> 0" "ctl_mode s AND KBD_MODE_DISABLE_KBD = 0"
  defines "bs \<equiv> key_bytes k (kbd s)"
  defines "r \<equiv> on_kbd (ps2_put_keycode k) s"
  shows "snd r = concat (replicate (length bs) [IrqKbd 1, IrqMouse 0])" "ports (fst r) = (map word_of_int bs, [])" "kbd_wf (fst r)"
proof -
  let ?k = "kbd s" and ?t = "s\<lparr>kbd := fst (ps2_put_keycode k (kbd s))\<rparr>"
  have q: "queue_ok (kbd_common ?k)" using assms(1) by (simp add: kbd_wf_def)
  have c: "ps2_count (queue (kbd_common ?k)) = 0" "ps2_count (queue (mouse_common (mouse s))) = 0"
    using assms(2) length_queue_elems [of "kbd_common ?k"] length_queue_elems [of "mouse_common (mouse s)"] by (simp_all add: ports_def)
  have len: "length bs \<le> 256" using put_keycode_bytes(3) [of k ?k] by (simp add: bs_def)
  have out: "snd (ps2_put_keycode k ?k) = replicate (length bs) 1"
    using queues_levels [of "kbd_common ?k" bs] c len by (simp add: put_keycode_bytes(1) kbd_queues_def split_beta Let_def bs_def)
  have ctl: "ctl_ok ?t (has_data (kbd_common ?k) \<noteq> 0) False" using assms(1) c by (simp add: kbd_wf_def ctl_ok_def has_data_def)
  show "snd r = concat (replicate (length bs) [IrqKbd 1, IrqMouse 0])"
    using key_calls [OF ctl] assms(3,4) out by (simp add: r_def on_kbd_def split_beta Let_def)
  have calls: "kbd (fst r) = fst (ps2_put_keycode k ?k)" "mouse (fst r) = mouse s"
    using kbd_calls_kbd [OF ctl, of "replicate (length bs) 1"] by (simp_all add: r_def on_kbd_def split_beta Let_def out)
  have "queue_elems (kbd_common (fst (ps2_put_keycode k ?k))) = map word_of_int bs"
    using kbd_queues_elems(1) [OF q, of bs] c len assms(2) by (simp add: put_keycode_bytes(1) bs_def ports_def)
  then show "ports (fst r) = (map word_of_int bs, [])" using assms(2) by (simp add: ports_def calls)
  show "kbd_wf (fst r)"
    using good_on_kbd [of s "ps2_put_keycode k"] kbd_good_put_keycode [of ?k k] assms(1) by (simp add: r_def good_def kbd_wf_def)
qed

end
