(* ===== verification/Pci.thy ===== *)
theory Pci
  imports Prelude
begin

text \<open>
  The PCI bus (\<open>hw/pci.c\<close>, accessors of \<open>hw/pci.h\<close>, windows of \<open>hw/pci_bridge.c\<close>): the
  configuration space of a device with its masks, the base address registers and the mappings they
  ask for, the interrupt pins and the counters of the lines of the bus, capabilities, reset and
  registration. The bus is the root bus, whose devices are a list indexed by device and
  function. What the code does outside the bus, such as mapping regions and setting lines of
  the interrupt router, is a list of calls. The routing of pins to lines is an argument, since each
  chipset brings its own.
  Shown are the effect of configuration writes, the protocol by which a guest sizes a region,
  the agreement of mappings and registers, of line counters and pins, and the allocation of
  capabilities.
\<close>

section \<open>Constants\<close>

abbreviation (input) PCI_VENDOR_ID :: nat where "PCI_VENDOR_ID \<equiv> 0x00"
abbreviation (input) PCI_DEVICE_ID :: nat where "PCI_DEVICE_ID \<equiv> 0x02"
abbreviation (input) PCI_COMMAND :: nat where "PCI_COMMAND \<equiv> 0x04"
abbreviation (input) PCI_COMMAND_IO :: u16 where "PCI_COMMAND_IO \<equiv> 0x1"
abbreviation (input) PCI_COMMAND_MEMORY :: u16 where "PCI_COMMAND_MEMORY \<equiv> 0x2"
abbreviation (input) PCI_COMMAND_MASTER :: u16 where "PCI_COMMAND_MASTER \<equiv> 0x4"
abbreviation (input) PCI_COMMAND_SERR :: u16 where "PCI_COMMAND_SERR \<equiv> 0x100"
abbreviation (input) PCI_COMMAND_INTX_DISABLE :: u16 where "PCI_COMMAND_INTX_DISABLE \<equiv> 0x400"
abbreviation (input) PCI_STATUS :: nat where "PCI_STATUS \<equiv> 0x06"
abbreviation (input) PCI_STATUS_INTERRUPT :: u8 where "PCI_STATUS_INTERRUPT \<equiv> 0x08"
abbreviation (input) PCI_STATUS_CAP_LIST :: u8 where "PCI_STATUS_CAP_LIST \<equiv> 0x10"
abbreviation (input) PCI_REVISION_ID :: nat where "PCI_REVISION_ID \<equiv> 0x08"
abbreviation (input) PCI_CLASS_PROG :: nat where "PCI_CLASS_PROG \<equiv> 0x09"
abbreviation (input) PCI_CLASS_DEVICE :: nat where "PCI_CLASS_DEVICE \<equiv> 0x0a"
abbreviation (input) PCI_CACHE_LINE_SIZE :: nat where "PCI_CACHE_LINE_SIZE \<equiv> 0x0c"
abbreviation (input) PCI_HEADER_TYPE :: nat where "PCI_HEADER_TYPE \<equiv> 0x0e"
abbreviation (input) PCI_BASE_ADDRESS_0 :: nat where "PCI_BASE_ADDRESS_0 \<equiv> 0x10"
abbreviation (input) PCI_BASE_ADDRESS_SPACE_IO :: u8 where "PCI_BASE_ADDRESS_SPACE_IO \<equiv> 0x01"
abbreviation (input) PCI_BASE_ADDRESS_MEM_TYPE_64 :: u8 where "PCI_BASE_ADDRESS_MEM_TYPE_64 \<equiv> 0x04"
abbreviation (input) PCI_BASE_ADDRESS_MEM_PREFETCH :: u8 where "PCI_BASE_ADDRESS_MEM_PREFETCH \<equiv> 0x08"
abbreviation (input) PCI_SUBSYSTEM_VENDOR_ID :: nat where "PCI_SUBSYSTEM_VENDOR_ID \<equiv> 0x2c"
abbreviation (input) PCI_SUBSYSTEM_ID :: nat where "PCI_SUBSYSTEM_ID \<equiv> 0x2e"
abbreviation (input) PCI_ROM_ADDRESS :: nat where "PCI_ROM_ADDRESS \<equiv> 0x30"
abbreviation (input) PCI_CAPABILITY_LIST :: nat where "PCI_CAPABILITY_LIST \<equiv> 0x34"
abbreviation (input) PCI_ROM_ADDRESS1 :: nat where "PCI_ROM_ADDRESS1 \<equiv> 0x38"
abbreviation (input) PCI_INTERRUPT_LINE :: nat where "PCI_INTERRUPT_LINE \<equiv> 0x3c"
abbreviation (input) PCI_CONFIG_HEADER_SIZE :: nat where "PCI_CONFIG_HEADER_SIZE \<equiv> 0x40"
abbreviation (input) PCI_ROM_SLOT :: nat where "PCI_ROM_SLOT \<equiv> 6"
abbreviation (input) PCI_NUM_REGIONS :: nat where "PCI_NUM_REGIONS \<equiv> 7"
abbreviation (input) PCI_NUM_PINS :: nat where "PCI_NUM_PINS \<equiv> 4"
abbreviation (input) PCI_BAR_UNMAPPED :: u64 where "PCI_BAR_UNMAPPED \<equiv> - 1"
abbreviation (input) QEMU_PCI_CAP_EXPRESS :: u32 where "QEMU_PCI_CAP_EXPRESS \<equiv> 0x4"
abbreviation (input) QEMU_PCI_CAP_MULTIFUNCTION :: u32 where "QEMU_PCI_CAP_MULTIFUNCTION \<equiv> 0x8"
abbreviation (input) QEMU_PCI_CAP_SERR :: u32 where "QEMU_PCI_CAP_SERR \<equiv> 0x10"

section \<open>State\<close>

record pci_io_region =
  r_addr :: u64
  r_size :: u64
  r_filtered_size :: u64
  r_type :: u8

record pci_device =
  pci_config :: "u8 list"
  cmask :: "u8 list"
  wmask :: "u8 list"
  w1cmask :: "u8 list"
  used :: "u8 list"
  devfn :: nat
  io_regions :: "pci_io_region list"
  pin_state :: u8
  cap_present :: u32

record pci_bus =
  devices :: "pci_device option list"
  irq_count :: "int list"
  mem_base :: u64
  devfn_min :: nat

text \<open>
  The calls that leave the bus: a level on a line of the interrupt router, the removal of a range of
  ports or memory, and the device's function that maps a region.
\<close>

datatype pci_call =
    Bus_set_irq nat int
  | Isa_unassign_ioport u64 u64
  | Unassign_memory u64 u64
  | Unregister_coalesced_mmio u64 u64
  | Map_func nat nat u64 u64 u8

section \<open>Little-endian accessors\<close>

definition pci_get_word :: "u8 list \<Rightarrow> nat \<Rightarrow> u16" where
  "pci_get_word c o1 = ucast (c ! o1) OR push_bit 8 (ucast (c ! (o1 + 1)))"

definition pci_set_word :: "u8 list \<Rightarrow> nat \<Rightarrow> u16 \<Rightarrow> u8 list" where
  "pci_set_word c o1 v = c[o1 := ucast v, o1 + 1 := ucast (drop_bit 8 v)]"

definition pci_get_long :: "u8 list \<Rightarrow> nat \<Rightarrow> u32" where
  "pci_get_long c o1 = ucast (pci_get_word c o1) OR push_bit 16 (ucast (pci_get_word c (o1 + 2)))"

definition pci_set_long :: "u8 list \<Rightarrow> nat \<Rightarrow> u32 \<Rightarrow> u8 list" where
  "pci_set_long c o1 v = pci_set_word (pci_set_word c o1 (ucast v)) (o1 + 2) (ucast (drop_bit 16 v))"

definition pci_get_quad :: "u8 list \<Rightarrow> nat \<Rightarrow> u64" where
  "pci_get_quad c o1 = ucast (pci_get_long c o1) OR push_bit 32 (ucast (pci_get_long c (o1 + 4)))"

definition pci_set_quad :: "u8 list \<Rightarrow> nat \<Rightarrow> u64 \<Rightarrow> u8 list" where
  "pci_set_quad c o1 v = pci_set_long (pci_set_long c o1 (ucast v)) (o1 + 4) (ucast (drop_bit 32 v))"


definition pci_word_test_and_set_mask :: "u8 list \<Rightarrow> nat \<Rightarrow> u16 \<Rightarrow> u8 list" where
  "pci_word_test_and_set_mask c o1 m = pci_set_word c o1 (pci_get_word c o1 OR m)"

definition pci_config_size :: "pci_device \<Rightarrow> nat" where
  "pci_config_size d = (if cap_present d AND QEMU_PCI_CAP_EXPRESS \<noteq> 0 then 0x1000 else 0x100)"

definition memset :: "u8 list \<Rightarrow> nat \<Rightarrow> u8 \<Rightarrow> nat \<Rightarrow> u8 list" where
  "memset c o1 v n = take o1 c @ replicate (min n (length c - o1)) v @ drop (o1 + n) c"

text \<open>Ranges of \<open>range.h\<close>; the lengths used are positive and nothing wraps.\<close>

definition range_covers_byte :: "nat \<Rightarrow> nat \<Rightarrow> nat \<Rightarrow> bool" where
  "range_covers_byte offset len byte \<longleftrightarrow> offset \<le> byte \<and> byte \<le> offset + len - 1"

definition ranges_overlap :: "nat \<Rightarrow> nat \<Rightarrow> nat \<Rightarrow> nat \<Rightarrow> bool" where
  "ranges_overlap first1 len1 first2 len2 \<longleftrightarrow>
     \<not> (first2 + len2 - 1 < first1 \<or> first1 + len1 - 1 < first2)"

section \<open>Interrupt pins\<close>

abbreviation dev :: "pci_bus \<Rightarrow> nat \<Rightarrow> pci_device" where
  "dev b n \<equiv> the (devices b ! n)"

definition set_dev :: "nat \<Rightarrow> pci_device \<Rightarrow> pci_bus \<Rightarrow> pci_bus" where
  "set_dev n d b = b\<lparr>devices := (devices b)[n := Some d]\<rparr>"

definition pci_bar :: "pci_device \<Rightarrow> nat \<Rightarrow> nat" where
  "pci_bar d reg =
     (if reg \<noteq> PCI_ROM_SLOT then PCI_BASE_ADDRESS_0 + reg * 4
      else if pci_config d ! PCI_HEADER_TYPE AND NOT 0x80 = 1 then PCI_ROM_ADDRESS1 else PCI_ROM_ADDRESS)"

definition pci_irq_state :: "pci_device \<Rightarrow> nat \<Rightarrow> int" where
  "pci_irq_state d irq_num = of_bool (bit (pin_state d) irq_num)"

definition pci_set_irq_state :: "nat \<Rightarrow> int \<Rightarrow> pci_device \<Rightarrow> pci_device" where
  "pci_set_irq_state irq_num level d =
     (let d = d\<lparr>pin_state := pin_state d AND NOT (shl1 irq_num)\<rparr>
      in d\<lparr>pin_state := pin_state d OR word_of_int (push_bit irq_num level)\<rparr>)"

text \<open>On the root bus the search for a bus with a line setter ends at once.\<close>

definition pci_change_irq_level ::
    "(nat \<Rightarrow> nat \<Rightarrow> nat) \<Rightarrow> nat \<Rightarrow> nat \<Rightarrow> int \<Rightarrow> pci_bus \<Rightarrow> pci_bus \<times> pci_call list" where
  "pci_change_irq_level map_irq n irq_num change b =
     (let k = map_irq (devfn (dev b n)) irq_num;
          b = b\<lparr>irq_count := (irq_count b)[k := irq_count b ! k + change]\<rparr>
      in (b, [Bus_set_irq k (of_bool (irq_count b ! k \<noteq> 0))]))"

definition pci_bus_get_irq_level :: "pci_bus \<Rightarrow> nat \<Rightarrow> int" where
  "pci_bus_get_irq_level b irq_num = of_bool (irq_count b ! irq_num \<noteq> 0)"

definition pci_update_irq_status :: "pci_device \<Rightarrow> pci_device" where
  "pci_update_irq_status d =
     d\<lparr>pci_config := (pci_config d)[PCI_STATUS :=
        (if pin_state d \<noteq> 0 then pci_config d ! PCI_STATUS OR PCI_STATUS_INTERRUPT
         else pci_config d ! PCI_STATUS AND NOT PCI_STATUS_INTERRUPT)]\<rparr>"

definition pci_irq_disabled :: "pci_device \<Rightarrow> bool" where
  "pci_irq_disabled d \<longleftrightarrow> pci_get_word (pci_config d) PCI_COMMAND AND PCI_COMMAND_INTX_DISABLE \<noteq> 0"

definition pci_set_irq ::
    "(nat \<Rightarrow> nat \<Rightarrow> nat) \<Rightarrow> nat \<Rightarrow> nat \<Rightarrow> int \<Rightarrow> pci_bus \<Rightarrow> pci_bus \<times> pci_call list" where
  "pci_set_irq map_irq n irq_num level b =
     (let d = dev b n;
          change = level - pci_irq_state d irq_num
      in if change = 0 then (b, [])
         else
           let d = pci_update_irq_status (pci_set_irq_state irq_num level d);
               b = set_dev n d b
           in if pci_irq_disabled d then (b, []) else pci_change_irq_level map_irq n irq_num change b)"

text \<open>Runs operations one after the other and collects their calls.\<close>

primrec seq :: "('a \<Rightarrow> 's \<Rightarrow> 's \<times> 'c list) \<Rightarrow> 'a list \<Rightarrow> 's \<Rightarrow> 's \<times> 'c list" where
  "seq f [] s = (s, [])"
| "seq f (x # xs) s = (let (s, a) = f x s; (s, b) = seq f xs s in (s, a @ b))"


definition pci_update_irq_disabled ::
    "(nat \<Rightarrow> nat \<Rightarrow> nat) \<Rightarrow> nat \<Rightarrow> bool \<Rightarrow> pci_bus \<Rightarrow> pci_bus \<times> pci_call list" where
  "pci_update_irq_disabled map_irq n was_irq_disabled b =
     (let disabled = pci_irq_disabled (dev b n)
      in if disabled = was_irq_disabled then (b, [])
         else seq (\<lambda>i b. let state = pci_irq_state (dev b n) i
                         in pci_change_irq_level map_irq n i (if disabled then - state else state) b)
                [0..<PCI_NUM_PINS] b)"

section \<open>Windows of bridges\<close>

definition pci_config_get_io_base :: "u8 list \<Rightarrow> nat \<Rightarrow> nat \<Rightarrow> u32" where
  "pci_config_get_io_base c base base_upper16 =
     (let val = push_bit 8 (ucast (c ! base) AND NOT 0x0f)
      in if c ! base AND 0x01 \<noteq> 0 then val OR push_bit 16 (ucast (pci_get_word c base_upper16)) else val)"

definition pci_config_get_memory_base :: "u8 list \<Rightarrow> nat \<Rightarrow> u64" where
  "pci_config_get_memory_base c base = push_bit 16 (ucast (pci_get_word c base) AND NOT 0x0f)"

definition pci_config_get_pref_base :: "u8 list \<Rightarrow> nat \<Rightarrow> nat \<Rightarrow> u64" where
  "pci_config_get_pref_base c base upper =
     (let tmp = ucast (pci_get_word c base);
          val = push_bit 16 (tmp AND NOT 0x0f)
      in if tmp AND 0x01 \<noteq> 0 then val OR push_bit 32 (ucast (pci_get_long c upper)) else val)"

definition pci_bridge_get_base :: "u8 list \<Rightarrow> u8 \<Rightarrow> u64" where
  "pci_bridge_get_base c type =
     (if type AND PCI_BASE_ADDRESS_SPACE_IO \<noteq> 0 then ucast (pci_config_get_io_base c 0x1c 0x30)
      else if type AND PCI_BASE_ADDRESS_MEM_PREFETCH \<noteq> 0 then pci_config_get_pref_base c 0x24 0x28
      else pci_config_get_memory_base c 0x20)"

definition pci_bridge_get_limit :: "u8 list \<Rightarrow> u8 \<Rightarrow> u64" where
  "pci_bridge_get_limit c type =
     (if type AND PCI_BASE_ADDRESS_SPACE_IO \<noteq> 0 then ucast (pci_config_get_io_base c 0x1d 0x32) OR 0xfff
      else (if type AND PCI_BASE_ADDRESS_MEM_PREFETCH \<noteq> 0 then pci_config_get_pref_base c 0x26 0x2c
            else pci_config_get_memory_base c 0x22) OR 0xfffff)"

text \<open>
  The bridges between a device and the root are given by their configuration spaces, the
  nearest first; a device on the root bus has none. The result is address and size.
\<close>

fun bridge_window :: "pci_device \<Rightarrow> u8 \<Rightarrow> u8 list list \<Rightarrow> u64 \<Rightarrow> u64 \<Rightarrow> (u64 \<times> u64) option" where
  "bridge_window d type [] base limit = Some (base, limit)"
| "bridge_window d type (br # brs) base limit =
     (let cmd = pci_get_word (pci_config d) PCI_COMMAND
      in if (if type AND PCI_BASE_ADDRESS_SPACE_IO \<noteq> 0 then cmd AND PCI_COMMAND_IO = 0 else cmd AND PCI_COMMAND_MEMORY = 0)
         then None
         else bridge_window d type brs (max base (pci_bridge_get_base br type)) (min limit (pci_bridge_get_limit br type)))"

definition pci_bridge_filter :: "pci_device \<Rightarrow> u8 list list \<Rightarrow> u64 \<Rightarrow> u64 \<Rightarrow> u8 \<Rightarrow> u64 \<times> u64" where
  "pci_bridge_filter d brs addr sz type =
     (case bridge_window d type brs addr (addr + sz - 1) of
        None \<Rightarrow> (PCI_BAR_UNMAPPED, 0)
      | Some (base, limit) \<Rightarrow> if base > limit then (PCI_BAR_UNMAPPED, 0) else (base, limit - base + 1))"

section \<open>Base address registers\<close>

text \<open>The PC's physical addresses have 64 bits, so \<open>TARGET_PHYS_ADDR_MAX\<close> is the largest 64 bit number.\<close>

definition pci_bar_address :: "pci_device \<Rightarrow> nat \<Rightarrow> u8 \<Rightarrow> u64 \<Rightarrow> u64" where
  "pci_bar_address d reg type sz =
     (let bar = pci_bar d reg;
          cmd = pci_get_word (pci_config d) PCI_COMMAND
      in if type AND PCI_BASE_ADDRESS_SPACE_IO \<noteq> 0 then
           (if cmd AND PCI_COMMAND_IO = 0 then PCI_BAR_UNMAPPED
            else
              let new_addr = ucast (pci_get_long (pci_config d) bar) AND NOT (sz - 1);
                  last_addr = new_addr + sz - 1
              in if last_addr \<le> new_addr \<or> new_addr = 0 \<or> last_addr > 0xffff then PCI_BAR_UNMAPPED else new_addr)
         else if cmd AND PCI_COMMAND_MEMORY = 0 then PCI_BAR_UNMAPPED
         else
           let new_addr = (if type AND PCI_BASE_ADDRESS_MEM_TYPE_64 \<noteq> 0 then pci_get_quad (pci_config d) bar
                           else ucast (pci_get_long (pci_config d) bar))
           in if reg = PCI_ROM_SLOT \<and> new_addr AND 1 = 0 then PCI_BAR_UNMAPPED
              else
                let new_addr = new_addr AND NOT (sz - 1);
                    last_addr = new_addr + sz - 1
                in if last_addr \<le> new_addr \<or> new_addr = 0 \<or> last_addr = PCI_BAR_UNMAPPED then PCI_BAR_UNMAPPED
                   else if type AND PCI_BASE_ADDRESS_MEM_TYPE_64 = 0 \<and> last_addr \<ge> 0xffffffff then PCI_BAR_UNMAPPED
                   else if last_addr \<ge> 0xffffffffffffffff then PCI_BAR_UNMAPPED
                   else new_addr)"

definition pci_to_cpu_addr :: "u64 \<Rightarrow> u64 \<Rightarrow> u64" where
  "pci_to_cpu_addr base addr = addr + base"

text \<open>The body of the loop over the regions, on one device.\<close>

definition update_mapping :: "u64 \<Rightarrow> nat \<Rightarrow> pci_device \<Rightarrow> pci_device \<times> pci_call list" where
  "update_mapping base i d =
     (let r = io_regions d ! i
      in if r_size r = 0 then (d, [])
         else
           let new_addr = pci_bar_address d i (r_type r) (r_size r);
               (new_addr, filtered_size) =
                 (if new_addr \<noteq> PCI_BAR_UNMAPPED then pci_bridge_filter d [] new_addr (r_size r) (r_type r)
                  else (new_addr, r_size r))
           in if new_addr = r_addr r \<and> filtered_size = r_filtered_size r then (d, [])
              else
                let io = r_type r AND PCI_BASE_ADDRESS_SPACE_IO \<noteq> 0;
                    out1 = (if r_addr r \<noteq> PCI_BAR_UNMAPPED then
                              (if io then
                                 (if pci_get_word (pci_config d) PCI_CLASS_DEVICE = 0x0101 \<and> r_size r = 4
                                  then [Isa_unassign_ioport (r_addr r + 2) 1]
                                  else [Isa_unassign_ioport (r_addr r) (r_filtered_size r)])
                               else [Unassign_memory (pci_to_cpu_addr base (r_addr r)) (r_filtered_size r),
                                     Unregister_coalesced_mmio (r_addr r) (r_filtered_size r)])
                            else []);
                    r = r\<lparr>r_addr := new_addr, r_filtered_size := filtered_size\<rparr>;
                    out2 = (if r_addr r \<noteq> PCI_BAR_UNMAPPED then
                              [Map_func (devfn d) i (if io then r_addr r else pci_to_cpu_addr base (r_addr r))
                                 (r_filtered_size r) (r_type r)]
                            else [])
                in (d\<lparr>io_regions := (io_regions d)[i := r]\<rparr>, out1 @ out2))"

definition pci_update_mappings :: "nat \<Rightarrow> pci_bus \<Rightarrow> pci_bus \<times> pci_call list" where
  "pci_update_mappings n b =
     (let (d, out) = seq (update_mapping (mem_base b)) [0..<PCI_NUM_REGIONS] (dev b n)
      in (set_dev n d b, out))"

text \<open>
  Registration aborts the program when the size is not a power of two, and on a wrong number.
\<close>

definition pci_register_bar :: "nat \<Rightarrow> u64 \<Rightarrow> u8 \<Rightarrow> pci_device \<Rightarrow> pci_device option" where
  "pci_register_bar region_num sz type d =
     (if region_num \<ge> PCI_NUM_REGIONS then None
      else if sz AND (sz - 1) \<noteq> 0 then None
      else
        let r = \<lparr>r_addr = PCI_BAR_UNMAPPED, r_size = sz, r_filtered_size = sz, r_type = type\<rparr>;
            d = d\<lparr>io_regions := (io_regions d)[region_num := r]\<rparr>;
            m = NOT (sz - 1);
            addr = pci_bar d region_num;
            m = (if region_num = PCI_ROM_SLOT then m OR 1 else m);
            d = d\<lparr>pci_config := pci_set_long (pci_config d) addr (ucast type)\<rparr>
        in Some (if type AND PCI_BASE_ADDRESS_SPACE_IO = 0 \<and> type AND PCI_BASE_ADDRESS_MEM_TYPE_64 \<noteq> 0
                 then d\<lparr>wmask := pci_set_quad (wmask d) addr m, cmask := pci_set_quad (cmask d) addr (- 1)\<rparr>
                 else d\<lparr>wmask := pci_set_long (wmask d) addr (ucast (m AND 0xffffffff)),
                        cmask := pci_set_long (cmask d) addr 0xffffffff\<rparr>))"

section \<open>Configuration space\<close>

definition pci_default_read_config :: "pci_device \<Rightarrow> nat \<Rightarrow> nat \<Rightarrow> u32" where
  "pci_default_read_config d address len =
     (let len = min len (pci_config_size d - address)
      in foldr (\<lambda>x v. ucast x OR push_bit 8 v) (take len (drop address (pci_config d))) 0)"

text \<open>One byte of a write; the assertion that no bit is in both masks is a possible end of the program.\<close>

definition write_byte :: "nat \<Rightarrow> u8 \<Rightarrow> pci_device \<Rightarrow> pci_device option" where
  "write_byte a v d =
     (let wm = wmask d ! a; w1 = w1cmask d ! a
      in if wm AND w1 \<noteq> 0 then None
         else
           let c = (pci_config d ! a AND NOT wm) OR (v AND wm);
               c = c AND NOT (v AND w1)
           in Some (d\<lparr>pci_config := (pci_config d)[a := c]\<rparr>))"

fun write_bytes :: "nat \<Rightarrow> u32 \<Rightarrow> nat \<Rightarrow> pci_device \<Rightarrow> pci_device option" where
  "write_bytes addr val l d =
     (if l = 0 \<or> addr \<ge> pci_config_size d then Some d
      else case write_byte addr (ucast val) d of
        None \<Rightarrow> None
      | Some d \<Rightarrow> write_bytes (addr + 1) (drop_bit 8 val) (l - 1) d)"

declare write_bytes.simps [simp del]

definition pci_default_write_config ::
    "(nat \<Rightarrow> nat \<Rightarrow> nat) \<Rightarrow> nat \<Rightarrow> nat \<Rightarrow> u32 \<Rightarrow> nat \<Rightarrow> pci_bus \<Rightarrow> (pci_bus \<times> pci_call list) option" where
  "pci_default_write_config map_irq n addr val l b =
     (let was_irq_disabled = pci_irq_disabled (dev b n)
      in case write_bytes addr val l (dev b n) of
           None \<Rightarrow> None
         | Some d \<Rightarrow>
             let b = set_dev n d b;
                 (b, out1) =
                   (if ranges_overlap addr l PCI_BASE_ADDRESS_0 24 \<or> ranges_overlap addr l PCI_ROM_ADDRESS 4
                       \<or> ranges_overlap addr l PCI_ROM_ADDRESS1 4 \<or> range_covers_byte addr l PCI_COMMAND
                    then pci_update_mappings n b else (b, []));
                 (b, out2) =
                   (if range_covers_byte addr l PCI_COMMAND
                    then pci_update_irq_disabled map_irq n was_irq_disabled b else (b, []))
             in Some (b, out1 @ out2))"

section \<open>Saving and restoring\<close>

text \<open>A saved space is refused when it differs in a bit that is checked and that the guest cannot change.\<close>

definition get_pci_config_device :: "u8 list \<Rightarrow> nat \<Rightarrow> pci_bus \<Rightarrow> (pci_bus \<times> pci_call list) option" where
  "get_pci_config_device config n b =
     (let s = dev b n
      in if \<exists>i\<in>set [0..<pci_config_size s].
              (config ! i XOR pci_config s ! i) AND cmask s ! i AND NOT (wmask s ! i) AND NOT (w1cmask s ! i) \<noteq> 0
         then None
         else Some (pci_update_mappings n (set_dev n (s\<lparr>pci_config := config\<rparr>) b)))"

definition get_pci_irq_state :: "u32 list \<Rightarrow> pci_device \<Rightarrow> pci_device option" where
  "get_pci_irq_state irq_state1 s =
     (if \<exists>i\<in>set [0..<PCI_NUM_PINS]. irq_state1 ! i \<noteq> 1 \<and> irq_state1 ! i \<noteq> 0 then None
      else Some (fold (\<lambda>i. pci_set_irq_state i (uint (irq_state1 ! i))) [0..<PCI_NUM_PINS] s))"

definition put_pci_irq_state :: "pci_device \<Rightarrow> u32 list" where
  "put_pci_irq_state s = map (\<lambda>i. word_of_int (pci_irq_state s i)) [0..<PCI_NUM_PINS]"

text \<open>What \<open>pci_device_save\<close> writes: the space with the interrupt status cleared, and the pins.\<close>

definition pci_device_save :: "pci_device \<Rightarrow> u8 list \<times> u32 list" where
  "pci_device_save s =
     ((pci_config s)[PCI_STATUS := pci_config s ! PCI_STATUS AND NOT PCI_STATUS_INTERRUPT], put_pci_irq_state s)"

definition pci_device_load :: "u8 list \<times> u32 list \<Rightarrow> nat \<Rightarrow> pci_bus \<Rightarrow> (pci_bus \<times> pci_call list) option" where
  "pci_device_load f n b =
     (case get_pci_config_device (fst f) n b of
        None \<Rightarrow> None
      | Some (b, out) \<Rightarrow>
          (case get_pci_irq_state (snd f) (dev b n) of
             None \<Rightarrow> None
           | Some d \<Rightarrow> Some (set_dev n (pci_update_irq_status d) b, out)))"

section \<open>Reset\<close>




section \<open>Registration\<close>

record pci_device_info =
  i_vendor_id :: u16
  i_device_id :: u16
  i_revision :: u8
  i_class_id :: u16
  i_subsystem_vendor_id :: u16
  i_subsystem_id :: u16
  i_is_bridge :: bool

definition pci_init_cmask :: "pci_device \<Rightarrow> pci_device" where
  "pci_init_cmask d =
     (let c = pci_set_word (cmask d) PCI_VENDOR_ID 0xffff;
          c = pci_set_word c PCI_DEVICE_ID 0xffff;
          c = c[PCI_STATUS := PCI_STATUS_CAP_LIST, PCI_REVISION_ID := 0xff, PCI_CLASS_PROG := 0xff];
          c = pci_set_word c PCI_CLASS_DEVICE 0xffff
      in d\<lparr>cmask := c[PCI_HEADER_TYPE := 0xff, PCI_CAPABILITY_LIST := 0xff]\<rparr>)"

definition pci_init_wmask :: "pci_device \<Rightarrow> pci_device" where
  "pci_init_wmask d =
     (let w = (wmask d)[PCI_CACHE_LINE_SIZE := 0xff, PCI_INTERRUPT_LINE := 0xff];
          w = pci_set_word w PCI_COMMAND (PCI_COMMAND_IO OR PCI_COMMAND_MEMORY OR PCI_COMMAND_MASTER OR PCI_COMMAND_INTX_DISABLE);
          w = (if cap_present d AND QEMU_PCI_CAP_SERR \<noteq> 0 then pci_word_test_and_set_mask w PCI_COMMAND PCI_COMMAND_SERR else w)
      in d\<lparr>wmask := memset w PCI_CONFIG_HEADER_SIZE 0xff (pci_config_size d - PCI_CONFIG_HEADER_SIZE)\<rparr>)"

definition pci_init_w1cmask :: "pci_device \<Rightarrow> pci_device" where
  "pci_init_w1cmask d =
     d\<lparr>w1cmask := pci_set_word (w1cmask d) PCI_STATUS (0x100 OR 0x800 OR 0x1000 OR 0x2000 OR 0x4000 OR 0x8000)\<rparr>"

definition pci_init_wmask_bridge :: "pci_device \<Rightarrow> pci_device" where
  "pci_init_wmask_bridge d =
     (let w = memset (wmask d) 0x18 0xff 4;
          w = w[0x1c := 0xf0, 0x1d := 0xf0];
          w = pci_set_word w 0x20 0xfff0;
          w = pci_set_word w 0x22 0xfff0;
          w = pci_set_word w 0x24 0xfff0;
          w = pci_set_word w 0x26 0xfff0;
          w = memset w 0x28 0xff 8;
          w = pci_set_word w 0x3e (0x01 OR 0x02 OR 0x04 OR 0x08 OR 0x10 OR 0x20 OR 0x40 OR 0x80 OR 0x100 OR 0x200 OR 0x800)
      in d\<lparr>wmask := w, w1cmask := pci_set_word (w1cmask d) 0x3e 0x400\<rparr>)"

text \<open>The number of a device and function: \<open>PCI_SLOT\<close> is the upper part, \<open>PCI_FUNC\<close> the lower three bits.\<close>

definition pci_init_multifunction :: "pci_bus \<Rightarrow> pci_device \<Rightarrow> pci_device option" where
  "pci_init_multifunction b d =
     (let slot = devfn d div 8;
          multi = cap_present d AND QEMU_PCI_CAP_MULTIFUNCTION \<noteq> 0;
          d = (if multi then d\<lparr>pci_config := (pci_config d)[PCI_HEADER_TYPE := pci_config d ! PCI_HEADER_TYPE OR 0x80]\<rparr> else d)
      in if devfn d mod 8 \<noteq> 0 then
           (case devices b ! (slot * 8) of
              Some f0 \<Rightarrow> if cap_present f0 AND QEMU_PCI_CAP_MULTIFUNCTION = 0 then None else Some d
            | None \<Rightarrow> Some d)
         else if multi then Some d
         else if \<exists>func\<in>set [1..<8]. devices b ! (slot * 8 + func) \<noteq> None then None
         else Some d)"

definition pci_config_alloc :: "pci_device \<Rightarrow> pci_device" where
  "pci_config_alloc d =
     (let z = replicate (pci_config_size d) 0
      in d\<lparr>pci_config := z, cmask := z, wmask := z, w1cmask := z, used := z\<rparr>)"

text \<open>The number is \<open>None\<close> where the source passes -1 for the first free slot.\<close>

definition pick_devfn :: "nat option \<Rightarrow> pci_bus \<Rightarrow> nat option" where
  "pick_devfn no b =
     (case no of
        None \<Rightarrow> find (\<lambda>n. devices b ! n = None) (filter (\<lambda>n. (n - devfn_min b) mod 8 = 0) [devfn_min b..<256])
      | Some n \<Rightarrow> if devices b ! n = None then Some n else None)"

definition init_ids :: "pci_device_info \<Rightarrow> pci_device \<Rightarrow> pci_device option" where
  "init_ids info d =
     (let c = pci_set_word (pci_config d) PCI_VENDOR_ID (i_vendor_id info);
          c = pci_set_word c PCI_DEVICE_ID (i_device_id info);
          c = c[PCI_REVISION_ID := i_revision info];
          c = pci_set_word c PCI_CLASS_DEVICE (i_class_id info);
          sub = i_subsystem_vendor_id info \<noteq> 0 \<or> i_subsystem_id info \<noteq> 0
      in if i_is_bridge info then (if sub then None else Some (d\<lparr>pci_config := c\<rparr>))
         else
           let (v, i) = (if sub then (i_subsystem_vendor_id info, i_subsystem_id info) else (0x1af4, 0x1100))
           in Some (d\<lparr>pci_config := pci_set_word (pci_set_word c PCI_SUBSYSTEM_VENDOR_ID v) PCI_SUBSYSTEM_ID i\<rparr>))"

definition do_pci_register_device :: "nat option \<Rightarrow> pci_device_info \<Rightarrow> pci_device \<Rightarrow> pci_bus \<Rightarrow> pci_bus option" where
  "do_pci_register_device no info d b =
     (case pick_devfn no b of
        None \<Rightarrow> None
      | Some n \<Rightarrow>
          (case init_ids info (pci_config_alloc (d\<lparr>devfn := n, pin_state := 0\<rparr>)) of
             None \<Rightarrow> None
           | Some d \<Rightarrow>
               let d = pci_init_w1cmask (pci_init_wmask (pci_init_cmask d));
                   d = (if i_is_bridge info then pci_init_wmask_bridge d else d)
               in case pci_init_multifunction b d of None \<Rightarrow> None | Some d \<Rightarrow> Some (set_dev n d b)))"

definition do_pci_unregister_device :: "nat \<Rightarrow> pci_bus \<Rightarrow> pci_bus" where
  "do_pci_unregister_device n b = b\<lparr>devices := (devices b)[n := None]\<rparr>"

definition pci_unregister_io_regions :: "nat \<Rightarrow> pci_bus \<Rightarrow> pci_call list" where
  "pci_unregister_io_regions n b =
     concat (map (\<lambda>r. if r_size r = 0 \<or> r_addr r = PCI_BAR_UNMAPPED then []
       else if r_type r = PCI_BASE_ADDRESS_SPACE_IO then [Isa_unassign_ioport (r_addr r) (r_filtered_size r)]
       else [Unassign_memory (pci_to_cpu_addr (mem_base b) (r_addr r)) (r_filtered_size r)]) (io_regions (dev b n)))"

section \<open>Capabilities\<close>

text \<open>\<open>find_space i offset\<close> is the loop of \<open>pci_find_space\<close> at byte \<open>i\<close>, with \<open>offset\<close> the start of the free run.\<close>

function find_space :: "pci_device \<Rightarrow> u8 \<Rightarrow> nat \<Rightarrow> nat \<Rightarrow> nat" where
  "find_space d sz i offset =
     (if i \<ge> pci_config_size d then 0
      else if used d ! i \<noteq> 0 then find_space d sz (i + 1) (i + 1)
      else if i - offset + 1 = unat sz then offset
      else find_space d sz (i + 1) offset)"
  by auto
termination
  by (relation "measure (\<lambda>(d, sz, i, offset). pci_config_size d - i)") auto

declare find_space.simps [simp del]

definition pci_find_space :: "pci_device \<Rightarrow> u8 \<Rightarrow> nat" where
  "pci_find_space d sz = find_space d sz PCI_CONFIG_HEADER_SIZE PCI_CONFIG_HEADER_SIZE"

text \<open>
  The walk along the list ends only if the list does. The result is the entry found, or zero, and
  the place of the pointer to it; both are bytes, so the addition wraps.
\<close>

partial_function (option) cap_walk :: "u8 list \<Rightarrow> u8 \<Rightarrow> u8 \<Rightarrow> (u8 \<times> u8) option" where
  "cap_walk c cap_id prev =
     (let nxt = c ! unat prev
      in if nxt = 0 then Some (nxt, prev)
         else if c ! unat nxt = cap_id then Some (nxt, prev)
         else cap_walk c cap_id (nxt + 1))"

definition pci_find_capability_list :: "pci_device \<Rightarrow> u8 \<Rightarrow> (u8 \<times> u8) option" where
  "pci_find_capability_list d cap_id =
     (if pci_config d ! PCI_STATUS AND PCI_STATUS_CAP_LIST = 0 then Some (0, 0)
      else cap_walk (pci_config d) cap_id 0x34)"

definition pci_find_capability :: "pci_device \<Rightarrow> u8 \<Rightarrow> u8 option" where
  "pci_find_capability d cap_id = map_option fst (pci_find_capability_list d cap_id)"

text \<open>The offset is returned as the byte it is cut to; \<open>None\<close> when there is no space.\<close>

definition pci_add_capability :: "u8 \<Rightarrow> u8 \<Rightarrow> u8 \<Rightarrow> pci_device \<Rightarrow> (u8 \<times> pci_device) option" where
  "pci_add_capability cap_id offset sz d =
     (let offset = (if offset = 0 then of_nat (pci_find_space d sz) else offset)
      in if offset = 0 then None
         else
           let o1 = unat offset;
               c = (pci_config d)[o1 := cap_id];
               c = c[o1 + 1 := c ! PCI_CAPABILITY_LIST];
               c = c[PCI_CAPABILITY_LIST := offset];
               c = c[PCI_STATUS := c ! PCI_STATUS OR PCI_STATUS_CAP_LIST]
           in Some (offset, d\<lparr>pci_config := c, used := memset (used d) o1 0xff (unat sz),
                      wmask := memset (wmask d) o1 0 (unat sz), cmask := memset (cmask d) o1 0xff (unat sz)\<rparr>))"

definition pci_del_capability :: "u8 \<Rightarrow> u8 \<Rightarrow> pci_device \<Rightarrow> pci_device option" where
  "pci_del_capability cap_id sz d =
     (case pci_find_capability_list d cap_id of
        None \<Rightarrow> None
      | Some (offset, prev) \<Rightarrow>
          if offset = 0 then Some d
          else
            let o1 = unat offset;
                c = (pci_config d)[unat prev := pci_config d ! (o1 + 1)];
                d = d\<lparr>pci_config := c, wmask := memset (wmask d) o1 0xff (unat sz),
                      w1cmask := memset (w1cmask d) o1 0 (unat sz), cmask := memset (cmask d) o1 0 (unat sz),
                      used := memset (used d) o1 0 (unat sz)\<rparr>
            in Some (if pci_config d ! PCI_CAPABILITY_LIST = 0
                     then d\<lparr>pci_config := (pci_config d)[PCI_STATUS := pci_config d ! PCI_STATUS AND NOT PCI_STATUS_CAP_LIST]\<rparr>
                     else d))"

definition pci_reserve_capability :: "u8 \<Rightarrow> u8 \<Rightarrow> pci_device \<Rightarrow> pci_device" where
  "pci_reserve_capability offset sz d = d\<lparr>used := memset (used d) (unat offset) 0xff (unat sz)\<rparr>"

definition pci_find_device :: "pci_bus \<Rightarrow> u8 \<Rightarrow> u8 \<Rightarrow> nat option" where
  "pci_find_device b bus_num dfn = (if bus_num = 0 \<and> devices b ! unat dfn \<noteq> None then Some (unat dfn) else None)"

section \<open>Bytes and words\<close>

lemma ucast_word_low [simp]: "(ucast (ucast (x::u8) OR push_bit 8 (ucast (y::u8)) :: u16) :: u8) = x"
  by (rule bit_word_eqI) (auto simp: bit_simps)

lemma get_set_word:
  assumes "o1 + 1 < length c"
  shows "pci_get_word (pci_set_word c o1 v) o1 = v"
  using assms by (auto simp: pci_get_word_def pci_set_word_def nth_list_update_if bit_simps intro!: bit_word_eqI)

lemma set_word_nth:
  "pci_set_word c o1 v ! j = (if j = o1 + 1 \<and> j < length c then ucast (drop_bit 8 v)
     else if j = o1 \<and> j < length c then ucast v else c ! j)"
  by (simp add: pci_set_word_def nth_list_update_if)

lemma set_length [simp]:
  "length (pci_set_word c o1 v) = length c" "length (pci_set_long c o1 w) = length c" "length (pci_set_quad c o1 x) = length c"
  by (simp_all add: pci_set_word_def pci_set_long_def pci_set_quad_def)

lemma get_word_cong: "c ! o1 = c' ! o1 \<Longrightarrow> c ! (o1 + 1) = c' ! (o1 + 1) \<Longrightarrow> pci_get_word c o1 = pci_get_word c' o1"
  by (simp add: pci_get_word_def)

lemma get_long_cong: "\<forall>j. o1 \<le> j \<and> j < o1 + 4 \<longrightarrow> c ! j = c' ! j \<Longrightarrow> pci_get_long c o1 = pci_get_long c' o1"
  unfolding pci_get_long_def
  by (intro arg_cong2 [of _ _ _ _ "(OR)"] arg_cong [of _ _ ucast] arg_cong [of _ _ "push_bit 16"] get_word_cong) simp_all

lemma get_quad_cong: "\<forall>j. o1 \<le> j \<and> j < o1 + 8 \<longrightarrow> c ! j = c' ! j \<Longrightarrow> pci_get_quad c o1 = pci_get_quad c' o1"
  unfolding pci_get_quad_def
  by (intro arg_cong2 [of _ _ _ _ "(OR)"] arg_cong [of _ _ ucast] arg_cong [of _ _ "push_bit 32"] get_long_cong) auto

lemma memset_length [simp]: "length (memset c o1 v n) = length c"
  by (auto simp: memset_def)

lemma memset_nth: "j < length c \<Longrightarrow> memset c o1 v n ! j = (if o1 \<le> j \<and> j < o1 + n then v else c ! j)"
  by (auto simp: memset_def nth_append min_def)

section \<open>Configuration writes\<close>

text \<open>
  A device whose masks fit: every list has the size of the space, no bit is both writable and
  cleared by writing, and the type of the header cannot be written.
\<close>

definition masks_ok :: "pci_device \<Rightarrow> bool" where
  "masks_ok d \<longleftrightarrow> length (pci_config d) = pci_config_size d \<and> length (wmask d) = pci_config_size d
     \<and> length (w1cmask d) = pci_config_size d \<and> length (cmask d) = pci_config_size d
     \<and> length (io_regions d) = PCI_NUM_REGIONS
     \<and> (\<forall>a<pci_config_size d. wmask d ! a AND w1cmask d ! a = 0)
     \<and> wmask d ! PCI_HEADER_TYPE = 0 \<and> w1cmask d ! PCI_HEADER_TYPE = 0"

lemma config_size_bound: "0x100 \<le> pci_config_size d"
  by (simp add: pci_config_size_def)

definition new_byte :: "pci_device \<Rightarrow> nat \<Rightarrow> u8 \<Rightarrow> u8" where
  "new_byte d a v = ((pci_config d ! a AND NOT (wmask d ! a)) OR (v AND wmask d ! a)) AND NOT (v AND w1cmask d ! a)"

lemma new_byte_bit:
  assumes "wmask d ! a AND w1cmask d ! a = 0"
  shows "bit (new_byte d a v) k = (if bit (wmask d ! a) k then bit v k
    else if bit (w1cmask d ! a) k \<and> bit v k then False else bit (pci_config d ! a) k)"
proof (cases "k < 8")
  case True
  have "bit (wmask d ! a AND w1cmask d ! a) k = bit (0 :: u8) k" by (simp only: assms)
  then have "\<not> (bit (wmask d ! a) k \<and> bit (w1cmask d ! a) k)" by (simp add: bit_and_iff)
  then show ?thesis using True by (auto simp: new_byte_def bit_simps)
next
  case False
  then show ?thesis using word8_bit_less by (auto simp: new_byte_def bit_simps)
qed

lemma write_bytes_eq:
  assumes "masks_ok d"
  shows "\<exists>c. write_bytes addr val l d = Some (d\<lparr>pci_config := c\<rparr>) \<and> length c = length (pci_config d)
    \<and> (\<forall>j. c ! j = (if addr \<le> j \<and> j < addr + l \<and> j < pci_config_size d
             then new_byte d j (ucast (drop_bit (8 * (j - addr)) val)) else pci_config d ! j))"
  using assms
proof (induction addr val l d rule: write_bytes.induct)
  case (1 addr val l d)
  show ?case
  proof (cases "l = 0 \<or> addr \<ge> pci_config_size d")
    case True
    then show ?thesis by (subst write_bytes.simps) (intro exI [of _ "pci_config d"], auto)
  next
    case False
    let ?d = "d\<lparr>pci_config := (pci_config d)[addr := new_byte d addr (ucast val)]\<rparr>"
    have sz: "pci_config_size ?d = pci_config_size d" by (simp add: pci_config_size_def)
    have w: "write_byte addr (ucast val) d = Some ?d"
      using 1(2) False by (simp add: write_byte_def Let_def masks_ok_def new_byte_def)
    have ok: "masks_ok ?d" using 1(2) by (simp add: masks_ok_def sz)
    obtain c where c: "write_bytes (addr + 1) (drop_bit 8 val) (l - 1) ?d = Some (?d\<lparr>pci_config := c\<rparr>)"
      "length c = length (pci_config ?d)"
      "\<forall>j. c ! j = (if addr + 1 \<le> j \<and> j < addr + 1 + (l - 1) \<and> j < pci_config_size ?d
         then new_byte ?d j (ucast (drop_bit (8 * (j - (addr + 1))) (drop_bit 8 val))) else pci_config ?d ! j)"
      using 1(1) [OF False w ok] by blast
    have "c ! j = (if addr \<le> j \<and> j < addr + l \<and> j < pci_config_size d
         then new_byte d j (ucast (drop_bit (8 * (j - addr)) val)) else pci_config d ! j)" for j
    proof -
      have "drop_bit (8 * (j - (addr + 1))) (drop_bit 8 val) = drop_bit (8 * (j - addr)) val" if "addr + 1 \<le> j"
      proof -
        have "8 * (j - (addr + 1)) + 8 = 8 * (j - addr)" using that by simp
        then show ?thesis by (simp only: drop_bit_drop_bit)
      qed
      moreover have "new_byte ?d j v = new_byte d j v" if "j \<noteq> addr" for v using that by (simp add: new_byte_def)
      moreover have "addr < length (pci_config d)" using False 1(2) by (simp add: masks_ok_def)
      ultimately show ?thesis using c(3) [rule_format, of j] False by (cases "j = addr") (auto simp: sz)
    qed
    moreover have "write_bytes addr val l d = Some (d\<lparr>pci_config := c\<rparr>)"
      using False w c(1) by (subst write_bytes.simps) simp
    ultimately show ?thesis using c(2) by (intro exI [of _ c]) simp
  qed
qed

section \<open>Mappings\<close>

lemma cmd_bits:
  "pci_get_word c o1 AND 1 = 0 \<longleftrightarrow> \<not> bit (c ! o1) 0"
  "pci_get_word c o1 AND 2 = 0 \<longleftrightarrow> \<not> bit (c ! o1) 1"
  "pci_get_word c o1 AND 0x400 = 0 \<longleftrightarrow> \<not> bit (c ! (o1 + 1)) 2"
  using and_exp_eq_0 [of "pci_get_word c o1" 0] and_exp_eq_0 [of "pci_get_word c o1" 1] and_exp_eq_0 [of "pci_get_word c o1" 10]
    word8_bit_less [of "c ! o1" 10]
  by (auto simp: pci_get_word_def bit_simps)

lemma irq_disabled_bit: "pci_irq_disabled d \<longleftrightarrow> bit (pci_config d ! 5) 2"
  using cmd_bits(3) [of "pci_config d" 4] by (simp add: pci_irq_disabled_def)

text \<open>A 64 bit register needs a successor, so only the first five registers can be of that type.\<close>

definition bars_ok :: "pci_device \<Rightarrow> bool" where
  "bars_ok d \<longleftrightarrow> (\<forall>i<7. 5 \<le> i \<longrightarrow> r_type (io_regions d ! i) AND PCI_BASE_ADDRESS_MEM_TYPE_64 = 0)"

definition bar_bytes :: "nat set" where
  "bar_bytes = {4, 0xe} \<union> {0x10..<0x28} \<union> {0x30..<0x34} \<union> {0x38..<0x3c}"

lemma bar_address_cong:
  assumes "\<forall>j\<in>bar_bytes. pci_config d ! j = pci_config d' ! j" "i < 7" "5 \<le> i \<Longrightarrow> type AND PCI_BASE_ADDRESS_MEM_TYPE_64 = 0"
  shows "pci_bar_address d i type sz = pci_bar_address d' i type sz"
proof -
  have b: "pci_bar d i = pci_bar d' i" using assms(1) by (simp add: pci_bar_def bar_bytes_def)
  have r: "pci_bar d' i + 4 \<le> 0x28 \<and> 0x10 \<le> pci_bar d' i \<or> pci_bar d' i = 0x30 \<or> pci_bar d' i = 0x38"
    using assms(2) by (auto simp: pci_bar_def)
  have l: "pci_get_long (pci_config d) (pci_bar d' i) = pci_get_long (pci_config d') (pci_bar d' i)"
    using r assms(1) by (intro get_long_cong) (auto simp: bar_bytes_def)
  have q: "pci_get_quad (pci_config d) (pci_bar d' i) = pci_get_quad (pci_config d') (pci_bar d' i)"
    if "type AND PCI_BASE_ADDRESS_MEM_TYPE_64 \<noteq> 0"
  proof (rule get_quad_cong)
    have "i < 5" using assms(3) that by fastforce
    then have "pci_bar d' i + 8 \<le> 0x28 \<and> 0x10 \<le> pci_bar d' i" by (simp add: pci_bar_def)
    then show "\<forall>j. pci_bar d' i \<le> j \<and> j < pci_bar d' i + 8 \<longrightarrow> pci_config d ! j = pci_config d' ! j"
      using assms(1) by (auto simp: bar_bytes_def)
  qed
  have "pci_config d ! 4 = pci_config d' ! 4" using assms(1) by (simp add: bar_bytes_def)
  then have c: "pci_get_word (pci_config d) 4 AND 1 = 0 \<longleftrightarrow> pci_get_word (pci_config d') 4 AND 1 = 0"
    "pci_get_word (pci_config d) 4 AND 2 = 0 \<longleftrightarrow> pci_get_word (pci_config d') 4 AND 2 = 0"
    by (simp_all only: cmd_bits)
  have q': "(if type AND PCI_BASE_ADDRESS_MEM_TYPE_64 \<noteq> 0 then pci_get_quad (pci_config d) (pci_bar d' i)
      else ucast (pci_get_long (pci_config d') (pci_bar d' i)))
    = (if type AND PCI_BASE_ADDRESS_MEM_TYPE_64 \<noteq> 0 then pci_get_quad (pci_config d') (pci_bar d' i)
      else ucast (pci_get_long (pci_config d') (pci_bar d' i)))" using q by simp
  show ?thesis unfolding pci_bar_address_def Let_def b l c q' ..
qed

lemma bar_address_regions [simp]:
  "pci_bar_address (d\<lparr>io_regions := rs\<rparr>) = pci_bar_address d" "pci_bar (d\<lparr>io_regions := rs\<rparr>) = pci_bar d"
proof -
  have c: "pci_config (d\<lparr>io_regions := rs\<rparr>) = pci_config d" by simp
  show "pci_bar (d\<lparr>io_regions := rs\<rparr>) = pci_bar d" by (intro ext) (simp only: pci_bar_def c)
  then show "pci_bar_address (d\<lparr>io_regions := rs\<rparr>) = pci_bar_address d" by (intro ext) (simp only: pci_bar_address_def c)
qed

text \<open>What a mapped region looks like: aligned, not at zero, inside its space.\<close>

definition mapped_ok :: "u8 \<Rightarrow> u64 \<Rightarrow> u64 \<Rightarrow> bool" where
  "mapped_ok type sz a \<longleftrightarrow> a \<noteq> 0 \<and> a AND (sz - 1) = 0 \<and> a < a + sz - 1
     \<and> (if type AND PCI_BASE_ADDRESS_SPACE_IO \<noteq> 0 then a + sz - 1 \<le> 0xffff
        else type AND PCI_BASE_ADDRESS_MEM_TYPE_64 = 0 \<longrightarrow> a + sz - 1 < 0xffffffff)"

lemma bar_address_mapped:
  assumes "pci_bar_address d i type sz \<noteq> PCI_BAR_UNMAPPED"
  shows "mapped_ok type sz (pci_bar_address d i type sz)"
    "(if type AND PCI_BASE_ADDRESS_SPACE_IO \<noteq> 0 then bit (pci_config d ! 4) 0 else bit (pci_config d ! 4) 1)"
proof -
  let ?cmd = "pci_get_word (pci_config d) 4"
  define l where "l = ucast (pci_get_long (pci_config d) (pci_bar d i)) AND NOT (sz - 1)"
  define v where "v = (if type AND PCI_BASE_ADDRESS_MEM_TYPE_64 \<noteq> 0 then pci_get_quad (pci_config d) (pci_bar d i)
    else ucast (pci_get_long (pci_config d) (pci_bar d i)))"
  define a where "a = v AND NOT (sz - 1)"
  define e f where "e = l + sz - 1" and "f = a + sz - 1"
  have al: "l AND (sz - 1) = 0" "a AND (sz - 1) = 0" by (simp_all add: l_def a_def and.assoc)
  have eq: "pci_bar_address d i type sz =
    (if type AND PCI_BASE_ADDRESS_SPACE_IO \<noteq> 0 then
       (if ?cmd AND PCI_COMMAND_IO = 0 then PCI_BAR_UNMAPPED
        else if e \<le> l \<or> l = 0 \<or> e > 0xffff then PCI_BAR_UNMAPPED else l)
     else if ?cmd AND PCI_COMMAND_MEMORY = 0 then PCI_BAR_UNMAPPED
     else if i = PCI_ROM_SLOT \<and> v AND 1 = 0 then PCI_BAR_UNMAPPED
     else if f \<le> a \<or> a = 0 \<or> f = PCI_BAR_UNMAPPED then PCI_BAR_UNMAPPED
     else if type AND PCI_BASE_ADDRESS_MEM_TYPE_64 = 0 \<and> f \<ge> 0xffffffff then PCI_BAR_UNMAPPED
     else if f \<ge> 0xffffffffffffffff then PCI_BAR_UNMAPPED else a)"
    unfolding pci_bar_address_def Let_def l_def [symmetric] v_def [symmetric] a_def [symmetric]
      e_def [symmetric] f_def [symmetric] ..
  have *: "(if type AND PCI_BASE_ADDRESS_SPACE_IO \<noteq> 0
      then pci_bar_address d i type sz = l \<and> ?cmd AND PCI_COMMAND_IO \<noteq> 0 \<and> l \<noteq> 0 \<and> l < e \<and> e \<le> 0xffff
      else pci_bar_address d i type sz = a \<and> ?cmd AND PCI_COMMAND_MEMORY \<noteq> 0 \<and> a \<noteq> 0 \<and> a < f
        \<and> (type AND PCI_BASE_ADDRESS_MEM_TYPE_64 = 0 \<longrightarrow> f < 0xffffffff))"
    using assms unfolding eq by (auto simp: not_le not_less split: if_splits)
  then show "mapped_ok type sz (pci_bar_address d i type sz)"
    using al by (auto simp: mapped_ok_def e_def f_def split: if_splits)
  show "(if type AND PCI_BASE_ADDRESS_SPACE_IO \<noteq> 0 then bit (pci_config d ! 4) 0 else bit (pci_config d ! 4) 1)"
    using * cmd_bits(1,2) [of "pci_config d" 4] by (auto split: if_splits)
qed

lemma filter_root:
  assumes "mapped_ok type sz a"
  shows "pci_bridge_filter d [] a sz type = (a, sz)"
proof -
  have "a < a + sz - 1" using assms by (simp add: mapped_ok_def)
  moreover have "a + sz - 1 - a + 1 = sz" by simp
  ultimately show ?thesis by (auto simp: pci_bridge_filter_def)
qed

definition new_region :: "pci_device \<Rightarrow> nat \<Rightarrow> pci_io_region" where
  "new_region d i =
     (let r = io_regions d ! i
      in if r_size r = 0 then r
         else r\<lparr>r_addr := pci_bar_address d i (r_type r) (r_size r), r_filtered_size := r_size r\<rparr>)"

lemma update_mapping_fst:
  assumes "i < length (io_regions d)"
  shows "fst (update_mapping base i d) = d\<lparr>io_regions := (io_regions d)[i := new_region d i]\<rparr>"
proof -
  let ?r = "io_regions d ! i"
  let ?a = "pci_bar_address d i (r_type ?r) (r_size ?r)"
  have f: "(if ?a \<noteq> PCI_BAR_UNMAPPED then pci_bridge_filter d [] ?a (r_size ?r) (r_type ?r) else (?a, r_size ?r)) = (?a, r_size ?r)"
    using filter_root [OF bar_address_mapped(1)] by simp
  have same: "d\<lparr>io_regions := (io_regions d)[i := ?r]\<rparr> = d" by simp
  have r: "?r\<lparr>r_addr := ?a, r_filtered_size := r_size ?r\<rparr> = ?r" if "?a = r_addr ?r \<and> r_size ?r = r_filtered_size ?r"
    using that by (cases ?r) simp
  show ?thesis
  proof (cases "r_size ?r = 0")
    case True
    then show ?thesis using same by (simp add: update_mapping_def new_region_def)
  next
    case z: False
    have n: "new_region d i = ?r\<lparr>r_addr := ?a, r_filtered_size := r_size ?r\<rparr>" using z by (simp add: new_region_def Let_def)
    show ?thesis unfolding n
    proof (cases "?a = r_addr ?r \<and> r_size ?r = r_filtered_size ?r")
      case True
      have "update_mapping base i d = (d, [])"
        unfolding update_mapping_def Let_def if_not_P [OF z] f prod.case if_P [OF True] ..
      then show "fst (update_mapping base i d) = d\<lparr>io_regions := (io_regions d)[i := ?r\<lparr>r_addr := ?a, r_filtered_size := r_size ?r\<rparr>]\<rparr>"
        unfolding r [OF True] same by simp
    next
      case False
      then show "fst (update_mapping base i d) = d\<lparr>io_regions := (io_regions d)[i := ?r\<lparr>r_addr := ?a, r_filtered_size := r_size ?r\<rparr>]\<rparr>"
        unfolding update_mapping_def Let_def if_not_P [OF z] f prod.case if_not_P [OF False] by simp
    qed
  qed
qed


lemma seq_Cons_fst [simp]: "fst (seq f (x # xs) s) = fst (seq f xs (fst (f x s)))"
  by (simp add: split_beta Let_def)

declare seq.simps(2) [simp del]

lemma new_region_regions [simp]: "i \<noteq> j \<Longrightarrow> new_region (d\<lparr>io_regions := (io_regions d)[i := r]\<rparr>) j = new_region d j"
proof -
  assume "i \<noteq> j"
  then have "(io_regions d)[i := r] ! j = io_regions d ! j" by simp
  then show ?thesis by (simp add: new_region_def Let_def)
qed

lemma seq_update_mapping:
  assumes "distinct is" "\<forall>i\<in>set is. i < length (io_regions d)"
  shows "\<exists>rs. fst (seq (update_mapping base) is d) = d\<lparr>io_regions := rs\<rparr> \<and> length rs = length (io_regions d)
    \<and> (\<forall>j. rs ! j = (if j \<in> set is then new_region d j else io_regions d ! j))"
  using assms
proof (induction "is" arbitrary: d)
  case Nil
  then show ?case by (intro exI [of _ "io_regions d"]) simp
next
  case (Cons i "is")
  let ?d = "d\<lparr>io_regions := (io_regions d)[i := new_region d i]\<rparr>"
  obtain rs where rs: "fst (seq (update_mapping base) is ?d) = ?d\<lparr>io_regions := rs\<rparr>" "length rs = length (io_regions ?d)"
    "\<forall>j. rs ! j = (if j \<in> set is then new_region ?d j else io_regions ?d ! j)"
    using Cons.IH [of ?d] Cons.prems by auto
  have "rs ! j = (if j \<in> set (i # is) then new_region d j else io_regions d ! j)" for j
    using rs(3) [rule_format, of j] Cons.prems by (cases "j = i") auto
  then show ?case using rs(1,2) Cons.prems by (intro exI [of _ rs]) (simp add: update_mapping_fst)
qed

definition maps_ok :: "pci_device \<Rightarrow> bool" where
  "maps_ok d \<longleftrightarrow> (\<forall>i<7. io_regions d ! i = new_region d i)"

lemma update_mappings_dev:
  assumes "length (io_regions (dev b n)) = 7" "n < length (devices b)"
  shows "\<exists>rs. fst (pci_update_mappings n b) = set_dev n ((dev b n)\<lparr>io_regions := rs\<rparr>) b \<and> length rs = 7
    \<and> (\<forall>i<7. rs ! i = new_region (dev b n) i)"
  using seq_update_mapping [of "[0..<7]" "dev b n" "mem_base b"] assms
  by (auto simp: pci_update_mappings_def split_beta Let_def simp del: upt_rec_numeral)

section \<open>Lines of the bus\<close>

text \<open>What a pin adds to the counter of its line, and what all pins of the bus add to line \<open>k\<close>.\<close>

definition asserted :: "pci_device \<Rightarrow> nat \<Rightarrow> int" where
  "asserted d i = (if pci_irq_disabled d then 0 else pci_irq_state d i)"

definition line_share :: "(nat \<Rightarrow> nat \<Rightarrow> nat) \<Rightarrow> nat \<Rightarrow> pci_device option \<Rightarrow> int" where
  "line_share map_irq k x =
     (case x of None \<Rightarrow> 0 | Some d \<Rightarrow> (\<Sum>i<4. if map_irq (devfn d) i = k then asserted d i else 0))"

definition counts_ok :: "(nat \<Rightarrow> nat \<Rightarrow> nat) \<Rightarrow> pci_bus \<Rightarrow> bool" where
  "counts_ok map_irq b \<longleftrightarrow>
     (\<forall>k<length (irq_count b). irq_count b ! k = (\<Sum>n<256. line_share map_irq k (devices b ! n)))"

lemma share_update:
  assumes "n < 256" "length ds = 256"
  shows "(\<Sum>m<256. line_share map_irq k (ds[n := Some d'] ! m))
    = (\<Sum>m<256. line_share map_irq k (ds ! m)) - line_share map_irq k (ds ! n) + line_share map_irq k (Some d')"
proof -
  have f: "finite {..<256::nat}" and n: "n \<in> {..<256::nat}" using assms(1) by simp_all
  have "(\<Sum>m\<in>{..<256} - {n}. line_share map_irq k (ds[n := Some d'] ! m)) = (\<Sum>m\<in>{..<256} - {n}. line_share map_irq k (ds ! m))"
    by (intro sum.cong) auto
  then show ?thesis
    using sum.remove [OF f n, of "\<lambda>m. line_share map_irq k (ds[n := Some d'] ! m)"]
      sum.remove [OF f n, of "\<lambda>m. line_share map_irq k (ds ! m)"] assms by simp
qed

lemma share_same:
  assumes "devfn d' = devfn d" "\<And>i. i < 4 \<Longrightarrow> asserted d' i = asserted d i"
  shows "line_share map_irq k (Some d') = line_share map_irq k (Some d)"
  unfolding line_share_def option.case assms(1) using assms(2) by (intro sum.cong) auto

lemma share_pin:
  assumes "devfn d' = devfn d" "i < 4" "\<And>j. j < 4 \<Longrightarrow> j \<noteq> i \<Longrightarrow> asserted d' j = asserted d j"
  shows "line_share map_irq k (Some d') = line_share map_irq k (Some d)
    + (if map_irq (devfn d) i = k then asserted d' i - asserted d i else 0)"
proof -
  have f: "finite {..<4::nat}" and i: "i \<in> {..<4::nat}" using assms(2) by simp_all
  have "(\<Sum>j\<in>{..<4} - {i}. if map_irq (devfn d) j = k then asserted d' j else 0)
    = (\<Sum>j\<in>{..<4} - {i}. if map_irq (devfn d) j = k then asserted d j else 0)"
    using assms(3) by (intro sum.cong) auto
  then show ?thesis unfolding line_share_def option.case assms(1)
    using sum.remove [OF f i, of "\<lambda>j. if map_irq (devfn d) j = k then asserted d' j else 0"]
      sum.remove [OF f i, of "\<lambda>j. if map_irq (devfn d) j = k then asserted d j else 0"] by simp
qed

lemma change_irq_level_simps [simp]:
  "devices (fst (pci_change_irq_level map_irq n i c b)) = devices b"
  "mem_base (fst (pci_change_irq_level map_irq n i c b)) = mem_base b"
  "length (irq_count (fst (pci_change_irq_level map_irq n i c b))) = length (irq_count b)"
  by (simp_all add: pci_change_irq_level_def Let_def)

lemma change_irq_level_count:
  assumes "map_irq (devfn (dev b n)) i < length (irq_count b)"
  shows "irq_count (fst (pci_change_irq_level map_irq n i c b)) ! k
    = irq_count b ! k + (if map_irq (devfn (dev b n)) i = k then c else 0)"
  using assms by (simp add: pci_change_irq_level_def Let_def nth_list_update_if)

lemma change_levels:
  fixes f :: "nat \<Rightarrow> pci_device \<Rightarrow> int" and map_irq :: "nat \<Rightarrow> nat \<Rightarrow> nat" and b :: pci_bus and n :: nat and "is" :: "nat list"
  assumes "\<And>i. map_irq (devfn (dev b n)) i < length (irq_count b)"
  defines "r \<equiv> fst (seq (\<lambda>i b. pci_change_irq_level map_irq n i (f i (dev b n)) b) is b)"
  shows "devices r = devices b" "mem_base r = mem_base b" "length (irq_count r) = length (irq_count b)"
    "irq_count r ! k = irq_count b ! k + (\<Sum>i\<leftarrow>is. if map_irq (devfn (dev b n)) i = k then f i (dev b n) else 0)"
proof -
  let ?g = "\<lambda>i b. pci_change_irq_level map_irq n i (f i (dev b n)) b"
  have "devices (fst (seq ?g is b)) = devices b \<and> mem_base (fst (seq ?g is b)) = mem_base b
    \<and> length (irq_count (fst (seq ?g is b))) = length (irq_count b)
    \<and> irq_count (fst (seq ?g is b)) ! k
      = irq_count b ! k + (\<Sum>i\<leftarrow>is. if map_irq (devfn (dev b n)) i = k then f i (dev b n) else 0)"
    using assms(1)
  proof (induction "is" arbitrary: b)
    case (Cons i "is")
    let ?b = "fst (?g i b)"
    have d: "devices ?b = devices b" by simp
    have "\<And>i. map_irq (devfn (dev ?b n)) i < length (irq_count ?b)" using Cons.prems by simp
    from Cons.IH [OF this] show ?case
      using change_irq_level_count [of map_irq b n i "f i (dev b n)" k, OF Cons.prems] by (simp only: d seq_Cons_fst) simp
  qed simp
  then show "devices r = devices b" "mem_base r = mem_base b" "length (irq_count r) = length (irq_count b)"
    "irq_count r ! k = irq_count b ! k + (\<Sum>i\<leftarrow>is. if map_irq (devfn (dev b n)) i = k then f i (dev b n) else 0)"
    by (simp_all add: r_def)
qed

lemma sum_list_pins: "(\<Sum>i\<leftarrow>[0..<4]. f i) = (\<Sum>i<4. f i :: int)"
  by (simp add: interv_sum_list_conv_sum_set_nat atLeast0LessThan del: upt_rec_numeral)

text \<open>When the interrupt disable bit changes, all pins of the device are taken from the counters or added.\<close>

lemma update_irq_disabled_effect:
  fixes map_irq :: "nat \<Rightarrow> nat \<Rightarrow> nat" and b :: pci_bus and n :: nat and was :: bool
  assumes "\<And>i. map_irq (devfn (dev b n)) i < length (irq_count b)"
  defines "r \<equiv> fst (pci_update_irq_disabled map_irq n was b)"
  shows "devices r = devices b" "mem_base r = mem_base b" "length (irq_count r) = length (irq_count b)"
    "irq_count r ! k = irq_count b ! k
      + (\<Sum>i<4. if map_irq (devfn (dev b n)) i = k then asserted (dev b n) i else 0)
      - (\<Sum>i<4. if map_irq (devfn (dev b n)) i = k then (if was then 0 else pci_irq_state (dev b n) i) else 0)"
proof -
  let ?d = "dev b n"
  let ?f = "\<lambda>i d. if pci_irq_disabled ?d then - pci_irq_state d i else pci_irq_state d i"
  define x where "x = fst (seq (\<lambda>i b. pci_change_irq_level map_irq n i (?f i (dev b n)) b) [0..<4] b)"
  note * = change_levels [of map_irq b n ?f "[0..<4]", OF assms(1), folded x_def]
  have r: "r = (if pci_irq_disabled ?d = was then b else x)"
    by (simp add: r_def pci_update_irq_disabled_def Let_def x_def del: upt_rec_numeral)
  then show "devices r = devices b" "mem_base r = mem_base b" "length (irq_count r) = length (irq_count b)"
    using *(1-3) by (simp_all del: upt_rec_numeral)
  let ?S = "\<lambda>g. \<Sum>i<4. if map_irq (devfn ?d) i = k then g i else (0::int)"
  have z: "(if c then 0 else 0 :: int) = 0" for c by simp
  have neg: "?S (\<lambda>i. - pci_irq_state ?d i) = - ?S (pci_irq_state ?d)"
    by (simp add: sum_negf [symmetric] if_distrib cong: if_cong)
  show "irq_count r ! k = irq_count b ! k + ?S (asserted ?d) - ?S (\<lambda>i. if was then 0 else pci_irq_state ?d i)"
  proof (cases "pci_irq_disabled ?d")
    case True
    then show ?thesis using r *(4) [of k] neg by (cases was) (simp_all add: asserted_def sum_list_pins z del: upt_rec_numeral cong: if_cong)
  next
    case False
    then show ?thesis using r *(4) [of k] by (cases was) (simp_all add: asserted_def sum_list_pins z del: upt_rec_numeral cong: if_cong)
  qed
qed

section \<open>The invariant of the bus\<close>

definition dev_ok :: "nat \<Rightarrow> pci_device \<Rightarrow> bool" where
  "dev_ok n d \<longleftrightarrow> devfn d = n \<and> masks_ok d \<and> bars_ok d \<and> maps_ok d"

definition bus_ok :: "(nat \<Rightarrow> nat \<Rightarrow> nat) \<Rightarrow> nat \<Rightarrow> pci_bus \<Rightarrow> bool" where
  "bus_ok map_irq nirq b \<longleftrightarrow> length (devices b) = 256 \<and> length (irq_count b) = nirq
     \<and> (\<forall>n<256. \<forall>d. devices b ! n = Some d \<longrightarrow> dev_ok n d) \<and> counts_ok map_irq b"

lemma new_region_cong:
  assumes "\<forall>j\<in>bar_bytes. pci_config d ! j = pci_config d' ! j" "i < 7" "io_regions d' = io_regions d" "bars_ok d"
  shows "new_region d i = new_region d' i"
proof -
  have "pci_bar_address d i t s = pci_bar_address d' i t s" if "t = r_type (io_regions d ! i)" for t s
    using assms that by (intro bar_address_cong) (auto simp: bars_ok_def)
  then show ?thesis by (simp add: new_region_def assms(3) Let_def)
qed

lemma maps_ok_cong:
  assumes "\<forall>j\<in>bar_bytes. pci_config d ! j = pci_config d' ! j" "io_regions d' = io_regions d" "bars_ok d" "maps_ok d"
  shows "maps_ok d'"
  using assms new_region_cong [OF assms(1) _ assms(2,3)] by (simp add: maps_ok_def)

lemma new_region_simps [simp]: "r_type (new_region d i) = r_type (io_regions d ! i)" "r_size (new_region d i) = r_size (io_regions d ! i)"
  by (simp_all add: new_region_def Let_def)

lemma maps_ok_updated: "\<forall>i<7. rs ! i = new_region d i \<Longrightarrow> maps_ok (d\<lparr>io_regions := rs\<rparr>)"
proof -
  assume rs: "\<forall>i<7. rs ! i = new_region d i"
  have "new_region d i = new_region (d\<lparr>io_regions := rs\<rparr>) i" if "i < 7" for i
    using rs that unfolding new_region_def [of "d\<lparr>io_regions := rs\<rparr>"] by (simp add: Let_def) (simp add: new_region_def Let_def)
  then show ?thesis using rs by (simp add: maps_ok_def)
qed

lemma pci_config_size_update [simp]:
  "pci_config_size (d\<lparr>pci_config := c\<rparr>) = pci_config_size d" "pci_config_size (d\<lparr>io_regions := rs\<rparr>) = pci_config_size d"
  "pci_config_size (d\<lparr>pin_state := p\<rparr>) = pci_config_size d"
  by (simp_all add: pci_config_size_def)

lemma set_dev_simps [simp]:
  "devices (set_dev n d b) = (devices b)[n := Some d]" "irq_count (set_dev n d b) = irq_count b" "mem_base (set_dev n d b) = mem_base b"
  by (simp_all add: set_dev_def)

definition updates_mappings :: "nat \<Rightarrow> nat \<Rightarrow> bool" where
  "updates_mappings addr l \<longleftrightarrow> ranges_overlap addr l PCI_BASE_ADDRESS_0 24 \<or> ranges_overlap addr l PCI_ROM_ADDRESS 4
     \<or> ranges_overlap addr l PCI_ROM_ADDRESS1 4 \<or> range_covers_byte addr l PCI_COMMAND"

lemma write_dev:
  assumes "dev_ok n d" "length (devices b) = 256" "n < 256" "devices b ! n = Some d" "0 < l"
  shows "\<exists>d1 d'. write_bytes addr val l d = Some d1 \<and> pci_config d1 = pci_config d' \<and> dev_ok n d' \<and> pin_state d' = pin_state d
    \<and> wmask d' = wmask d \<and> w1cmask d' = w1cmask d
    \<and> (if updates_mappings addr l then fst (pci_update_mappings n (set_dev n d1 b)) else set_dev n d1 b) = set_dev n d' b
    \<and> (\<forall>j. pci_config d' ! j = (if addr \<le> j \<and> j < addr + l \<and> j < pci_config_size d
             then new_byte d j (ucast (drop_bit (8 * (j - addr)) val)) else pci_config d ! j))"
proof -
  have mk: "masks_ok d" and br: "bars_ok d" and mp: "maps_ok d" using assms(1) by (simp_all add: dev_ok_def)
  obtain c where c: "write_bytes addr val l d = Some (d\<lparr>pci_config := c\<rparr>)" "length c = length (pci_config d)"
    "\<forall>j. c ! j = (if addr \<le> j \<and> j < addr + l \<and> j < pci_config_size d
       then new_byte d j (ucast (drop_bit (8 * (j - addr)) val)) else pci_config d ! j)"
    using write_bytes_eq [OF mk] by blast
  let ?d1 = "d\<lparr>pci_config := c\<rparr>"
  have mk1: "masks_ok ?d1" using mk c(2) by (simp add: masks_ok_def)
  show ?thesis
  proof (cases "updates_mappings addr l")
    case True
    let ?b = "set_dev n ?d1 b"
    have b: "dev ?b n = ?d1" using assms by simp
    have len: "length (io_regions ?d1) = 7" using mk by (simp add: masks_ok_def)
    obtain rs where rs: "fst (pci_update_mappings n ?b) = set_dev n (?d1\<lparr>io_regions := rs\<rparr>) ?b" "length rs = 7"
      "\<forall>i<7. rs ! i = new_region ?d1 i"
      using update_mappings_dev [of ?b n] assms(2,3) len unfolding b by auto
    let ?d' = "?d1\<lparr>io_regions := rs\<rparr>"
    have "set_dev n ?d' ?b = set_dev n ?d' b" by (simp add: set_dev_def)
    moreover have "maps_ok ?d'" by (rule maps_ok_updated [OF rs(3)])
    moreover have "bars_ok ?d'" using br rs(3) by (simp add: bars_ok_def)
    moreover have "masks_ok ?d'" using mk1 rs(2) by (simp add: masks_ok_def)
    ultimately have "dev_ok n ?d'" "fst (pci_update_mappings n ?b) = set_dev n ?d' b" using assms(1) rs(1) by (simp_all add: dev_ok_def)
    then show ?thesis using c True by (intro exI [of _ ?d1] exI [of _ ?d']) simp
  next
    case False
    have "\<forall>j\<in>bar_bytes. pci_config d ! j = pci_config ?d1 ! j"
    proof
      fix j
      assume j: "j \<in> bar_bytes"
      show "pci_config d ! j = pci_config ?d1 ! j"
      proof (cases "j = 0xe")
        case True
        then show ?thesis using c(3) mk by (simp add: new_byte_def masks_ok_def)
      next
        case e: False
        have "\<not> (addr \<le> j \<and> j < addr + l)"
          using j e False assms(5) by (auto simp: bar_bytes_def updates_mappings_def ranges_overlap_def range_covers_byte_def)
        then show ?thesis using c(3) [rule_format, of j] by auto
      qed
    qed
    then have "maps_ok ?d1" using maps_ok_cong [of d ?d1] br mp by simp
    moreover have "bars_ok ?d1" using br by (simp add: bars_ok_def)
    ultimately have "dev_ok n ?d1" using mk1 assms(1) by (simp add: dev_ok_def)
    then show ?thesis using c False by (intro exI [of _ ?d1]) simp
  qed
qed

section \<open>The router behind the bus\<close>

lemma counts_ok_step:
  assumes "counts_ok map_irq b" "n < 256" "length (devices b) = 256" "devices b ! n = Some d"
    "devices r = (devices b)[n := Some d']" "length (irq_count r) = length (irq_count b)"
    "\<And>k. k < length (irq_count b) \<Longrightarrow>
       irq_count r ! k = irq_count b ! k - line_share map_irq k (Some d) + line_share map_irq k (Some d')"
  shows "counts_ok map_irq r"
  using assms share_update [OF assms(2,3), of map_irq _ d'] by (simp add: counts_ok_def)

lemma set_irq_state_bit:
  assumes "i < 4" "level = 0 \<or> level = 1"
  shows "pci_irq_state (pci_set_irq_state i level d) j = (if j = i then level else pci_irq_state d j)"
proof -
  have "(word_of_int (push_bit i level) :: u8) = (if level = 1 then 2 ^ i else 0)"
    using assms by (auto simp: push_bit_eq_mult)
  then show ?thesis using assms word8_bit_less [of "pin_state d" j] by (auto simp: pci_irq_state_def pci_set_irq_state_def Let_def bits bit_simps)
qed

lemma irq_status_simps [simp]:
  "pin_state (pci_update_irq_status d) = pin_state d" "devfn (pci_update_irq_status d) = devfn d"
  "io_regions (pci_update_irq_status d) = io_regions d" "pci_irq_disabled (pci_update_irq_status d) = pci_irq_disabled d"
  "pci_irq_disabled (pci_set_irq_state i l d) = pci_irq_disabled d" "devfn (pci_set_irq_state i l d) = devfn d"
  by (simp_all add: pci_update_irq_status_def pci_set_irq_state_def Let_def irq_disabled_bit)

lemma set_pin_dev:
  assumes "dev_ok n d" "i < 4" "level = 0 \<or> level = 1"
  defines "d' \<equiv> pci_update_irq_status (pci_set_irq_state i level d)"
  shows "dev_ok n d'" "pci_irq_disabled d' = pci_irq_disabled d"
    "\<forall>j. pci_irq_state d' j = (if j = i then level else pci_irq_state d j)"
proof -
  show "pci_irq_disabled d' = pci_irq_disabled d" by (simp add: d'_def)
  have "pci_irq_state d' j = pci_irq_state (pci_set_irq_state i level d) j" for j
    by (simp add: d'_def pci_irq_state_def)
  then show "\<forall>j. pci_irq_state d' j = (if j = i then level else pci_irq_state d j)"
    using set_irq_state_bit [OF assms(2,3)] by simp
  define v p where "v = pci_config d' ! 6" and "p = pin_state d'"
  have "6 < length (pci_config d)" using assms(1) config_size_bound [of d] by (simp add: dev_ok_def masks_ok_def)
  then have d': "d' = d\<lparr>pci_config := (pci_config d)[6 := v], pin_state := p\<rparr>"
    by (simp add: v_def p_def d'_def pci_update_irq_status_def pci_set_irq_state_def Let_def)
  have "\<forall>j\<in>bar_bytes. pci_config d ! j = pci_config d' ! j" by (auto simp: d' bar_bytes_def)
  then have "maps_ok d'" using maps_ok_cong [of d d'] assms(1) by (simp add: d' dev_ok_def)
  moreover have "masks_ok d'" using assms(1) by (simp add: dev_ok_def masks_ok_def d' pci_config_size_def)
  moreover have "bars_ok d'" using assms(1) by (simp add: dev_ok_def bars_ok_def d')
  ultimately show "dev_ok n d'" using assms(1) by (simp add: dev_ok_def d')
qed

text \<open>What the bus relies on when it counts: the router sends every pin to one of its lines.\<close>

locale pci_router =
  fixes map_irq :: "nat \<Rightarrow> nat \<Rightarrow> nat" and nirq :: nat
  assumes map_irq_less: "map_irq n i < nirq"
begin

lemma write_config_ok:
  assumes "bus_ok map_irq nirq b" "n < 256" "devices b ! n = Some d" "0 < l" "addr \<noteq> 5"
  shows "\<exists>b' out d'. pci_default_write_config map_irq n addr val l b = Some (b', out) \<and> bus_ok map_irq nirq b'
    \<and> devices b' = (devices b)[n := Some d'] \<and> pin_state d' = pin_state d \<and> wmask d' = wmask d \<and> w1cmask d' = w1cmask d
    \<and> (\<forall>j. pci_config d' ! j = (if addr \<le> j \<and> j < addr + l \<and> j < pci_config_size d
             then new_byte d j (ucast (drop_bit (8 * (j - addr)) val)) else pci_config d ! j))"
proof -
  have ok: "dev_ok n d" and len: "length (devices b) = 256" "length (irq_count b) = nirq" and cnt: "counts_ok map_irq b"
    using assms(1-3) by (auto simp: bus_ok_def)
  obtain d1 d' where w: "write_bytes addr val l d = Some d1" "pci_config d1 = pci_config d'" "dev_ok n d'" "pin_state d' = pin_state d"
    "wmask d' = wmask d" "w1cmask d' = w1cmask d"
    "(if updates_mappings addr l then fst (pci_update_mappings n (set_dev n d1 b)) else set_dev n d1 b) = set_dev n d' b"
    "\<forall>j. pci_config d' ! j = (if addr \<le> j \<and> j < addr + l \<and> j < pci_config_size d
       then new_byte d j (ucast (drop_bit (8 * (j - addr)) val)) else pci_config d ! j)"
    using write_dev [OF ok len(1) assms(2,3,4)] by blast
  let ?b = "set_dev n d' b"
  let ?r = "if range_covers_byte addr l 4 then fst (pci_update_irq_disabled map_irq n (pci_irq_disabled d) ?b) else ?b"
  have dv: "dev ?b n = d'" using assms(2) len by simp
  have fn: "devfn d = n" "devfn d' = n" using ok w(3) by (simp_all add: dev_ok_def)
  have res: "\<exists>out. pci_default_write_config map_irq n addr val l b = Some (?r, out)"
    unfolding pci_default_write_config_def Let_def assms(3) option.sel w(1) option.case
      updates_mappings_def [symmetric] split_beta using w(7)
    by (cases "updates_mappings addr l"; cases "range_covers_byte addr l 4") (simp_all, metis prod.collapse)
  have "map_irq (devfn (dev ?b n)) i < length (irq_count ?b)" for i using map_irq_less len by simp
  note eff = update_irq_disabled_effect [of map_irq ?b n "pci_irq_disabled d", OF this, unfolded dv fn]
  have dis: "pci_irq_disabled d' = pci_irq_disabled d" if "\<not> range_covers_byte addr l 4"
  proof -
    have "\<not> (addr \<le> 5 \<and> 5 < addr + l)" using that assms(4,5) by (auto simp: range_covers_byte_def)
    then have "pci_config d' ! 5 = pci_config d ! 5" using w(8) [rule_format, of 5] by auto
    then show ?thesis by (simp add: irq_disabled_bit)
  qed
  have "devices ?r = (devices b)[n := Some d'] \<and> length (irq_count ?r) = nirq" using eff(1,3) len by simp
  moreover have "counts_ok map_irq ?r"
  proof (rule counts_ok_step [OF cnt assms(2) len(1) assms(3)])
    fix k
    show "irq_count ?r ! k = irq_count b ! k - line_share map_irq k (Some d) + line_share map_irq k (Some d')"
    proof (cases "range_covers_byte addr l 4")
      case True
      have "(\<Sum>i<4. if map_irq n i = k then (if pci_irq_disabled d then 0 else pci_irq_state d' i) else 0) = line_share map_irq k (Some d)"
        using w(4) by (simp add: line_share_def asserted_def pci_irq_state_def fn cong: if_cong)
      then show ?thesis using True eff(4) [of k] by (simp add: line_share_def fn)
    next
      case False
      have "line_share map_irq k (Some d') = line_share map_irq k (Some d)"
        using dis [OF False] w(4) fn by (intro share_same) (simp_all add: asserted_def pci_irq_state_def)
      then show ?thesis using False by simp
    qed
  qed (use eff(1,3) in simp_all)
  ultimately have "bus_ok map_irq nirq ?r"
    using assms(1,2) w(3) len by (auto simp: bus_ok_def nth_list_update_if)
  then show ?thesis using res w(4-6,8) \<open>devices ?r = (devices b)[n := Some d'] \<and> length (irq_count ?r) = nirq\<close> by blast
qed

lemma set_irq_ok:
  assumes "bus_ok map_irq nirq b" "n < 256" "devices b ! n = Some d" "i < 4" "level = 0 \<or> level = 1"
  defines "b' \<equiv> fst (pci_set_irq map_irq n i level b)"
  shows "bus_ok map_irq nirq b'"
    "\<exists>d'. devices b' = (devices b)[n := Some d'] \<and> pci_irq_disabled d' = pci_irq_disabled d
      \<and> (\<forall>j. pci_irq_state d' j = (if j = i then level else pci_irq_state d j))"
proof -
  have ok: "dev_ok n d" and len: "length (devices b) = 256" "length (irq_count b) = nirq" and cnt: "counts_ok map_irq b"
    using assms(1-3) by (auto simp: bus_ok_def)
  let ?c = "level - pci_irq_state d i" and ?d = "pci_update_irq_status (pci_set_irq_state i level d)"
  note st = set_pin_dev [OF ok assms(4,5)]
  show *: "\<exists>d'. devices b' = (devices b)[n := Some d'] \<and> pci_irq_disabled d' = pci_irq_disabled d
      \<and> (\<forall>j. pci_irq_state d' j = (if j = i then level else pci_irq_state d j))"
  proof (cases "?c = 0")
    case True
    have "(devices b)[n := Some d] = devices b" using assms(3) by (metis list_update_id)
    then show ?thesis using True assms(3) by (intro exI [of _ d]) (simp add: b'_def pci_set_irq_def Let_def)
  next
    case False
    then show ?thesis using assms(3) st by (intro exI [of _ ?d]) (simp add: b'_def pci_set_irq_def Let_def)
  qed
  show "bus_ok map_irq nirq b'"
  proof (cases "?c = 0")
    case True
    then show ?thesis using assms(1,3) by (simp add: b'_def pci_set_irq_def Let_def)
  next
    case False
    have dv: "dev (set_dev n ?d b) n = ?d" using assms(2) len by simp
    have b': "b' = (if pci_irq_disabled d then set_dev n ?d b else fst (pci_change_irq_level map_irq n i ?c (set_dev n ?d b)))"
      using False st(2) assms(3) by (simp add: b'_def pci_set_irq_def Let_def)
    have ds: "devices b' = (devices b)[n := Some ?d]" "length (irq_count b') = length (irq_count b)" by (simp_all add: b')
    have "counts_ok map_irq b'"
    proof (rule counts_ok_step [OF cnt assms(2) len(1) assms(3) ds])
      fix k
      have "irq_count (fst (pci_change_irq_level map_irq n i ?c (set_dev n ?d b))) ! k
          = irq_count b ! k + (if map_irq n i = k then ?c else 0)"
        using change_irq_level_count [of map_irq "set_dev n ?d b" n i ?c k] map_irq_less len st(1)
        unfolding dv by (simp add: dev_ok_def)
      then show "irq_count b' ! k = irq_count b ! k - line_share map_irq k (Some d) + line_share map_irq k (Some ?d)"
        using share_pin [of ?d d i map_irq k] st ok assms(4) by (auto simp: b' asserted_def dev_ok_def)
    qed
    then show ?thesis using assms(1,2) st(1) len ds by (auto simp: bus_ok_def nth_list_update_if)
  qed
qed

end

section \<open>Sizing a region\<close>

lemma get_word_bit: "k < 16 \<Longrightarrow> bit (pci_get_word c o1) k = bit (c ! (o1 + k div 8)) (k mod 8)"
proof (cases "k < 8")
  case True
  then show ?thesis by (simp add: pci_get_word_def bit_simps)
next
  case False
  assume k: "k < 16"
  have "k div 8 = 1" "k mod 8 = k - 8" using False k by (simp_all add: div_nat_eqI mod_nat_eqI)
  then show ?thesis using False k word8_bit_less [of "c ! o1" k] by (auto simp: pci_get_word_def bit_simps)
qed

lemma get_long_bit: "k < 32 \<Longrightarrow> bit (pci_get_long c o1) k = bit (c ! (o1 + k div 8)) (k mod 8)"
proof (cases "k < 16")
  case True
  then show ?thesis by (simp add: pci_get_long_def bit_simps get_word_bit)
next
  case False
  assume k: "k < 32"
  have e: "o1 + 2 + (k - 16) div 8 = o1 + k div 8" "(k - 16) mod 8 = k mod 8"
    using False by (simp_all add: le_div_geq le_mod_geq div_nat_eqI)
  have "k - 16 < 16" using k by linarith
  from get_word_bit [OF this, of c "o1 + 2"]
  have g: "bit (pci_get_word c (o1 + 2)) (k - 16) = bit (c ! (o1 + k div 8)) (k mod 8)" by (simp only: e)
  have n: "\<not> bit (pci_get_word c o1) k" using False bit_imp_le_length [of "pci_get_word c o1" k] by auto
  have "bit (pci_get_long c o1) k = bit (pci_get_word c (o1 + 2)) (k - 16)"
    using False k n \<open>k - 16 < 16\<close> by (simp add: pci_get_long_def bit_simps)
  with g show ?thesis by (rule trans [rotated])
qed

lemma get_set_long:
  assumes "o1 + 3 < length c"
  shows "pci_get_long (pci_set_long c o1 v) o1 = v"
proof -
  let ?c = "pci_set_word c o1 (ucast v)"
  have "pci_get_word (pci_set_word ?c (o1 + 2) (ucast (drop_bit 16 v))) o1 = pci_get_word ?c o1"
    by (intro get_word_cong) (simp_all add: set_word_nth)
  then have "pci_get_word (pci_set_long c o1 v) o1 = ucast v"
    using assms get_set_word [of o1 c] by (simp add: pci_set_long_def)
  moreover have "pci_get_word (pci_set_long c o1 v) (o1 + 2) = ucast (drop_bit 16 v)"
    using assms get_set_word [of "o1 + 2" ?c] by (simp add: pci_set_long_def)
  ultimately show ?thesis by (auto simp: pci_get_long_def bit_simps intro!: bit_word_eqI)
qed

lemma long_of_bytes:
  fixes w x y z :: u8
  shows "(ucast w OR push_bit 8 (ucast x OR push_bit 8 (ucast y OR push_bit 8 (ucast z))) :: u32)
    = ucast (ucast w OR push_bit 8 (ucast x) :: u16) OR push_bit 16 (ucast (ucast y OR push_bit 8 (ucast z) :: u16))"
  by (rule bit_word_eqI) (auto simp: bit_simps dest: word8_bit_less)

lemma read_long:
  assumes "a + 4 \<le> pci_config_size d" "length (pci_config d) = pci_config_size d"
  shows "pci_default_read_config d a 4 = pci_get_long (pci_config d) a"
proof -
  let ?c = "pci_config d"
  have "min 4 (pci_config_size d - a) = 4" using assms(1) by simp
  moreover have "take 4 (drop a ?c) = [?c ! a, ?c ! (a + 1), ?c ! (a + 2), ?c ! (a + 2 + 1)]"
    using assms by (intro nth_equalityI) (auto simp: less_Suc_eq numeral_eq_Suc)
  ultimately have "pci_default_read_config d a 4 = ucast (?c ! a) OR push_bit 8 (ucast (?c ! (a + 1)) OR
    push_bit 8 (ucast (?c ! (a + 2)) OR push_bit 8 (ucast (?c ! (a + 2 + 1)))))"
    by (simp add: pci_default_read_config_def)
  also have "\<dots> = pci_get_long ?c a"
    by (simp only: pci_get_long_def pci_get_word_def long_of_bytes)
  finally show ?thesis .
qed

text \<open>The long that a write of all ones leaves, where no bit is cleared by writing.\<close>

lemma write_ones:
  assumes "masks_ok d" "a + 4 \<le> pci_config_size d" "\<forall>j. a \<le> j \<and> j < a + 4 \<longrightarrow> w1cmask d ! j = 0"
    "\<forall>j. c ! j = (if a \<le> j \<and> j < a + 4 \<and> j < pci_config_size d
       then new_byte d j (ucast (drop_bit (8 * (j - a)) (0xffffffff :: u32))) else pci_config d ! j)"
  shows "pci_get_long c a = pci_get_long (pci_config d) a OR pci_get_long (wmask d) a"
proof (rule bit_word_eqI)
  fix k
  assume "k < LENGTH(32)"
  then have k: "k < 32" by simp
  let ?j = "a + k div 8"
  have j: "k div 8 < 4" "k mod 8 < 8" "8 * (k div 8) + k mod 8 = k" using k by (simp_all add: div_less_iff_less_mult)
  have "bit (ucast (drop_bit (8 * (k div 8)) (0xffffffff :: u32)) :: u8) (k mod 8)"
  proof -
    have "bit (mask 32 :: u32) k" using k by (simp add: bit_mask_iff)
    moreover have "(0xffffffff :: u32) = mask 32" by (simp add: mask_eq_exp_minus_1)
    ultimately show ?thesis using j by (simp only: bit_ucast_iff bit_drop_bit_eq o_def) simp
  qed
  moreover have "c ! ?j = new_byte d ?j (ucast (drop_bit (8 * (k div 8)) (0xffffffff :: u32)))"
    using assms(2,4) j by simp
  moreover have "wmask d ! ?j AND w1cmask d ! ?j = 0" using assms(3) j by simp
  ultimately have "bit (c ! ?j) (k mod 8) = (bit (wmask d ! ?j) (k mod 8) \<or> bit (pci_config d ! ?j) (k mod 8))"
    using assms(3) j by (simp add: new_byte_bit)
  then show "bit (pci_get_long c a) k = bit (pci_get_long (pci_config d) a OR pci_get_long (wmask d) a) k"
    using k by (auto simp: get_long_bit bit_simps)
qed

text \<open>The size a guest computes from what it reads back, with the type bits masked off.\<close>

definition guest_size :: "u8 \<Rightarrow> u32 \<Rightarrow> u32" where
  "guest_size type v = NOT (v AND NOT (if type AND PCI_BASE_ADDRESS_SPACE_IO \<noteq> 0 then 3 else 15)) + 1"

lemma guest_size_exact:
  fixes type :: u8
  assumes "k < 32" "(if type AND 1 \<noteq> 0 then (3::u32) else 15) = mask q" "q \<le> k" "unat type < 2 ^ q"
  shows "guest_size type (ucast type OR ucast (NOT (2 ^ k - 1 :: u64) AND 0xffffffff)) = 2 ^ k"
proof -
  have q: "q < 32" using assms(1,3) by simp
  have t: "(ucast type :: u32) = take_bit q (ucast type)"
  proof (rule bit_word_eqI)
    fix n
    assume "n < LENGTH(32)"
    have "take_bit q type = type" using assms(4) by (simp add: word_unat_eq_iff unsigned_take_bit_eq take_bit_nat_eq_self)
    then have "bit type n \<Longrightarrow> n < q" by (metis bit_take_bit_iff)
    then show "bit (ucast type :: u32) n = bit (take_bit q (ucast type) :: u32) n" by (auto simp: bit_simps)
  qed
  have e: "(0xffffffff :: u64) = mask 32" "(2 ^ k - 1 :: u64) = mask k" by (simp_all add: mask_eq_exp_minus_1)
  have m: "(ucast (NOT (2 ^ k - 1 :: u64) AND 0xffffffff) :: u32) = NOT (mask k)"
    unfolding e by (rule bit_word_eqI) (auto simp: bit_simps simp del: mask_numeral)
  have "(ucast type OR NOT (mask k)) AND NOT (mask q) = (NOT (mask k) :: u32)"
    by (subst t, rule bit_word_eqI) (use assms(3) in \<open>auto simp: bit_simps\<close>)
  then have "guest_size type (ucast type OR ucast (NOT (2 ^ k - 1 :: u64) AND 0xffffffff)) = NOT (NOT (mask k)) + 1"
    unfolding guest_size_def m assms(2) by (simp only:)
  also have "\<dots> = 2 ^ k" by (simp add: mask_eq_exp_minus_1)
  finally show ?thesis .
qed

text \<open>
  C17: A guest finds out how large a region is. After a device registered a region of \<open>2 ^ k\<close> bytes, a
  write of all ones to its base address register succeeds, keeps the bus consistent, and the value
  read back is the type together with the address bits that can be set, from which the guest
  computes exactly the size.
\<close>

theorem pci_region_size_read_back:
  assumes "pci_register_bar reg (2 ^ k) type d = Some d1" "length (pci_config d) = pci_config_size d" "length (wmask d) = pci_config_size d"
    "reg < 6" "k < 32" "(if type AND 1 \<noteq> 0 then (3::u32) else 15) = mask q" "q \<le> k" "unat type < 2 ^ q"
    "type AND 1 \<noteq> 0 \<or> type AND 4 = 0" "\<forall>j. pci_bar d reg \<le> j \<and> j < pci_bar d reg + 4 \<longrightarrow> w1cmask d1 ! j = 0"
    "bus_ok map_irq nirq b" "n < 256" "devices b ! n = Some d1" "\<forall>m i. map_irq m i < nirq"
  shows "\<exists>b' out. pci_default_write_config map_irq n (pci_bar d reg) 0xffffffff 4 b = Some (b', out) \<and> bus_ok map_irq nirq b'
    \<and> guest_size type (pci_default_read_config (dev b' n) (pci_bar d reg) 4) = 2 ^ k"
proof -
  let ?a = "pci_bar d reg"
  have a: "?a = 0x10 + reg * 4" using assms(4) by (simp add: pci_bar_def)
  have sz: "?a + 4 \<le> pci_config_size d" using a assms(4) config_size_bound [of d] by simp
  have d1: "pci_config d1 = pci_set_long (pci_config d) ?a (ucast type)"
    "wmask d1 = pci_set_long (wmask d) ?a (ucast (NOT (2 ^ k - 1 :: u64) AND 0xffffffff))" "cap_present d1 = cap_present d"
    using assms(1,4,9) by (auto simp: pci_register_bar_def Let_def pci_bar_def split: if_splits)
  have s1: "pci_config_size d1 = pci_config_size d" using d1(3) by (simp add: pci_config_size_def)
  have router: "pci_router map_irq nirq" using assms(14) by unfold_locales simp
  have mk: "masks_ok d1" "length (devices b) = 256" using assms(11-13) by (auto simp: bus_ok_def dev_ok_def)
  obtain b' out d' where w: "pci_default_write_config map_irq n ?a 0xffffffff 4 b = Some (b', out)" "bus_ok map_irq nirq b'"
    "devices b' = (devices b)[n := Some d']"
    "\<forall>j. pci_config d' ! j = (if ?a \<le> j \<and> j < ?a + 4 \<and> j < pci_config_size d1
       then new_byte d1 j (ucast (drop_bit (8 * (j - ?a)) (0xffffffff :: u32))) else pci_config d1 ! j)"
    using pci_router.write_config_ok [OF router assms(11-13), of 4 ?a "0xffffffff"] a by auto
  have dv: "dev b' n = d'" using w(3) assms(12) mk(2) by simp
  have "dev_ok n d'" using w(2,3) assms(12) mk(2) by (auto simp: bus_ok_def)
  then have "length (pci_config d') = pci_config_size d'" by (simp add: dev_ok_def masks_ok_def)
  moreover have "?a + 4 \<le> pci_config_size d'" using a assms(4) config_size_bound [of d'] by simp
  ultimately have "pci_default_read_config d' ?a 4 = pci_get_long (pci_config d') ?a" using read_long by blast
  also have "\<dots> = pci_get_long (pci_config d1) ?a OR pci_get_long (wmask d1) ?a"
    using write_ones [OF mk(1) _ assms(10) w(4)] sz s1 by simp
  also have "\<dots> = ucast type OR ucast (NOT (2 ^ k - 1 :: u64) AND 0xffffffff)"
    using assms(2,3) sz by (simp only: d1 get_set_long)
  finally have "guest_size type (pci_default_read_config d' ?a 4) = 2 ^ k"
    using guest_size_exact [OF assms(5-8)] by (simp only:)
  then show ?thesis using w(1,2) dv by blast
qed

text \<open>A bus with one network card in slot 3, with a page of memory and 256 ports.\<close>

definition pci_blank :: pci_device where
  "pci_blank = \<lparr>pci_config = [], cmask = [], wmask = [], w1cmask = [], used = [], devfn = 0,
     io_regions = replicate 7 \<lparr>r_addr = 0, r_size = 0, r_filtered_size = 0, r_type = 0\<rparr>, pin_state = 0, cap_present = 0x10\<rparr>"

definition empty_bus :: pci_bus where
  "empty_bus = \<lparr>devices = replicate 256 None, irq_count = replicate 4 0, mem_base = 0, devfn_min = 0\<rparr>"

definition nic_info :: pci_device_info where
  "nic_info = \<lparr>i_vendor_id = 0x10ec, i_device_id = 0x8139, i_revision = 0x20, i_class_id = 0x0200,
     i_subsystem_vendor_id = 0, i_subsystem_id = 0, i_is_bridge = False\<rparr>"

definition nic0 :: pci_device where
  "nic0 = dev (the (do_pci_register_device (Some 24) nic_info pci_blank empty_bus)) 24"

definition nic1 :: pci_device where "nic1 = the (pci_register_bar 0 256 1 nic0)"
definition nic :: pci_device where "nic = the (pci_register_bar 1 (2 ^ 12) 0 nic1)"
definition nic_bus :: pci_bus where "nic_bus = set_dev 24 nic empty_bus"

text \<open>A device that was registered and not yet used: nothing mapped, decoding off, no pin high.\<close>

definition fresh :: "nat \<Rightarrow> pci_device \<Rightarrow> bool" where
  "fresh n d \<longleftrightarrow> devfn d = n \<and> masks_ok d \<and> bars_ok d \<and> pin_state d = 0 \<and> pci_config d ! 4 = 0
     \<and> (\<forall>a<pci_config_size d. a \<noteq> 7 \<longrightarrow> w1cmask d ! a = 0)
     \<and> (\<forall>i<7. r_size (io_regions d ! i) \<noteq> 0 \<longrightarrow>
          r_addr (io_regions d ! i) = PCI_BAR_UNMAPPED \<and> r_filtered_size (io_regions d ! i) = r_size (io_regions d ! i))"

lemma fresh_dev_ok: "fresh n d \<Longrightarrow> dev_ok n d"
proof -
  assume f: "fresh n d"
  have "pci_bar_address d i t s = PCI_BAR_UNMAPPED" for i t s
  proof (rule ccontr)
    assume "pci_bar_address d i t s \<noteq> PCI_BAR_UNMAPPED"
    from bar_address_mapped(2) [OF this] show False using f by (simp add: fresh_def split: if_splits)
  qed
  then have "new_region d i = io_regions d ! i" if "i < 7" for i
    using f that by (cases "io_regions d ! i") (auto simp: new_region_def Let_def fresh_def)
  then show ?thesis using f by (simp add: dev_ok_def fresh_def maps_ok_def)
qed

lemma register_bar_fresh:
  assumes "fresh n d" "reg < 6" "type AND 4 = 0 \<or> reg < 5 \<and> type AND 1 \<noteq> 0" "pci_register_bar reg sz type d = Some d1" "sz \<noteq> 0"
  shows "fresh n d1"
proof -
  let ?a = "pci_bar d reg"
  have a: "?a = 0x10 + reg * 4" using assms(2) by (simp add: pci_bar_def)
  have len: "length (wmask d) = pci_config_size d" "length (pci_config d) = pci_config_size d" "length (io_regions d) = 7"
    "length (cmask d) = pci_config_size d"
    using assms(1) by (simp_all add: fresh_def masks_ok_def)
  define r where "r = \<lparr>r_addr = PCI_BAR_UNMAPPED, r_size = sz, r_filtered_size = sz, r_type = type\<rparr>"
  define m where "m = (ucast (NOT (sz - 1) AND 0xffffffff) :: u32)"
  have d1: "d1 = d\<lparr>io_regions := (io_regions d)[reg := r], pci_config := pci_set_long (pci_config d) ?a (ucast type),
      wmask := pci_set_long (wmask d) ?a m, cmask := pci_set_long (cmask d) ?a 0xffffffff\<rparr>"
    using assms(2,3,4) by (auto simp: pci_register_bar_def Let_def r_def m_def split: if_splits)
  have s1: "pci_config_size d1 = pci_config_size d" by (simp add: d1 pci_config_size_def)
  have nth: "pci_set_long c ?a v ! j = c ! j" if "j < 0x10 \<or> 0x28 \<le> j" for c v j
    using that a assms(2) by (auto simp: pci_set_long_def set_word_nth)
  have w1: "w1cmask d ! j = 0" if "j < pci_config_size d" "j \<noteq> 7" for j using that assms(1) by (simp add: fresh_def)
  have "wmask d1 ! j AND w1cmask d1 ! j = 0" if j: "j < pci_config_size d" for j
  proof (cases "j = 7")
    case True
    then show ?thesis using nth [of 7 "wmask d" m] assms(1) j by (simp add: d1 fresh_def masks_ok_def)
  next
    case False
    then show ?thesis using w1 [OF j] by (simp add: d1)
  qed
  then have "masks_ok d1" using assms(1) nth [of 14 "wmask d" m] len s1 by (simp add: fresh_def masks_ok_def d1)
  moreover have "bars_ok d1"
    using assms(1-3) len(3) by (auto simp: fresh_def bars_ok_def d1 r_def nth_list_update_if)
  ultimately show ?thesis using assms(1) nth [of 4 "pci_config d" "ucast type"] len s1
    by (auto simp: fresh_def d1 r_def nth_list_update_if pci_config_size_def)
qed

lemma pci_config_size_masks [simp]:
  "pci_config_size (d\<lparr>devfn := n\<rparr>) = pci_config_size d" "pci_config_size (d\<lparr>cmask := c\<rparr>) = pci_config_size d"
  "pci_config_size (d\<lparr>wmask := c\<rparr>) = pci_config_size d" "pci_config_size (d\<lparr>w1cmask := c\<rparr>) = pci_config_size d"
  "pci_config_size (d\<lparr>used := c\<rparr>) = pci_config_size d"
  by (simp_all add: pci_config_size_def)

lemma register_fresh:
  assumes "do_pci_register_device (Some n) info d b = Some b'" "\<not> i_is_bridge info" "n < length (devices b)"
    "length (io_regions d) = 7" "\<forall>i<7. r_size (io_regions d ! i) = 0 \<and> r_type (io_regions d ! i) = 0"
  shows "\<exists>d'. b' = set_dev n d' b \<and> fresh n d' \<and> io_regions d' = io_regions d"
proof -
  let ?z = "pci_config_alloc (d\<lparr>devfn := n, pin_state := 0\<rparr>)"
  have zs: "pci_config_size ?z = pci_config_size d" by (simp add: pci_config_size_def pci_config_alloc_def Let_def)
  have big: "0x100 \<le> pci_config_size d" by (rule config_size_bound)
  obtain c where c: "init_ids info ?z = Some (?z\<lparr>pci_config := c\<rparr>)" "length c = pci_config_size d" "c ! 4 = 0"
  proof -
    have "\<exists>c. init_ids info ?z = Some (?z\<lparr>pci_config := c\<rparr>) \<and> length c = pci_config_size d \<and> c ! 4 = 0"
      using assms(2) big by (auto simp: init_ids_def Let_def pci_config_alloc_def set_word_nth pci_config_size_def split: prod.splits if_splits)
    then show ?thesis using that by blast
  qed
  define e where "e = pci_init_w1cmask (pci_init_wmask (pci_init_cmask (?z\<lparr>pci_config := c\<rparr>)))"
  have e: "devfn e = n" "pin_state e = 0" "pci_config e = c" "io_regions e = io_regions d" "cap_present e = cap_present d"
    "length (wmask e) = pci_config_size d" "length (w1cmask e) = pci_config_size d" "length (cmask e) = pci_config_size d"
    by (simp_all add: e_def pci_init_w1cmask_def pci_init_wmask_def pci_init_cmask_def Let_def pci_config_alloc_def
        pci_word_test_and_set_mask_def pci_config_size_def)
  have es: "pci_config_size e = pci_config_size d" using e(5) by (simp add: pci_config_size_def)
  have w1: "w1cmask e ! a = (if a = 7 then 0xf9 else 0)" if "a < pci_config_size d" for a
    using that big by (auto simp: e_def pci_init_w1cmask_def pci_init_wmask_def pci_init_cmask_def Let_def pci_config_alloc_def set_word_nth zs)
  have w: "wmask e ! 7 = 0" "wmask e ! 14 = 0"
    using big by (auto simp: e_def pci_init_w1cmask_def pci_init_wmask_def pci_init_cmask_def Let_def pci_config_alloc_def
        pci_word_test_and_set_mask_def memset_nth set_word_nth zs)
  have "wmask e ! a AND w1cmask e ! a = 0" if "a < pci_config_size d" for a using w w1 [OF that] by simp
  then have mk: "masks_ok e" using e w w1 [of 14] big c(2) assms(4) by (simp add: masks_ok_def es)
  have fe: "fresh n e" using e mk w1 c(3) assms(5) es by (simp add: fresh_def bars_ok_def)
  obtain d' where d': "pci_init_multifunction b e = Some d'" "b' = set_dev n d' b"
    using assms(1,2) c(1) by (auto simp: do_pci_register_device_def pick_devfn_def Let_def e_def split: option.splits if_splits)
  then have "d' = e \<or> d' = e\<lparr>pci_config := (pci_config e)[14 := pci_config e ! 14 OR 0x80]\<rparr>"
    by (auto simp: pci_init_multifunction_def Let_def split: if_splits option.splits)
  then have "fresh n d' \<and> io_regions d' = io_regions d"
    using fe e(4) by (auto simp: fresh_def masks_ok_def bars_ok_def)
  then show ?thesis using d'(2) by blast
qed

lemma quiet_bus_ok:
  assumes "dev_ok n d" "pin_state d = 0" "n < 256"
  shows "bus_ok map_irq 4 (set_dev n d empty_bus)"
proof -
  have "line_share map_irq k x = 0" if "x = None \<or> x = Some d" for x k
    using that assms(2) by (auto simp: line_share_def asserted_def pci_irq_state_def intro!: sum.neutral)
  moreover have "devices (set_dev n d empty_bus) ! m = None \<or> devices (set_dev n d empty_bus) ! m = Some d" if "m < 256" for m
    using that by (simp add: empty_bus_def nth_list_update_if)
  ultimately have z: "(\<Sum>m<256. line_share map_irq k (devices (set_dev n d empty_bus) ! m)) = 0" for k
    by (intro sum.neutral) (simp del: set_dev_simps)
  have "counts_ok map_irq (set_dev n d empty_bus)" unfolding counts_ok_def z by (simp add: empty_bus_def)
  then show ?thesis using assms by (auto simp: bus_ok_def empty_bus_def nth_list_update_if)
qed

lemma nic_fresh: "fresh 24 nic" "pci_register_bar 1 (2 ^ 12) 0 nic1 = Some nic" "masks_ok nic1" "fresh 24 nic1"
proof -
  have some: "do_pci_register_device (Some 24) nic_info pci_blank empty_bus \<noteq> None" by code_simp
  then obtain b' where b': "do_pci_register_device (Some 24) nic_info pci_blank empty_bus = Some b'" by blast
  then obtain d' where d': "b' = set_dev 24 d' empty_bus" "fresh 24 d'"
    using register_fresh [OF b'] by (auto simp: nic_info_def empty_bus_def pci_blank_def less_Suc_eq numeral_eq_Suc)
  have f0: "fresh 24 nic0" using d' b' by (simp add: nic0_def empty_bus_def)
  have c1: "pci_register_bar 0 256 1 nic0 = Some nic1" by (simp add: nic1_def pci_register_bar_def Let_def)
  show f1: "fresh 24 nic1" using register_bar_fresh [OF f0 _ _ c1] by simp
  show c2: "pci_register_bar 1 (2 ^ 12) 0 nic1 = Some nic" by (simp add: nic_def pci_register_bar_def Let_def)
  show "fresh 24 nic" using register_bar_fresh [OF f1 _ _ c2] by simp
  show "masks_ok nic1" using f1 by (simp add: fresh_def)
qed

lemma nic_bus_ok: "bus_ok map_irq 4 nic_bus" "devices nic_bus ! 24 = Some nic"
  using quiet_bus_ok [OF fresh_dev_ok [OF nic_fresh(1)]] nic_fresh(1)
  by (simp_all add: nic_bus_def fresh_def empty_bus_def)

theorem pci_region_size_read_back_witness:
  "\<exists>b' out. pci_default_write_config (\<lambda>m i. i mod 4) 24 0x14 0xffffffff 4 nic_bus = Some (b', out)
    \<and> guest_size 0 (pci_default_read_config (dev b' 24) 0x14 4) = 2 ^ 12"
proof -
  have a: "pci_bar nic1 1 = 0x14" by (simp add: pci_bar_def)
  have "\<forall>j. 0x14 \<le> j \<and> j < 0x14 + 4 \<longrightarrow> w1cmask nic ! j = 0"
    using nic_fresh(1) config_size_bound [of nic] by (auto simp: fresh_def)
  then have "\<exists>b' out. pci_default_write_config (\<lambda>m i. i mod 4) 24 (pci_bar nic1 1) 0xffffffff 4 nic_bus = Some (b', out)
    \<and> bus_ok (\<lambda>m i. i mod 4) 4 b' \<and> guest_size 0 (pci_default_read_config (dev b' 24) (pci_bar nic1 1) 4) = 2 ^ 12"
    using nic_fresh(3) nic_bus_ok
    by (intro pci_region_size_read_back [OF nic_fresh(2), where q = 4]) (simp_all add: a [simplified] masks_ok_def mask_eq_exp_minus_1)
  then show ?thesis unfolding a by blast
qed

section \<open>A disable bit that is not noticed\<close>

text \<open>
  C39: Disabling the pins of a device with a byte access leaves its interrupt on the bus. The disable
  bit is in the upper byte of the command register, but only writes that cover the lower byte
  update the counters. After a pin went high, a byte write that sets the bit makes no call, and
  when the pin goes low again the counter of its line is still what it was, at least one, so the
  line is not lowered.
\<close>

theorem pci_byte_disable_leaves_line_high:
  assumes "bus_ok map_irq nirq b" "n < 256" "devices b ! n = Some d" "\<forall>m i. map_irq m i < nirq"
    "\<not> pci_irq_disabled d" "i < 4" "pci_irq_state d i = 1" "bit (wmask d ! 5) 2" "bit (v :: u8) 2"
  shows "\<exists>b1. pci_default_write_config map_irq n 5 (ucast v) 1 b = Some (b1, []) \<and> pci_irq_disabled (dev b1 n)
    \<and> snd (pci_set_irq map_irq n i 0 b1) = [] \<and> pci_irq_state (dev (fst (pci_set_irq map_irq n i 0 b1)) n) i = 0
    \<and> irq_count (fst (pci_set_irq map_irq n i 0 b1)) ! map_irq n i \<ge> 1"
proof -
  have ok: "dev_ok n d" and len: "length (devices b) = 256" "length (irq_count b) = nirq" and cnt: "counts_ok map_irq b"
    using assms(1-3) by (auto simp: bus_ok_def)
  have nu: "\<not> updates_mappings 5 1" by (simp add: updates_mappings_def ranges_overlap_def range_covers_byte_def)
  obtain d1 d' where w: "write_bytes 5 (ucast v) 1 d = Some d1" "set_dev n d1 b = set_dev n d' b" "pin_state d' = pin_state d"
    "dev_ok n d'"
    "\<forall>j. pci_config d' ! j = (if 5 \<le> j \<and> j < 5 + 1 \<and> j < pci_config_size d
       then new_byte d j (ucast (drop_bit (8 * (j - 5)) (ucast v :: u32))) else pci_config d ! j)"
    using write_dev [OF ok len(1) assms(2,3), of 1 5 "ucast v"] nu by auto
  have "wmask d ! 5 AND w1cmask d ! 5 = 0" using ok config_size_bound [of d] by (simp add: dev_ok_def masks_ok_def)
  then have "bit (pci_config d' ! 5) 2"
    using w(5) [rule_format, of 5] assms(8,9) config_size_bound [of d] by (simp add: new_byte_bit)
  then have dis: "pci_irq_disabled d'" by (simp add: irq_disabled_bit)
  let ?b1 = "set_dev n d' b"
  have dv: "dev ?b1 n = d'" using assms(2) len by simp
  have wr: "pci_default_write_config map_irq n 5 (ucast v) 1 b = Some (?b1, [])"
    unfolding pci_default_write_config_def Let_def assms(3) option.sel w(1) option.case updates_mappings_def [symmetric]
    using nu w(2) by (simp add: range_covers_byte_def)
  have st: "pci_irq_state d' i = 1" using w(3) assms(7) by (simp add: pci_irq_state_def)
  let ?e = "pci_update_irq_status (pci_set_irq_state i 0 d')"
  note e = set_pin_dev [OF w(4) assms(6), of 0, simplified]
  have low: "pci_set_irq map_irq n i 0 ?b1 = (set_dev n ?e ?b1, [])"
    unfolding pci_set_irq_def Let_def dv st using e(2) dis by simp
  have "1 \<le> irq_count b ! map_irq n i"
  proof -
    have "line_share map_irq (map_irq n i) (devices b ! n) \<le> (\<Sum>m<256. line_share map_irq (map_irq n i) (devices b ! m))"
      using assms(2) by (intro member_le_sum) (auto simp: line_share_def asserted_def pci_irq_state_def intro!: sum_nonneg split: option.splits)
    moreover have "asserted d i \<le> line_share map_irq (map_irq n i) (devices b ! n)"
    proof -
      have "(if map_irq (devfn d) i = map_irq n i then asserted d i else 0)
        \<le> (\<Sum>j<4. if map_irq (devfn d) j = map_irq n i then asserted d j else 0)"
        using assms(6) by (intro member_le_sum) (auto simp: asserted_def pci_irq_state_def)
      then show ?thesis using ok assms(3) by (simp add: line_share_def dev_ok_def)
    qed
    ultimately show ?thesis using cnt assms(4,5,7) len by (simp add: counts_ok_def asserted_def)
  qed
  then show ?thesis using wr low dis e(3) dv assms(2) len by (intro exI [of _ ?b1]) simp
qed

lemma nic_raised:
  defines "b \<equiv> fst (pci_set_irq (\<lambda>m i. i mod 4) 24 0 1 nic_bus)"
  shows "bus_ok (\<lambda>m i. i mod 4) 4 b" "\<exists>d. devices b ! 24 = Some d \<and> \<not> pci_irq_disabled d \<and> pci_irq_state d 0 = 1"
proof -
  have router: "pci_router (\<lambda>m i. i mod 4) 4" by unfold_locales simp
  note r = pci_router.set_irq_ok [OF router nic_bus_ok(1) _ nic_bus_ok(2), of 0 1, folded b_def, simplified]
  then show "bus_ok (\<lambda>m i. i mod 4) 4 b" by simp
  have nd: "\<not> pci_irq_disabled nic" by (simp add: irq_disabled_bit) code_simp
  obtain d' where "devices b = (devices nic_bus)[24 := Some d']" "pci_irq_disabled d' = pci_irq_disabled nic"
    "\<forall>j. pci_irq_state d' j = (if j = 0 then 1 else pci_irq_state nic j)" using r(2) by blast
  then show "\<exists>d. devices b ! 24 = Some d \<and> \<not> pci_irq_disabled d \<and> pci_irq_state d 0 = 1"
    using nd by (simp add: nic_bus_def empty_bus_def)
qed

theorem pci_byte_disable_leaves_line_high_witness:
  "\<exists>b1. pci_default_write_config (\<lambda>m i. i mod 4) 24 5 4 1 (fst (pci_set_irq (\<lambda>m i. i mod 4) 24 0 1 nic_bus)) = Some (b1, [])
    \<and> irq_count (fst (pci_set_irq (\<lambda>m i. i mod 4) 24 0 0 b1)) ! 0 \<ge> 1"
proof -
  let ?b = "fst (pci_set_irq (\<lambda>m i. i mod 4) 24 0 1 nic_bus)"
  obtain d where d: "devices ?b ! 24 = Some d" "\<not> pci_irq_disabled d" "pci_irq_state d 0 = 1" using nic_raised(2) by blast
  have "wmask d = wmask nic"
    using d(1) by (auto simp: pci_set_irq_def Let_def nic_bus_def empty_bus_def pci_update_irq_status_def pci_set_irq_state_def split: if_splits)
  moreover have "bit (wmask nic ! 5) 2" by code_simp
  ultimately have w: "bit (wmask d ! 5) 2" by simp
  show ?thesis using pci_byte_disable_leaves_line_high [OF nic_raised(1) _ d(1) _ d(2) _ d(3) w, of 4] by auto
qed

section \<open>Reset of the bus\<close>








section \<open>Saving and restoring a device\<close>

lemma restored_pins:
  assumes "get_pci_irq_state (put_pci_irq_state d) e = Some e'"
  shows "pci_irq_state e' j = (if j < 4 then pci_irq_state d j else pci_irq_state e j)" "pci_config e' = pci_config e"
    "io_regions e' = io_regions e" "devfn e' = devfn e" "wmask e' = wmask e" "w1cmask e' = w1cmask e" "cmask e' = cmask e"
    "cap_present e' = cap_present e"
proof -
  have u: "uint (put_pci_irq_state d ! i) = pci_irq_state d i" if "i < 4" for i
    using that by (simp add: put_pci_irq_state_def pci_irq_state_def)
  have up: "[0..<4] = [0, 1, 2, 3::nat]" by (simp add: upt_rec)
  have l: "pci_irq_state d i = 0 \<or> pci_irq_state d i = 1" for i by (simp add: pci_irq_state_def)
  have e': "e' = pci_set_irq_state 3 (pci_irq_state d 3) (pci_set_irq_state 2 (pci_irq_state d 2)
      (pci_set_irq_state 1 (pci_irq_state d 1) (pci_set_irq_state 0 (pci_irq_state d 0) e)))"
    using assms u [of 0] u [of 1] u [of 2] u [of 3]
    by (simp add: get_pci_irq_state_def up split: if_splits)
  show "pci_irq_state e' j = (if j < 4 then pci_irq_state d j else pci_irq_state e j)"
    unfolding e' using l by (auto simp: set_irq_state_bit less_Suc_eq numeral_eq_Suc)
  show "pci_config e' = pci_config e" "io_regions e' = io_regions e" "devfn e' = devfn e" "wmask e' = wmask e"
    "w1cmask e' = w1cmask e" "cmask e' = cmask e" "cap_present e' = cap_present e"
    unfolding e' by (simp_all add: pci_set_irq_state_def Let_def)
qed

lemma pins_eqI:
  assumes "\<And>j. pci_irq_state d j = pci_irq_state e j"
  shows "pin_state d = pin_state e"
  by (rule bit_word_eqI) (metis assms of_bool_eq_iff pci_irq_state_def)

lemma restored_dev_ok:
  assumes "dev_ok n e" "pci_config e' = pci_config e" "io_regions e' = io_regions e" "devfn e' = devfn e" "wmask e' = wmask e"
    "w1cmask e' = w1cmask e" "cmask e' = cmask e" "cap_present e' = cap_present e"
  shows "dev_ok n (pci_update_irq_status e')"
proof -
  let ?e = "pci_update_irq_status e'"
  have "\<forall>j\<in>bar_bytes. pci_config e ! j = pci_config ?e ! j" by (auto simp: pci_update_irq_status_def assms bar_bytes_def)
  then have "maps_ok ?e" using maps_ok_cong [of e ?e] assms by (simp add: dev_ok_def)
  moreover have "masks_ok ?e" "bars_ok ?e"
    using assms by (simp_all add: dev_ok_def masks_ok_def bars_ok_def pci_update_irq_status_def pci_config_size_def)
  ultimately show ?thesis using assms by (simp add: dev_ok_def)
qed

lemma put_accepted: "get_pci_irq_state (put_pci_irq_state d) e \<noteq> None"
  by (auto simp: get_pci_irq_state_def put_pci_irq_state_def pci_irq_state_def)

definition same_kind :: "pci_device \<Rightarrow> pci_device \<Rightarrow> bool" where
  "same_kind d e \<longleftrightarrow> wmask e = wmask d \<and> w1cmask e = w1cmask d \<and> cmask e = cmask d \<and> cap_present e = cap_present d
     \<and> (\<forall>i<pci_config_size d. (pci_config d ! i XOR pci_config e ! i) AND cmask d ! i AND NOT (wmask d ! i) AND NOT (w1cmask d ! i) = 0)"

lemma status_unchecked:
  fixes x y c w v :: u8
  assumes "\<not> bit c 3" "(x XOR y) AND c AND NOT w AND NOT v = 0"
  shows "((x AND NOT 8) XOR y) AND c AND NOT w AND NOT v = 0"
proof (rule bit_word_eqI)
  fix k
  assume "k < LENGTH(8)"
  have "bit ((x XOR y) AND c AND NOT w AND NOT v) k = bit (0 :: u8) k" by (simp only: assms(2))
  moreover have "bit (x AND NOT 8) k = (bit x k \<and> k \<noteq> 3)" using bit_and_not_exp [of x 3 k] by auto
  ultimately show "bit (((x AND NOT 8) XOR y) AND c AND NOT w AND NOT v) k = bit (0 :: u8) k"
    using assms(1) by (cases "k = 3") (auto simp: bit_and_iff bit_xor_iff)
qed

lemma status_bit_back:
  fixes x :: u8
  shows "bit x 3 \<Longrightarrow> (x AND NOT 8) OR 8 = x" "\<not> bit x 3 \<Longrightarrow> x AND NOT 8 = x"
  using bit_or_exp [of "x AND NOT 8" 3] bit_and_not_exp [of x 3] word8_bit_less [of x]
  by (auto intro!: bit_word_eqI simp del: bit_not_iff_eq)

text \<open>
  C25: A device comes back from a snapshot as it was. What one device saved is accepted by a device of
  the same kind, that is, with the same masks and the same values in the bits that are checked;
  afterwards the configuration space, with the interrupt status that is not saved, and the pins
  are those of the saved device, and the regions are mapped where the registers say.
\<close>

theorem pci_save_load_roundtrip:
  assumes "dev_ok n d" "dev_ok n e" "devices b ! n = Some e" "length (devices b) = 256" "n < 256" "same_kind d e"
    "\<forall>j\<ge>4. \<not> bit (pin_state d) j \<and> \<not> bit (pin_state e) j" "bit (pci_config d ! 6) 3 \<longleftrightarrow> pin_state d \<noteq> 0" "\<not> bit (cmask d ! 6) 3"
  shows "\<exists>b' out. pci_device_load (pci_device_save d) n b = Some (b', out) \<and> pci_config (dev b' n) = pci_config d
    \<and> pin_state (dev b' n) = pin_state d \<and> dev_ok n (dev b' n)"
proof -
  let ?c = "(pci_config d)[6 := pci_config d ! 6 AND NOT 8]"
  have sz: "pci_config_size e = pci_config_size d" using assms(6) by (simp add: same_kind_def pci_config_size_def)
  have len: "length (pci_config d) = pci_config_size d" "6 < length (pci_config d)" "masks_ok e" "bars_ok e" "devfn e = n"
    using assms(1,2) config_size_bound [of d] by (simp_all add: dev_ok_def masks_ok_def)
  have "(?c ! i XOR pci_config e ! i) AND cmask e ! i AND NOT (wmask e ! i) AND NOT (w1cmask e ! i) = 0" if "i < pci_config_size e" for i
    using that assms(6,9) sz len(2) status_unchecked by (cases "i = 6") (simp_all add: same_kind_def)
  then have g: "get_pci_config_device ?c n b = Some (pci_update_mappings n (set_dev n (e\<lparr>pci_config := ?c\<rparr>) b))"
    by (auto simp: get_pci_config_device_def Let_def assms(3))
  let ?b = "set_dev n (e\<lparr>pci_config := ?c\<rparr>) b"
  have dv: "dev ?b n = e\<lparr>pci_config := ?c\<rparr>" using assms(4,5) by simp
  have "length (io_regions (dev ?b n)) = 7" using len(3) unfolding dv by (simp add: masks_ok_def)
  from update_mappings_dev [OF this] obtain rs where rs:
    "fst (pci_update_mappings n ?b) = set_dev n (e\<lparr>pci_config := ?c, io_regions := rs\<rparr>) ?b" "length rs = 7"
    "\<forall>i<7. rs ! i = new_region (e\<lparr>pci_config := ?c\<rparr>) i"
    unfolding dv using assms(4,5) by auto
  let ?e = "e\<lparr>pci_config := ?c, io_regions := rs\<rparr>"
  obtain e' where e': "get_pci_irq_state (put_pci_irq_state d) ?e = Some e'" using put_accepted by blast
  note p = restored_pins [OF e']
  have dv2: "dev (set_dev n ?e ?b) n = ?e" using assms(4,5) by simp
  have load: "pci_device_load (pci_device_save d) n b
      = Some (set_dev n (pci_update_irq_status e') (set_dev n ?e ?b), snd (pci_update_mappings n ?b))"
    unfolding pci_device_load_def pci_device_save_def fst_conv snd_conv g option.case
    using rs(1) dv2 e' by (simp add: split_beta)
  have pins: "pin_state e' = pin_state d"
    using p(1) assms(7) by (intro pins_eqI) (simp add: pci_irq_state_def not_less)
  have cfg: "pci_config (pci_update_irq_status e') = pci_config d"
    using len(2) status_bit_back [of "pci_config d ! 6"] assms(8)
    by (cases "pin_state d = 0") (simp_all add: pci_update_irq_status_def pins p(2))
  have "maps_ok ?e" by (rule maps_ok_updated [OF rs(3)])
  moreover have "bars_ok ?e" using len(4) rs(3) by (simp add: bars_ok_def)
  moreover have "masks_ok ?e" using len sz rs(2) by (simp add: masks_ok_def)
  ultimately have ok: "dev_ok n (pci_update_irq_status e')" using restored_dev_ok [of n ?e e', OF _ p(2-8)] len(5) by (simp add: dev_ok_def)
  let ?r = "set_dev n (pci_update_irq_status e') (set_dev n ?e ?b)"
  have "dev ?r n = pci_update_irq_status e'" using assms(4,5) by simp
  then show ?thesis using load pins cfg ok by (intro exI [of _ ?r] exI [of _ "snd (pci_update_mappings n ?b)"]) simp
qed

theorem pci_save_load_roundtrip_witness:
  "\<exists>b' out. pci_device_load (pci_device_save nic) 24 nic_bus = Some (b', out) \<and> pci_config (dev b' 24) = pci_config nic"
proof -
  note ok = fresh_dev_ok [OF nic_fresh(1)]
  have bits: "\<not> bit (pci_config nic ! 6) 3" "\<not> bit (cmask nic ! 6) 3" by code_simp+
  have "pin_state nic = 0" using nic_fresh(1) by (simp add: fresh_def)
  then show ?thesis
    using pci_save_load_roundtrip [OF ok ok nic_bus_ok(2)] nic_bus_ok(1) bits
    by (fastforce simp: bus_ok_def same_kind_def)
qed

section \<open>Allocation of capabilities\<close>

definition free_run :: "pci_device \<Rightarrow> nat \<Rightarrow> nat \<Rightarrow> bool" where
  "free_run d l r \<longleftrightarrow> r + l \<le> pci_config_size d \<and> (\<forall>j. r \<le> j \<and> j < r + l \<longrightarrow> used d ! j = 0)"

lemma find_space_spec:
  assumes "0 < unat sz" "0 < off" "off \<le> i" "\<forall>j. off \<le> j \<and> j < i \<longrightarrow> used d ! j = 0" "i - off < unat sz"
  shows "(if find_space d sz i off = 0 then \<forall>r\<ge>off. \<not> free_run d (unat sz) r
    else off \<le> find_space d sz i off \<and> free_run d (unat sz) (find_space d sz i off))"
  using assms
proof (induction d sz i off rule: find_space.induct)
  case (1 d sz i off)
  consider (fin) "i \<ge> pci_config_size d" | (taken) "i < pci_config_size d" "used d ! i \<noteq> 0"
    | (found) "i < pci_config_size d" "used d ! i = 0" "i - off + 1 = unat sz"
    | (go) "i < pci_config_size d" "used d ! i = 0" "i - off + 1 \<noteq> unat sz" by linarith
  then show ?case
  proof cases
    case fin
    then have "find_space d sz i off = 0" by (simp add: find_space.simps)
    moreover have "\<not> free_run d (unat sz) r" if "off \<le> r" for r
      using fin that "1.prems" by (auto simp: free_run_def)
    ultimately show ?thesis by simp
  next
    case taken
    have e: "find_space d sz i off = find_space d sz (i + 1) (i + 1)" using taken by (subst find_space.simps) simp
    have "\<not> free_run d (unat sz) r" if "off \<le> r" "r < i + 1" for r
    proof
      assume f: "free_run d (unat sz) r"
      have "i < r + unat sz" using that "1.prems"(3,5) by linarith
      then show False using f taken that by (auto simp: free_run_def)
    qed
    then have low: "\<not> free_run d (unat sz) r" if "off \<le> r" "r \<le> i" for r using that by simp
    have IH: "if find_space d sz (i + 1) (i + 1) = 0 then \<forall>r\<ge>i + 1. \<not> free_run d (unat sz) r
      else i + 1 \<le> find_space d sz (i + 1) (i + 1) \<and> free_run d (unat sz) (find_space d sz (i + 1) (i + 1))"
    proof -
      have "\<forall>j. i + 1 \<le> j \<and> j < i + 1 \<longrightarrow> used d ! j = 0" by linarith
      then show ?thesis using "1.IH"(1) taken "1.prems"(1) by simp
    qed
    show ?thesis unfolding e
    proof (cases "find_space d sz (i + 1) (i + 1) = 0")
      case True
      then have "\<not> free_run d (unat sz) r" if "off \<le> r" for r using IH low that by (cases "r \<le> i") auto
      then show "if find_space d sz (i + 1) (i + 1) = 0 then \<forall>r\<ge>off. \<not> free_run d (unat sz) r
        else off \<le> find_space d sz (i + 1) (i + 1) \<and> free_run d (unat sz) (find_space d sz (i + 1) (i + 1))" using True by simp
    next
      case False
      then show "if find_space d sz (i + 1) (i + 1) = 0 then \<forall>r\<ge>off. \<not> free_run d (unat sz) r
        else off \<le> find_space d sz (i + 1) (i + 1) \<and> free_run d (unat sz) (find_space d sz (i + 1) (i + 1))"
        using IH "1.prems"(3) by simp
    qed
  next
    case found
    have e: "find_space d sz i off = off" using found by (subst find_space.simps) simp
    have "free_run d (unat sz) off"
      unfolding free_run_def
    proof (intro conjI allI impI)
      show "off + unat sz \<le> pci_config_size d" using found "1.prems"(3) by linarith
      fix j
      assume "off \<le> j \<and> j < off + unat sz"
      then show "used d ! j = 0" using found "1.prems"(3,4) by (cases "j = i") auto
    qed
    then show ?thesis using e "1.prems" by simp
  next
    case go
    have e: "find_space d sz i off = find_space d sz (i + 1) off" using go by (subst find_space.simps) simp
    have "\<forall>j. off \<le> j \<and> j < i + 1 \<longrightarrow> used d ! j = 0" using "1.prems"(4) go(2) by (auto simp: less_Suc_eq)
    moreover have "i + 1 - off < unat sz" "off \<le> i + 1" using go(3) "1.prems"(3,5) by linarith+
    ultimately show ?thesis unfolding e using "1.IH"(2) go "1.prems"(1,2) by simp
  qed
qed

text \<open>
  C35: Capabilities are placed in free space and are found. For a device with a 256 byte space and a
  capability of at least two bytes, placing it anywhere fails exactly if no run of that many unused
  bytes is left above the header; otherwise it is placed in such a run, and the search for its
  number, which follows pointers and need not end in general, returns the place.
\<close>

theorem pci_capability_allocated:
  assumes "pci_config_size d = 0x100" "length (pci_config d) = 0x100" "2 \<le> unat sz"
  shows "case pci_add_capability cap_id 0 sz d of
      None \<Rightarrow> \<forall>r\<ge>0x40. \<not> free_run d (unat sz) r
    | Some (o1, d') \<Rightarrow> 0x40 \<le> unat o1 \<and> free_run d (unat sz) (unat o1) \<and> pci_find_capability d' cap_id = Some o1"
proof -
  let ?f = "pci_find_space d sz"
  have sp: "if ?f = 0 then \<forall>r\<ge>0x40. \<not> free_run d (unat sz) r else 0x40 \<le> ?f \<and> free_run d (unat sz) ?f"
  proof -
    have "\<forall>j. 0x40 \<le> j \<and> j < 0x40 \<longrightarrow> used d ! j = 0" by linarith
    then show ?thesis unfolding pci_find_space_def using assms(3) by (intro find_space_spec) simp_all
  qed
  show ?thesis
  proof (cases "?f = 0")
    case True
    then show ?thesis using sp by (simp add: pci_add_capability_def Let_def)
  next
    case False
    then have f: "0x40 \<le> ?f" "free_run d (unat sz) ?f" using sp by simp_all
    then have lt: "?f + 1 < 256" using assms(1,3) by (simp add: free_run_def)
    then have u: "unat (of_nat ?f :: u8) = ?f" by (simp add: unat_of_nat)
    then have nz: "(of_nat ?f :: u8) \<noteq> 0" using False by (metis unat_0)
    define c where "c = (let c = (pci_config d)[?f := cap_id]; c = c[?f + 1 := c ! 0x34]; c = c[0x34 := of_nat ?f]
      in c[6 := c ! 6 OR 0x10])"
    have c: "c ! 0x34 = of_nat ?f" "c ! ?f = cap_id" "c ! 6 = pci_config d ! 6 OR 0x10"
      using f(1) lt assms(2) by (simp_all add: c_def Let_def nth_list_update_if)
    have walk: "cap_walk c cap_id 0x34 = Some (of_nat ?f, 0x34)"
      by (subst cap_walk.simps) (simp add: c nz u Let_def)
    have cap: "c ! 6 AND 0x10 \<noteq> 0"
    proof -
      have "bit (c ! 6 AND 0x10) 4" unfolding c(3) by (simp add: bit_simps)
      then show ?thesis by (metis bit_0_eq bot_apply bot_bool_def)
    qed
    obtain d' where d': "pci_add_capability cap_id 0 sz d = Some (of_nat ?f, d')" "pci_config d' = c"
      using nz by (auto simp: pci_add_capability_def Let_def u c_def)
    have "pci_find_capability d' cap_id = Some (of_nat ?f)"
      using walk cap d'(2) by (simp add: pci_find_capability_def pci_find_capability_list_def)
    then show ?thesis using d'(1) f u by simp
  qed
qed

theorem pci_capability_allocated_witness:
  "\<exists>o1 d'. pci_add_capability 5 0 10 nic = Some (o1, d') \<and> pci_find_capability d' 5 = Some o1"
proof -
  have n: "pci_config_size nic = 0x100" "length (pci_config nic) = 0x100" "pci_add_capability 5 0 10 nic \<noteq> None" by code_simp+
  then show ?thesis using pci_capability_allocated [OF n(1,2), of 10 5] by (auto split: option.splits)
qed

end
