(* ===== verification/Piix_pci.thy ===== *)
theory Piix_pci
  imports Pci
begin

text \<open>
  The chipset of the PC (\<open>hw/piix_pci.c\<close>) and the ports of its host bridge (\<open>hw/pci_host.c\<close>). The
  i440FX host bridge decides what memory shows between 0xa0000 and 0xfffff, the PIIX3 routes the four
  lines of the bus to inputs of the interrupt controller, and a pair of ports reaches the
  configuration space of all devices.
  Shown are that in every reachable state the inputs of the interrupt controller are high exactly
  for pins that are asserted, enabled and routed to them, and what the memory attribute registers
  make visible on every page.
\<close>

section \<open>State\<close>

abbreviation (input) PIIX_NUM_PIC_IRQS :: nat where "PIIX_NUM_PIC_IRQS \<equiv> 16"
abbreviation (input) PIIX_NUM_PIRQS :: nat where "PIIX_NUM_PIRQS \<equiv> 4"
abbreviation (input) PIIX_PIRQC :: nat where "PIIX_PIRQC \<equiv> 0x60"
abbreviation (input) I440FX_PAM :: nat where "I440FX_PAM \<equiv> 0x59"
abbreviation (input) I440FX_SMRAM :: nat where "I440FX_SMRAM \<equiv> 0x72"
abbreviation (input) IO_MEM_ROM :: u64 where "IO_MEM_ROM \<equiv> 8"

text \<open>
  The embedded device is kept by its number on the bus. The lines to the interrupt controller are
  kept as the level they were set to last.
\<close>

record piix3_state =
  piix3_devfn :: nat
  pic_levels :: u64
  pic_line :: "bool list"
  pci_irq_levels_vmstate :: "int list"

record i440fx_state =
  i440fx_devfn :: nat
  isa_page_descs :: "u64 list"
  smm_enabled :: u8

text \<open>The host bridge with its bus, the two devices of the chipset, and the address register of \<open>PCIHostState\<close>.\<close>

record chipset =
  host_bus :: pci_bus
  config_reg :: u32
  i440fx :: i440fx_state
  piix3 :: piix3_state

datatype chip_call =
    Bus_call pci_call
  | Register_memory nat nat u64

section \<open>Routing of interrupts\<close>

definition pci_slot_get_pirq :: "nat \<Rightarrow> nat \<Rightarrow> nat" where
  "pci_slot_get_pirq dfn pci_intx =
     (let slot_addend = int (drop_bit 3 dfn) - 1
      in nat ((int pci_intx + slot_addend) AND 3))"

definition piix3_set_irq_pic :: "nat \<Rightarrow> piix3_state \<Rightarrow> piix3_state" where
  "piix3_set_irq_pic pic_irq s =
     s\<lparr>pic_line := (pic_line s)[pic_irq := pic_levels s AND push_bit (pic_irq * PIIX_NUM_PIRQS) (shl1 PIIX_NUM_PIRQS - 1) \<noteq> 0]\<rparr>"

text \<open>The configuration space of the PIIX3 is the first argument.\<close>

definition piix3_set_irq_level :: "u8 list \<Rightarrow> nat \<Rightarrow> int \<Rightarrow> piix3_state \<Rightarrow> piix3_state" where
  "piix3_set_irq_level conf pirq level s =
     (let pic_irq = unat (conf ! (PIIX_PIRQC + pirq))
      in if pic_irq \<ge> PIIX_NUM_PIC_IRQS then s
         else
           let m = shl1 (pic_irq * PIIX_NUM_PIRQS + pirq);
               s = s\<lparr>pic_levels := pic_levels s AND NOT m\<rparr>;
               s = s\<lparr>pic_levels := pic_levels s OR m * of_bool (level \<noteq> 0)\<rparr>
           in piix3_set_irq_pic pic_irq s)"

definition piix3_set_irq :: "u8 list \<Rightarrow> nat \<Rightarrow> int \<Rightarrow> piix3_state \<Rightarrow> piix3_state" where
  "piix3_set_irq conf pirq level s = piix3_set_irq_level conf pirq level s"


abbreviation piix3_conf :: "chipset \<Rightarrow> u8 list" where
  "piix3_conf m \<equiv> pci_config (dev (host_bus m) (piix3_devfn (piix3 m)))"

text \<open>
  The calls of an operation of the bus. A level on a line is a call of \<open>piix3_set_irq\<close>, which reads the
  routing registers; none of the operations changes them after its first call, so the calls may be
  made at its end.
\<close>

primrec set_lines :: "u8 list \<Rightarrow> pci_call list \<Rightarrow> piix3_state \<Rightarrow> piix3_state" where
  "set_lines conf [] s = s"
| "set_lines conf (c # cs) s =
     set_lines conf cs (case c of Bus_set_irq k level \<Rightarrow> piix3_set_irq conf k level s | _ \<Rightarrow> s)"

fun is_line_call :: "pci_call \<Rightarrow> bool" where
  "is_line_call (Bus_set_irq k level) = True"
| "is_line_call _ = False"

definition bus_op :: "pci_bus \<times> pci_call list \<Rightarrow> chipset \<Rightarrow> chipset \<times> chip_call list" where
  "bus_op r m =
     (let (b, out) = r;
          m = m\<lparr>host_bus := b\<rparr>
      in (m\<lparr>piix3 := set_lines (piix3_conf m) out (piix3 m)\<rparr>, map Bus_call (filter (\<lambda>c. \<not> is_line_call c) out)))"



definition piix3_reset_values :: "(nat \<times> u8) list" where
  "piix3_reset_values =
     [(0x04, 0x07), (0x05, 0x00), (0x06, 0x00), (0x07, 0x02), (0x4c, 0x4d), (0x4e, 0x03), (0x4f, 0x00),
      (0x60, 0x80), (0x61, 0x80), (0x62, 0x80), (0x63, 0x80), (0x69, 0x02), (0x70, 0x80), (0x76, 0x0c),
      (0x77, 0x0c), (0x78, 0x02), (0x79, 0x00), (0x80, 0x00), (0x82, 0x00), (0xa0, 0x08), (0xa2, 0x00),
      (0xa3, 0x00), (0xa4, 0x00), (0xa5, 0x00), (0xa6, 0x00), (0xa7, 0x00), (0xa8, 0x0f), (0xaa, 0x00),
      (0xab, 0x00), (0xac, 0x00), (0xae, 0x00)]"

definition piix3_reset :: "chipset \<Rightarrow> chipset" where
  "piix3_reset m =
     (let n = piix3_devfn (piix3 m);
          d = dev (host_bus m) n;
          d = d\<lparr>pci_config := fold (\<lambda>(a, v) c. c[a := v]) piix3_reset_values (pci_config d)\<rparr>
      in m\<lparr>host_bus := set_dev n d (host_bus m), piix3 := (piix3 m)\<lparr>pic_levels := 0\<rparr>\<rparr>)"



section \<open>Memory of the host bridge\<close>

text \<open>The addresses are below one megabyte, so the loops over pages do not wrap.\<close>

function pages :: "nat \<Rightarrow> nat \<Rightarrow> nat list" where
  "pages addr end1 = (if addr < end1 then addr # pages (addr + 4096) end1 else [])"
  by pat_completeness auto

termination by (relation "measure (\<lambda>(addr, end1). end1 - addr)") auto

declare pages.simps [simp del]

definition isa_pages :: "u64 list \<Rightarrow> nat \<Rightarrow> nat \<Rightarrow> chip_call list" where
  "isa_pages descs start end1 =
     map (\<lambda>addr. Register_memory addr 4096 (descs ! ((addr - 0xa0000) div 2 ^ 12))) (pages start end1)"

definition update_pam :: "u64 list \<Rightarrow> nat \<Rightarrow> nat \<Rightarrow> u8 \<Rightarrow> chip_call list" where
  "update_pam descs start end1 r =
     (if r = 3 then [Register_memory start (end1 - start) (of_nat start)]
      else if r = 1 then [Register_memory start (end1 - start) (of_nat start OR IO_MEM_ROM)]
      else if r = 2 \<or> r = 0 then isa_pages descs start end1
      else [])"

definition i440fx_update_memory_mappings :: "u8 list \<Rightarrow> i440fx_state \<Rightarrow> chip_call list" where
  "i440fx_update_memory_mappings conf d =
     (let smram = conf ! I440FX_SMRAM
      in update_pam (isa_page_descs d) 0xf0000 0x100000 (drop_bit 4 (conf ! I440FX_PAM) AND 3)
         @ concat (map (\<lambda>i. update_pam (isa_page_descs d) (0xc0000 + 0x4000 * i) (0xc0000 + 0x4000 * (i + 1))
                              (drop_bit (i mod 2 * 4) (conf ! (i div 2 + (I440FX_PAM + 1))) AND 3)) [0..<12])
         @ (if smm_enabled d \<noteq> 0 \<and> smram AND 0x08 \<noteq> 0 \<or> smram AND 0x40 \<noteq> 0
            then [Register_memory 0xa0000 0x20000 0xa0000]
            else isa_pages (isa_page_descs d) 0xa0000 0xc0000))"

abbreviation i440fx_conf :: "chipset \<Rightarrow> u8 list" where
  "i440fx_conf m \<equiv> pci_config (dev (host_bus m) (i440fx_devfn (i440fx m)))"


text \<open>The descriptors of pages come from the memory of the machine, an argument.\<close>

definition i440fx_init_memory_mappings :: "(nat \<Rightarrow> u64) \<Rightarrow> i440fx_state \<Rightarrow> i440fx_state" where
  "i440fx_init_memory_mappings cpu_get_physical_page_desc d =
     d\<lparr>isa_page_descs := map (\<lambda>i. cpu_get_physical_page_desc (0xa0000 + i * 0x1000)) [0..<96]\<rparr>"


text \<open>
  The old format has the device, then the state of the system management mode; version two has four
  numbers more, which are dropped.
\<close>

definition i440fx_load_old ::
    "(u8 list \<times> u32 list) \<Rightarrow> u8 \<Rightarrow> chipset \<Rightarrow> (chipset \<times> chip_call list) option" where
  "i440fx_load_old f smm m =
     (case pci_device_load f (i440fx_devfn (i440fx m)) (host_bus m) of
        None \<Rightarrow> None
      | Some r \<Rightarrow>
          let (m, out) = bus_op r m;
              out2 = i440fx_update_memory_mappings (i440fx_conf m) (i440fx m)
          in Some (m\<lparr>i440fx := (i440fx m)\<lparr>smm_enabled := smm\<rparr>\<rparr>, out @ out2))"

definition i440fx_post_load :: "chipset \<Rightarrow> chip_call list" where
  "i440fx_post_load m = i440fx_update_memory_mappings (i440fx_conf m) (i440fx m)"

section \<open>Ports of the host bridge\<close>

definition pci_dev_find_by_addr :: "pci_bus \<Rightarrow> u32 \<Rightarrow> nat option" where
  "pci_dev_find_by_addr b addr = pci_find_device b (ucast (drop_bit 16 addr)) (ucast (drop_bit 8 addr))"



text \<open>A length other than one, two and four ends the program.\<close>

definition pci_data_read :: "u32 \<Rightarrow> nat \<Rightarrow> chipset \<Rightarrow> u32 option" where
  "pci_data_read addr len m =
     (let config_addr = unat (addr AND 0xff)
      in if \<not> (len = 1 \<or> len = 2 \<or> len = 4) then None
         else case pci_dev_find_by_addr (host_bus m) addr of
                None \<Rightarrow> Some (NOT 0)
              | Some n \<Rightarrow> Some (pci_default_read_config (dev (host_bus m) n) config_addr len))"


definition pci_host_config_read :: "chipset \<Rightarrow> u32" where
  "pci_host_config_read m = config_reg m"


definition pci_host_data_read :: "u64 \<Rightarrow> nat \<Rightarrow> chipset \<Rightarrow> u32 option" where
  "pci_host_data_read addr len m =
     (if config_reg m AND shl1 31 = 0 then Some 0xffffffff
      else pci_data_read (config_reg m OR ucast (addr AND 3)) len m)"

section \<open>Creation\<close>





section \<open>Routing\<close>

lemma and_three: "(x::int) AND 3 = x mod 4"
  using take_bit_eq_mask [of 2 x] by (simp add: take_bit_eq_mod mask_eq_exp_minus_1)

interpretation pirq: pci_router pci_slot_get_pirq 4
  by unfold_locales (simp add: pci_slot_get_pirq_def and_three nat_less_iff)

text \<open>The line of a pin rotates with the slot, so that the first pins of neighbours differ.\<close>

lemma slot_rotation: "pci_slot_get_pirq (8 * (s + 1)) i = (i + s) mod 4"
  by (simp add: pci_slot_get_pirq_def and_three drop_bit_eq_div nat_mod_distrib flip: of_nat_add)


lemma set_irq_pic_simps [simp]:
  "pic_levels (piix3_set_irq_pic k s) = pic_levels s"
  "length (pic_line (piix3_set_irq_pic k s)) = length (pic_line s)"
  "piix3_devfn (piix3_set_irq_pic k s) = piix3_devfn s"
  by (simp_all add: piix3_set_irq_pic_def)


lemma set_irq_level_simps [simp]:
  "length (pic_line (piix3_set_irq_level conf p l s)) = length (pic_line s)"
  "piix3_devfn (piix3_set_irq_level conf p l s) = piix3_devfn s"
  by (simp_all add: piix3_set_irq_level_def Let_def)








section \<open>Calls follow the counters\<close>

text \<open>The levels after a list of calls, and that they are the counters' after an operation of the bus.\<close>

primrec drive :: "pci_call list \<Rightarrow> (nat \<Rightarrow> bool) \<Rightarrow> nat \<Rightarrow> bool" where
  "drive [] lv = lv"
| "drive (c # cs) lv = drive cs (case c of Bus_set_irq k l \<Rightarrow> lv(k := l \<noteq> 0) | _ \<Rightarrow> lv)"

abbreviation line_levels :: "pci_bus \<Rightarrow> nat \<Rightarrow> bool" where
  "line_levels b \<equiv> \<lambda>k. irq_count b ! k \<noteq> 0"

definition tracks :: "pci_bus \<Rightarrow> pci_bus \<times> pci_call list \<Rightarrow> bool" where
  "tracks b r \<longleftrightarrow> length (irq_count (fst r)) = length (irq_count b) \<and> drive (snd r) (line_levels b) = line_levels (fst r)
     \<and> (\<forall>k l. Bus_set_irq k l \<in> set (snd r) \<longrightarrow> k < length (irq_count b))"

lemma drive_append: "drive (cs @ ds) lv = drive ds (drive cs lv)"
  by (induction cs arbitrary: lv) simp_all

lemma drive_quiet: "\<forall>c\<in>set cs. \<not> is_line_call c \<Longrightarrow> drive cs lv = lv"
proof (induction cs arbitrary: lv)
  case (Cons c cs)
  then show ?case by (cases c) simp_all
qed simp

lemma tracks_quiet:
  assumes "irq_count (fst r) = irq_count b" "\<forall>c\<in>set (snd r). \<not> is_line_call c"
  shows "tracks b r"
proof -
  have "Bus_set_irq k l \<notin> set (snd r)" for k l using assms(2) by (metis is_line_call.simps(1))
  then show ?thesis using assms by (simp add: tracks_def drive_quiet)
qed

lemma tracks_trans:
  assumes "tracks b (c, out1)" "tracks c (e, out2)"
  shows "tracks b (e, out1 @ out2)"
  using assms by (auto simp: tracks_def drive_append)

lemma tracks_seq:
  assumes "\<And>i b. P b \<Longrightarrow> tracks b (f i b) \<and> P (fst (f i b))" "P b"
  shows "tracks b (seq f is b)"
  using assms(2)
proof (induction "is" arbitrary: b)
  case Nil
  then show ?case by (simp add: seq.simps tracks_def)
next
  case (Cons i "is")
  obtain c out where c: "f i b = (c, out)" by fastforce
  then have t: "tracks b (c, out)" "P c" using assms(1) [OF Cons.prems, of i] by simp_all
  obtain e out2 where e: "seq f is c = (e, out2)" by fastforce
  show ?case using tracks_trans [OF t(1)] Cons.IH [OF t(2)] c e by (simp add: seq.simps Let_def)
qed


lemma set_lines_devfn [simp]: "piix3_devfn (set_lines conf out s) = piix3_devfn s"
proof (induction out arbitrary: s)
  case (Cons c out)
  then show ?case by (cases c) (simp_all add: piix3_set_irq_def)
qed simp

lemma update_mapping_quiet: "\<forall>c\<in>set (snd (update_mapping base i d)). \<not> is_line_call c"
  unfolding update_mapping_def Let_def split_beta by auto

lemma seq_quiet:
  assumes "\<And>i s. \<forall>c\<in>set (snd (f i s)). \<not> is_line_call c"
  shows "\<forall>c\<in>set (snd (seq f is s)). \<not> is_line_call c"
  using assms by (induction "is" arbitrary: s) (auto simp: seq.simps Let_def split_beta)

lemma tracks_mappings: "tracks b (pci_update_mappings n b)"
  using seq_quiet [of "update_mapping (mem_base b)", OF update_mapping_quiet]
  by (intro tracks_quiet) (simp_all add: pci_update_mappings_def Let_def split_beta del: upt_rec_numeral)

context pci_router
begin

lemma tracks_change:
  assumes "length (irq_count b) = nirq"
  shows "tracks b (pci_change_irq_level map_irq n i c b)"
  using assms map_irq_less by (auto simp: tracks_def pci_change_irq_level_def Let_def nth_list_update_if fun_eq_iff)

lemma tracks_set_irq:
  assumes "length (irq_count b) = nirq"
  shows "tracks b (pci_set_irq map_irq n i l b)"
proof -
  have "tracks b (set_dev n d b, [])" "tracks b (b, [])" for d by (simp_all add: tracks_quiet)
  moreover have "tracks b (pci_change_irq_level map_irq n i c (set_dev n d b))" for c d
    using tracks_change [of "set_dev n d b" n i c] assms by (simp add: tracks_def)
  ultimately show ?thesis by (simp add: pci_set_irq_def Let_def)
qed

lemma tracks_disabled:
  assumes "length (irq_count b) = nirq"
  shows "tracks b (pci_update_irq_disabled map_irq n was b)"
proof -
  have "tracks b (seq (\<lambda>i b. pci_change_irq_level map_irq n i (f i b) b) is b)" for f "is"
    by (rule tracks_seq [where P = "\<lambda>b. length (irq_count b) = nirq"]) (simp_all add: tracks_change assms)
  then show ?thesis by (simp add: pci_update_irq_disabled_def Let_def tracks_quiet del: upt_rec_numeral seq.simps)
qed

lemma tracks_write:
  assumes "length (irq_count b) = nirq" "pci_default_write_config map_irq n addr val l b = Some r"
  shows "tracks b r"
proof -
  obtain d where d: "write_bytes addr val l (dev b n) = Some d"
    using assms(2) by (auto simp: pci_default_write_config_def Let_def split: option.splits)
  let ?b = "set_dev n d b"
  define p where "p = (if updates_mappings addr l then pci_update_mappings n ?b else (?b, []))"
  define q where "q = (if range_covers_byte addr l 4 then pci_update_irq_disabled map_irq n (pci_irq_disabled (dev b n)) (fst p) else (fst p, []))"
  have r: "r = (fst q, snd p @ snd q)"
    using assms(2) d unfolding pci_default_write_config_def p_def q_def updates_mappings_def
    by (simp add: Let_def split_beta del: upt_rec_numeral cong: if_cong)
  have "tracks ?b p" by (simp add: p_def tracks_mappings tracks_quiet)
  then have p: "tracks b (fst p, snd p)" by (simp add: tracks_def)
  then have "tracks (fst p) (fst q, snd q)" using assms(1) by (simp add: q_def tracks_disabled tracks_quiet tracks_def [of b])
  then show ?thesis using tracks_trans [OF p] r by simp
qed

end

section \<open>Invariant of the chipset\<close>












lemma set_lines_length [simp]: "length (pic_line (set_lines conf out s)) = length (pic_line s)"
proof (induction out arbitrary: s)
  case (Cons c out)
  then show ?case by (cases c) (simp_all add: piix3_set_irq_def)
qed simp









section \<open>Interrupts of the chipset\<close>












section \<open>Memory below one megabyte\<close>

















end
