(* ===== verification/Spec2Isabelle.thy ===== *)
theory Spec2Isabelle
  imports Byte_Queue Qemu_Common Host_Utils Irq I8259 Apic Ioapic Lapic I8254 Hpet Mc146818rtc Ps2 Pckbd Dma
    Serial Pcspk Ioport Pc Pci Piix_pci
begin

text \<open>
  A verification of the PC device models of P3aPC, which is QEMU 0.15.1 built as a PC emulator
  (\<open>src/qemu-0.15.1\<close>) on top of SDL.

  \<^bold>\<open>The program and its parts.\<close> A guest instruction that accesses an I/O port goes through the port
  table (\<open>ioport.c\<close>) to the device that registered the port. Devices keep their registers in a
  structure, ask the emulator's clock for the time, arm timers, and drive interrupt lines
  (\<open>hw/irq.c\<close>). The board (\<open>hw/pc.c\<close>) wires the lines to a pair of interrupt controllers and to
  the I/O APIC; these interrupt the CPUs, directly or through their local APICs, and give a CPU a
  vector when it acknowledges. Devices on the PCI bus (\<open>hw/pci.c\<close>) have a configuration space that
  the guest reaches through two ports of the host bridge; the chipset (\<open>hw/piix_pci.c\<close>) routes their
  interrupt pins to the same controllers. Host events (keys, mouse
  movements, bytes from a character back end, requests of a sound card) enter devices through
  callbacks.

  \<^bold>\<open>How the model corresponds to the code.\<close> A C structure is a record, an enumeration or a set of
  constants a datatype or definitions of the same names, a w-bit register a word of that width.
  A C \<open>int\<close> is an integer, or a natural number where it is an index or a count. A function is a
  definition with its name that takes the state, and the clock where it reads it, and returns the
  new state with what it put out, in order: levels on lines, calls to a back end. A parameter
  replaces code that is outside the models: the transfer handlers of the DMA channels, the
  character back end, the sound card, the handlers in the port table, the geometry of drives, the
  reset functions of PCI devices. Where the program aborts (\<open>hw_error\<close>, \<open>exit\<close>) the definition
  returns \<open>None\<close> or an error value. Field names that several structures share have a prefix.

  \<^item> \<open>Prelude\<close>: names for C types, C division, bits of words, reachability and the locale
    \<open>device\<close>, which carries an invariant from the operations of a device to its reachable states.
  \<^item> \<open>Byte_Queue\<close>: ring buffers, and the locales \<open>fifo\<close> and \<open>dropping_fifo\<close> that state what a
    client of a bounded queue relies on.
  \<^item> \<open>Qemu_Common\<close>: \<open>muldiv64\<close> of \<open>qemu-common.h\<close> and its exactness, timers as devices see them,
    and the locale \<open>tick_clock\<close> of conversions between ticks and nanoseconds.
  \<^item> \<open>Irq\<close>: \<open>hw/irq.c\<close>, lines as handlers with a number, inversion and splitting.
  \<^item> \<open>I8259\<close>: \<open>hw/i8259.c\<close>, both interrupt controllers. The chosen request is the most urgent
    one of the rotating priority order; cascade, acknowledge, end of interrupt, the window of the
    vectors, the initialisation words and the abort on an unsupported one.
  \<^item> \<open>Host_Utils\<close>: \<open>host-utils.c\<close> and \<open>host-utils.h\<close>, the 128 bit products and the bit searches,
    against multiplication of integers and counting of zeros.
  \<^item> \<open>Apic\<close>, \<open>Ioapic\<close> and \<open>Lapic\<close>: \<open>hw/apic.c\<close> and \<open>hw/ioapic.c\<close>. The end of an interrupt leads
    from the local APIC to the I/O APIC and back to the bus of the local APICs, so the code is
    split where the calls cross: \<open>Apic\<close> has the tables, priorities and the bus, \<open>Ioapic\<close> the I/O
    APIC and the record \<open>intr_sys\<close> of all interrupt hardware with the 8259 pair, \<open>Lapic\<close> the rest of
    the local APIC and the acknowledge of \<open>hw/pc.c\<close>. Most urgent vector, nesting of the vectors in
    service, lines that reach the addressed APICs, level-triggered interrupts that come back
    while the line is high, the periodic timer.
  \<^item> \<open>I8254\<close>: \<open>hw/i8254.c\<close>, the interval timer. Counter values, output edges against the time the
    next edge is scheduled for, the latch, programming, and the range of the counts.
  \<^item> \<open>Hpet\<close>: \<open>hw/hpet.c\<close>, the high precision event timer. Periodic timers stay in step, one-shot
    timers match, the main counter follows the clock, and every reachable state is well formed.
  \<^item> \<open>Mc146818rtc\<close>: \<open>hw/mc146818rtc.c\<close>, the clock. The calendar against counting seconds, the
    register formats, the periodic timer without drift, guards of register writes, the alarm.
  \<^item> \<open>Ps2\<close> and \<open>Pckbd\<close>: \<open>hw/ps2.c\<close> and \<open>hw/pckbd.c\<close>, keyboard, mouse and their controller. The
    queue, the packets of a movement, the answers of the keyboard, the agreement of status and
    lines with the queues, and the refinement of a pair of queues by the data port.
  \<^item> \<open>Dma\<close>: \<open>hw/dma.c\<close>, both DMA controllers. Registers read back, the channels a run serves,
    addresses, and memory transfers in both directions.
  \<^item> \<open>Serial\<close>: \<open>hw/serial.c\<close>, the UART. The line and the identification register tell the pending
    source, reception and transmission in order, and the range of the line parameters.
  \<^item> \<open>Pcspk\<close>: \<open>hw/pcspk.c\<close>, the speaker on channel 2 of the timer. The buffer is never left and
    the card hears the wave without gaps.
  \<^item> \<open>Ioport\<close>: \<open>ioport.c\<close>. Registration and removal of a range, dispatch of byte and word accesses.
  \<^item> \<open>Pc\<close>: parts of \<open>hw/pc.c\<close>. The wiring of the lines, the CMOS configuration, port 0x92, the BIOS
    debug ports and the memory map.
  \<^item> \<open>Pci\<close>: \<open>hw/pci.c\<close> with its accessors and the windows of \<open>hw/pci_bridge.c\<close>, the root bus and its
    devices. Configuration writes keep mappings in agreement with registers and line counters in
    agreement with pins; sizing of regions, saving and restoring, reset, capabilities.
  \<^item> \<open>Piix_pci\<close>: \<open>hw/piix_pci.c\<close> and \<open>hw/pci_host.c\<close>, the chipset. The inputs of the interrupt
    controllers follow the pins of all devices through the routing registers, and the pages
    below one megabyte follow the attribute registers.

  The last section of this theory follows a key through keyboard, controller, wiring and
  interrupt controllers to the CPU.

  \<^bold>\<open>Interfaces.\<close> \<open>device\<close> is interpreted for the interrupt controllers, the interrupt hardware with the APICs, the timer, the keyboard
  controller with keyboard and mouse, the DMA controllers, the UART, speaker with timer, the event timer, and the chipset with its bus.
  \<open>dropping_fifo\<close> is interpreted for the PS/2 queue and the receive FIFO of the UART, \<open>tick_clock\<close>
  for the timer and the clock. \<open>slot_relation\<close> says which relations between the states of the local
  APICs hold across every delivery of an interrupt, its extension \<open>slot_relation_lower\<close> which of
  them also hold when a line falls; they are interpreted for keeping everything but requests and
  for losing no request. \<open>pci_router\<close> is what the bus relies on from a chipset, that the routing of a
  pin is a line of the bus; it is interpreted for the PIIX3.

  \<^bold>\<open>Loops and bounds.\<close> No definition uses fuel. The loops that are not over a fixed range are the
  priority search of the interrupt controller, the packets of a mouse movement, the loop of
  the speaker, the search for free configuration space and the loop over pages; each is a function
  with a termination proof. Three loops may run for ever and have the value \<open>None\<close> then: the two that
  move the comparator of an event timer, and the walk along a list of capabilities. That they
  return, or do not, is part of the statements about them. Statements about times assume that
  the nanosecond clock stays within 63 bits, where their hypotheses say so. Port numbers are those
  the board registers. Transfer handlers are assumed to keep the controllers well formed, in one
  statement not to change them; a sound card is assumed to take no more than it is given.

  \<^bold>\<open>Defects found.\<close> Some statements describe what the code does where it differs from what it means
  to do: the rate generator of the timer skips pulses, an alarm for an afternoon hour in 12-hour
  format never fires, a mouse packet can be cut when the queue fills, DMA in descending mode
  loses half of a block, the UART never retries a refused byte, and flushing its receive FIFO
  leaves data ready set. Three register writes make the callback of the event timer loop for
  ever, and saving spoils its halted counter. On the PCI bus a byte write that disables the pins
  of a device leaves its line high, and a device that lowers a pin during reset makes the counter
  of its line negative.

  \<^bold>\<open>Not modelled.\<close> CPU emulation and code generation, physical memory beyond bytes at addresses,
  the main loop and the host's clocks, block, network, USB, virtio, display and sound devices and
  their back ends, buses behind PCI bridges, option ROMs and hotplug, ACPI, the creation of other
  devices and of the board, loading
  of firmware and kernels, migration formats, monitor and user interface, the other
  architectures, and the SDL library. They are host input and output, code that runs on raw
  pointers and generated machine code, or devices of their own. In the modelled files the
  registration of ports, the tables for migration and debug output are left out.
\<close>

section \<open>From the key to the CPU\<close>

text \<open>
  C6: A pressed key interrupts the CPU and can be read. In every reachable state of the keyboard
  controller with both queues empty and the keyboard and its interrupt enabled, and with
  interrupt controllers that have nothing pending or in service, line 1 low and unmasked, a key
  event drives the lines so that the controllers raise the line to the CPU; without an APIC the
  CPU's acknowledge then returns the vector of line 1, and a read of the data port returns the
  first byte of the key.
\<close>

theorem key_interrupts_cpu:
  fixes k :: int
  assumes "reachable (\<lambda>x. x = (i8042_initfn, 0, 0)) i8042_step (s, l)" "ports s = ([], [])"
    "ctl_mode s AND KBD_MODE_KBD_INT \<noteq> 0" "ctl_mode s AND KBD_MODE_DISABLE_KBD = 0"
    "pic_idle (isa_pic h)" "\<not> bit (last_irr (pic0 (isa_pic h))) 1" "\<not> bit (imr (pic0 (isa_pic h))) 1" "cpu_apics h ! 0 = None"
  defines "r \<equiv> on_kbd (ps2_put_keycode k) s"
  defines "b \<equiv> fold deliver (snd r) h"
  shows "Cpu_interrupt 0 INT_HARD \<in> set (cpu_calls b)
    \<and> fst (cpu_get_pic_interrupt None b) = int (unat (irq_base (pic0 (isa_pic h)))) + 1
    \<and> fst (kbd_read_data (fst r)) = ucast (word_of_int (hd (key_bytes k (kbd s))) :: u8)"
proof -
  let ?p = "isa_pic h"
  have wf: "kbd_wf s" using i8042.reachable_wf [OF assms(1)] by (simp add: i8042_wf_def)
  note press = key_press [OF wf assms(2-4), of k, folded r_def]
  have len: "0 < length (key_bytes k (kbd s))" using put_keycode_bytes(2) by blast
  have b: "key_pending (imr (pic0 ?p)) (irq_base (pic0 ?p)) (isa_pic b)" "Cpu_interrupt 0 INT_HARD \<in> set (cpu_calls b)"
    unfolding b_def press(1)
    using deliver_key [OF _ assms(7) len assms(8), of "irq_base (pic0 ?p)"] assms(5,6) by simp_all
  then have "pic_get_irq 0 (pic0 (isa_pic b)) = Some 1" using key_pending_get assms(7) by blast
  then have "fst (pic_read_irq (isa_pic b)) = unat (irq_base (pic0 ?p)) + 1"
    using b by (simp add: pic_read_irq_def key_pending_def split_beta Let_def)
  then have "fst (cpu_get_pic_interrupt None b) = int (unat (irq_base (pic0 ?p))) + 1"
    by (simp add: cpu_get_pic_interrupt_def apic_get_interrupt_def apic_accept_pic_intr_def sys_pic_read_irq_def)
  moreover obtain x xs where "map word_of_int (key_bytes k (kbd s)) = (x :: u8) # xs" "x = word_of_int (hd (key_bytes k (kbd s)))"
    using len by (cases "key_bytes k (kbd s)") auto
  then have "fst (kbd_read_data (fst r)) = ucast (word_of_int (hd (key_bytes k (kbd s))) :: u8)"
    using kbd_read_data_ports [OF press(3)] press(2) by simp
  ultimately show ?thesis using b(2) by simp
qed

theorem key_interrupts_cpu_witness:
  defines "s \<equiv> fst (i8042_reset i8042_initfn)"
  defines "h \<equiv> no_apics\<lparr>isa_pic := i8259_init\<lparr>pic0 := (pic0 i8259_init)\<lparr>irq_base := 8\<rparr>\<rparr>, cpu_apics := [None]\<rparr>"
  shows "fst (cpu_get_pic_interrupt None (fold deliver (snd (on_kbd (ps2_put_keycode 0x1e) s)) h)) = 9"
proof -
  have "reachable (\<lambda>x. x = (i8042_initfn, 0, 0)) i8042_step (s, lines_after (0, 0) (snd (i8042_reset i8042_initfn)))"
    by (rule reachable.next_state [OF reachable.start], rule refl,
        rule i8042_step.system_reset [where t = s and out = "snd (i8042_reset i8042_initfn)"]) (simp add: s_def)
  moreover have "ports s = ([], [])" unfolding s_def by code_simp
  moreover have "ctl_mode s AND KBD_MODE_KBD_INT \<noteq> 0" "ctl_mode s AND KBD_MODE_DISABLE_KBD = 0" unfolding s_def by code_simp+
  moreover have "pic_idle (isa_pic h)" "\<not> bit (last_irr (pic0 (isa_pic h))) 1" "\<not> bit (imr (pic0 (isa_pic h))) 1" "cpu_apics h ! 0 = None"
    by (simp_all add: h_def pic_idle_def i8259_init_def pic_zero_def)
  ultimately show ?thesis using key_interrupts_cpu [of s _ h "0x1e"] by (simp add: h_def)
qed

end
